(* ===== verification/Prelude.thy ===== *)
theory Prelude
  imports Main "HOL-Library.Word" "HOL-Library.AList" "HOL-Library.List_Lexorder"
    "HOL-Library.Char_ord"
begin

text \<open>
  What every component theory shares: the machine integers of the program, the results of
  fallible calls, the part of Rust's string and path library that the engine uses, and the
  generic lemmas the component proofs rest on.

  A Rust \<open>Result<T, E>\<close> is a value of the sum type \<open>'e + 'a\<close>; \<open>Ok\<close> and \<open>Err\<close> abbreviate its
  injections. A byte string and a UTF-8 string are both a list of characters, one character per
  byte.
\<close>

section \<open>Collections of rewrite rules\<close>

named_theorems host_frame \<open>which parts of the host a call leaves alone\<close>
named_theorems step_defs \<open>definitions a step of a protocol unfolds to\<close>

section \<open>Machine integers\<close>

type_synonym u8 = "8 word"
type_synonym u32 = "32 word"
type_synonym u64 = "64 word"

text \<open>\<open>u64::saturating_sub\<close>.\<close>

definition saturating_sub :: "u64 \<Rightarrow> u64 \<Rightarrow> u64" where
  "saturating_sub a b = (if a < b then 0 else a - b)"

lemma unat_saturating_sub: "unat (saturating_sub a b) = unat a - unat b"
proof (cases "a < b")
  case True
  then have "unat a < unat b" by (simp add: word_less_nat_alt)
  with True show ?thesis by (simp add: saturating_sub_def)
next
  case False
  then have "b \<le> a" by simp
  with False show ?thesis by (simp add: saturating_sub_def unat_sub)
qed

lemma saturating_sub_le: "saturating_sub a b \<le> a"
  by (simp add: word_le_nat_alt unat_saturating_sub)

section \<open>Results of fallible calls\<close>

abbreviation Ok :: "'a \<Rightarrow> 'e + 'a" where "Ok \<equiv> Inr"
abbreviation Err :: "'e \<Rightarrow> 'e + 'a" where "Err \<equiv> Inl"

definition is_ok :: "'e + 'a \<Rightarrow> bool" where
  "is_ok r = (case r of Inl _ \<Rightarrow> False | Inr _ \<Rightarrow> True)"

lemma is_ok_simps [simp]: "is_ok (Ok x)" "\<not> is_ok (Err e)"
  by (simp_all add: is_ok_def)

lemma is_ok_iff: "is_ok r \<longleftrightarrow> (\<exists>x. r = Ok x)"
  by (cases r) auto

lemma is_ok_pair: "is_ok (fst p) \<Longrightarrow> \<exists>x w. p = (Ok x, w)"
  by (cases p) (auto simp: is_ok_iff)

text \<open>\<open>Result::map_err\<close> and \<open>Result::map\<close>.\<close>

definition map_err :: "('e \<Rightarrow> 'f) \<Rightarrow> 'e + 'a \<Rightarrow> 'f + 'a" where
  "map_err f r = (case r of Inl e \<Rightarrow> Inl (f e) | Inr x \<Rightarrow> Inr x)"

definition map_ok :: "('a \<Rightarrow> 'b) \<Rightarrow> 'e + 'a \<Rightarrow> 'e + 'b" where
  "map_ok f r = (case r of Inl e \<Rightarrow> Inl e | Inr x \<Rightarrow> Inr (f x))"

lemma map_err_simps [simp]: "map_err f (Err e) = Err (f e)" "map_err f (Ok x) = Ok x"
  by (simp_all add: map_err_def)

lemma map_ok_simps [simp]: "map_ok f (Err e) = Err e" "map_ok f (Ok x) = Ok (f x)"
  by (simp_all add: map_ok_def)

lemma map_err_Ok_iff [simp]: "map_err f r = Ok x \<longleftrightarrow> r = Ok x"
  by (cases r) auto

lemma map_err_Err_iff: "map_err f r = Err e \<longleftrightarrow> (\<exists>e'. r = Err e' \<and> e = f e')"
  by (cases r) auto

text \<open>
  The \<open>?\<close> operator without state (\<open>bind_ok\<close>) and with the host threaded through (\<open>try_io\<close>):
  \<open>try_io r f k\<close> is the statement \<open>let x = r.map_err(f)?;\<close> followed by \<open>k x\<close>.
\<close>

definition bind_ok :: "'e + 'a \<Rightarrow> ('a \<Rightarrow> 'e + 'b) \<Rightarrow> 'e + 'b" where
  "bind_ok r k = (case r of Inl e \<Rightarrow> Inl e | Inr x \<Rightarrow> k x)"

lemma bind_ok_simps [simp]: "bind_ok (Err e) k = Err e" "bind_ok (Ok x) k = k x"
  by (simp_all add: bind_ok_def)

lemma bind_ok_Ok_iff: "bind_ok r k = Ok y \<longleftrightarrow> (\<exists>x. r = Ok x \<and> k x = Ok y)"
  by (cases r) auto

definition try_io ::
  "('e + 'a) \<times> 'w \<Rightarrow> ('e \<Rightarrow> 'f) \<Rightarrow> ('a \<Rightarrow> 'w \<Rightarrow> ('f + 'b) \<times> 'w) \<Rightarrow> ('f + 'b) \<times> 'w" where
  "try_io r f k = (case r of (Inl e, w) \<Rightarrow> (Inl (f e), w) | (Inr x, w) \<Rightarrow> k x w)"

lemma try_io_simps [simp]:
  "try_io (Err e, w) f k = (Err (f e), w)"
  "try_io (Ok x, w) f k = k x w"
  by (simp_all add: try_io_def)

lemma try_io_Ok_iff:
  "try_io r f k = (Ok y, w'') \<longleftrightarrow> (\<exists>x w'. r = (Ok x, w') \<and> k x w' = (Ok y, w''))"
  by (cases r rule: prod.exhaust, rename_tac a b, case_tac a) auto

lemma try_io_cases:
  obtains (error) e w where "r = (Err e, w)" and "try_io r f k = (Err (f e), w)"
  | (ok) x w where "r = (Ok x, w)" and "try_io r f k = k x w"
  by (cases r rule: prod.exhaust, rename_tac a b, case_tac a) auto

lemma try_io_snd:
  assumes "P (snd r)" and "\<And>x w. r = (Ok x, w) \<Longrightarrow> P (snd (k x w))"
  shows "P (snd (try_io r f k))"
  using assms by (cases r rule: prod.exhaust, rename_tac a b, case_tac a) auto

lemma try_io_keeps:
  assumes "g (snd r) = g h" and "\<And>x h'. g (snd (k x h')) = g h'"
  shows "g (snd (try_io r f k)) = g h"
  using assms by (cases r rule: prod.exhaust, rename_tac a b, case_tac a) auto

lemma try_io_pure_snd [simp]: "snd (try_io r f (\<lambda>x w. (Ok (g x), w))) = snd r"
  by (cases r rule: prod.exhaust, rename_tac a b, case_tac a) auto

section \<open>Strings and bytes\<close>

type_synonym bytes = string

text \<open>\<open>u8::is_ascii_*\<close> on the byte a character stands for.\<close>

definition byte_of :: "char \<Rightarrow> nat" where
  "byte_of c = of_char c"

definition is_ascii_lowercase :: "char \<Rightarrow> bool" where
  "is_ascii_lowercase c = (97 \<le> byte_of c \<and> byte_of c \<le> 122)"

definition is_ascii_uppercase :: "char \<Rightarrow> bool" where
  "is_ascii_uppercase c = (65 \<le> byte_of c \<and> byte_of c \<le> 90)"

definition is_ascii_digit :: "char \<Rightarrow> bool" where
  "is_ascii_digit c = (48 \<le> byte_of c \<and> byte_of c \<le> 57)"

definition is_ascii_alphanumeric :: "char \<Rightarrow> bool" where
  "is_ascii_alphanumeric c = (is_ascii_lowercase c \<or> is_ascii_uppercase c \<or> is_ascii_digit c)"

definition is_ascii_hexdigit :: "char \<Rightarrow> bool" where
  "is_ascii_hexdigit c = (is_ascii_digit c \<or> (97 \<le> byte_of c \<and> byte_of c \<le> 102)
     \<or> (65 \<le> byte_of c \<and> byte_of c \<le> 70))"

definition is_ascii_graphic :: "char \<Rightarrow> bool" where
  "is_ascii_graphic c = (33 \<le> byte_of c \<and> byte_of c \<le> 126)"

lemmas ascii_defs = byte_of_def is_ascii_lowercase_def is_ascii_uppercase_def is_ascii_digit_def
  is_ascii_alphanumeric_def is_ascii_hexdigit_def is_ascii_graphic_def

definition to_ascii_lowercase :: "char \<Rightarrow> char" where
  "to_ascii_lowercase c = (if is_ascii_uppercase c then char_of (byte_of c + 32) else c)"

definition starts_with :: "string \<Rightarrow> string \<Rightarrow> bool" where
  "starts_with s p = (take (length p) s = p)"

definition ends_with :: "string \<Rightarrow> string \<Rightarrow> bool" where
  "ends_with s p = (drop (length s - length p) s = p)"

text \<open>\<open>str::strip_prefix\<close> and \<open>str::strip_suffix\<close>.\<close>

definition strip_prefix :: "string \<Rightarrow> string \<Rightarrow> string option" where
  "strip_prefix s p = (if starts_with s p then Some (drop (length p) s) else None)"

definition strip_suffix :: "string \<Rightarrow> string \<Rightarrow> string option" where
  "strip_suffix s p = (if ends_with s p then Some (take (length s - length p) s) else None)"

lemma starts_with_append [simp]: "starts_with (p @ s) p"
  by (simp add: starts_with_def)

lemma ends_with_append [simp]: "ends_with (s @ p) p"
  by (simp add: ends_with_def)

lemma ends_with_iff: "ends_with s p \<longleftrightarrow> (\<exists>t. s = t @ p)"
proof
  assume "ends_with s p"
  then have "s = take (length s - length p) s @ p"
    by (metis append_take_drop_id ends_with_def)
  then show "\<exists>t. s = t @ p" by blast
qed auto

lemma strip_suffix_append [simp]: "strip_suffix (s @ p) p = Some s"
  by (simp add: strip_suffix_def)

lemma strip_suffix_SomeD: "strip_suffix s p = Some t \<Longrightarrow> s = t @ p"
  by (auto simp: strip_suffix_def ends_with_iff split: if_splits)

text \<open>\<open>split\<close> on one separator: every piece, empty ones included, in order.\<close>

fun split_on :: "'a \<Rightarrow> 'a list \<Rightarrow> 'a list list" where
  "split_on c [] = [[]]"
| "split_on c (x # xs) =
     (if x = c then [] # split_on c xs
      else (case split_on c xs of [] \<Rightarrow> [[x]] | p # ps \<Rightarrow> (x # p) # ps))"

lemma split_on_not_Nil [simp]: "split_on c xs \<noteq> []"
  by (cases xs) (auto split: list.splits)

lemma split_on_no_sep: "c \<notin> set xs \<Longrightarrow> split_on c xs = [xs]"
  by (induction xs) auto

lemma split_on_append_sep: "split_on c (xs @ c # ys) = split_on c xs @ split_on c ys"
  by (induction xs) (auto split: list.splits)

lemma split_on_pieces: "p \<in> set (split_on c xs) \<Longrightarrow> c \<notin> set p \<and> set p \<subseteq> set xs"
proof (induction xs arbitrary: p)
  case Nil
  then show ?case by simp
next
  case (Cons x xs)
  obtain q qs where q: "split_on c xs = q # qs"
    by (cases "split_on c xs") auto
  with Cons.IH have "c \<notin> set q" and "set q \<subseteq> set xs"
    and "\<And>r. r \<in> set qs \<Longrightarrow> c \<notin> set r \<and> set r \<subseteq> set xs"
    by auto
  with Cons.prems q show ?case by (fastforce split: if_splits)
qed

text \<open>Joining the pieces with the separator gives the string back.\<close>

fun join_with :: "'a \<Rightarrow> 'a list list \<Rightarrow> 'a list" where
  "join_with c [] = []"
| "join_with c [p] = p"
| "join_with c (p # q # ps) = p @ c # join_with c (q # ps)"

lemma join_with_Cons: "ps \<noteq> [] \<Longrightarrow> join_with c (p # ps) = p @ c # join_with c ps"
  by (cases ps) auto

lemma join_split [simp]: "join_with c (split_on c xs) = xs"
proof (induction xs)
  case Nil
  then show ?case by simp
next
  case (Cons x xs)
  obtain q qs where q: "split_on c xs = q # qs"
    by (cases "split_on c xs") auto
  with Cons show ?case by (cases qs) (auto simp: join_with_Cons)
qed

lemma split_join: "ps \<noteq> [] \<Longrightarrow> (\<And>p. p \<in> set ps \<Longrightarrow> c \<notin> set p) \<Longrightarrow> split_on c (join_with c ps) = ps"
  by (induction c ps rule: join_with.induct) (auto simp: split_on_no_sep split_on_append_sep)

text \<open>
  \<open>String::from_utf8\<close> succeeds exactly on well-formed UTF-8 (no overlong forms, no surrogates,
  nothing above U+10FFFF).
\<close>

definition cont_byte :: "char \<Rightarrow> bool" where
  "cont_byte c = (128 \<le> byte_of c \<and> byte_of c \<le> 191)"

definition three_byte :: "char \<Rightarrow> char \<Rightarrow> char \<Rightarrow> bool" where
  "three_byte a b c = (224 \<le> byte_of a \<and> byte_of a \<le> 239 \<and> cont_byte b \<and> cont_byte c
     \<and> (byte_of a = 224 \<longrightarrow> 160 \<le> byte_of b) \<and> (byte_of a = 237 \<longrightarrow> byte_of b \<le> 159))"

definition four_byte :: "char \<Rightarrow> char \<Rightarrow> char \<Rightarrow> char \<Rightarrow> bool" where
  "four_byte a b c d = (240 \<le> byte_of a \<and> byte_of a \<le> 244
     \<and> cont_byte b \<and> cont_byte c \<and> cont_byte d
     \<and> (byte_of a = 240 \<longrightarrow> 144 \<le> byte_of b) \<and> (byte_of a = 244 \<longrightarrow> byte_of b \<le> 143))"

fun utf8_ok :: "bytes \<Rightarrow> bool" where
  "utf8_ok [] = True"
| "utf8_ok [a] = (byte_of a \<le> 127)"
| "utf8_ok [a, b] =
     (if byte_of a \<le> 127 then utf8_ok [b]
      else 194 \<le> byte_of a \<and> byte_of a \<le> 223 \<and> cont_byte b)"
| "utf8_ok [a, b, c] =
     (if byte_of a \<le> 127 then utf8_ok [b, c]
      else if byte_of a \<le> 223 then 194 \<le> byte_of a \<and> cont_byte b \<and> utf8_ok [c]
      else three_byte a b c)"
| "utf8_ok (a # b # c # d # s) =
     (if byte_of a \<le> 127 then utf8_ok (b # c # d # s)
      else if byte_of a \<le> 223 then 194 \<le> byte_of a \<and> cont_byte b \<and> utf8_ok (c # d # s)
      else if byte_of a \<le> 239 then three_byte a b c \<and> utf8_ok (d # s)
      else four_byte a b c d \<and> utf8_ok s)"

lemma utf8_ok_ascii: "(\<And>c. c \<in> set s \<Longrightarrow> byte_of c \<le> 127) \<Longrightarrow> utf8_ok s"
  by (induction s rule: utf8_ok.induct) auto

section \<open>Lists and association lists\<close>

lemma map_of_AList_update [simp]: "map_of (AList.update k v al) = (map_of al)(k \<mapsto> v)"
  by (simp add: AList.update_conv')

lemma map_of_AList_delete [simp]: "map_of (AList.delete k al) = (map_of al)(k := None)"
  by (simp add: AList.delete_conv')

lemma distinct_AList_update: "distinct (map fst al) \<Longrightarrow> distinct (map fst (AList.update k v al))"
  by (rule AList.distinct_update)

lemma distinct_AList_delete: "distinct (map fst al) \<Longrightarrow> distinct (map fst (AList.delete k al))"
  by (rule AList.distinct_delete)

lemma map_of_filter_key: "map_of (filter (\<lambda>kv. P (fst kv)) al) k = (if P k then map_of al k else None)"
  by (induction al) auto

lemma distinct_map_fst_filter: "distinct (map fst al) \<Longrightarrow> distinct (map fst (filter P al))"
  by (induction al) auto

text \<open>\<open>Iterator::find_map\<close>.\<close>

fun find_map :: "('a \<Rightarrow> 'b option) \<Rightarrow> 'a list \<Rightarrow> 'b option" where
  "find_map f [] = None"
| "find_map f (x # xs) = (case f x of None \<Rightarrow> find_map f xs | Some y \<Rightarrow> Some y)"

lemma find_map_SomeD: "find_map f xs = Some y \<Longrightarrow> \<exists>x \<in> set xs. f x = Some y"
  by (induction xs) (auto split: option.splits)

lemma find_map_None_iff: "find_map f xs = None \<longleftrightarrow> (\<forall>x \<in> set xs. f x = None)"
  by (induction xs) (auto split: option.splits)

end
