(* ===== verification/SiteTypes.thy ===== *)
theory SiteTypes
  imports Prelude
begin

text \<open>
  The validated identifiers and paths of \<open>src/src/site.rs\<close>, the request identifiers of
  \<open>src/src/transaction/mod.rs\<close> and the two names of \<open>src/src/db_restore/mod.rs\<close> that scopes are
  built from. Every one of them is parsed from a string at the server boundary, and the engine
  then builds file names out of the parsed values and \<open>expect\<close>s the result to be a safe relative
  path; the lemmas of the last section show that none of these \<open>expect\<close>s can fail.

  \<^item> A path is the list of its components. \<open>SiteRelativePath_parse\<close> and \<open>TrustedRoot_parse\<close>
    return the components of the accepted string.
  \<^item> A \<open>Uuid\<close> is represented by its hyphenated rendering, which determines it. \<open>Uuid::parse_str\<close>
    belongs to the \<open>uuid\<close> crate and is a parameter of the parsers that call it;
    \<open>uuid_parse_ok\<close> states what its documentation promises.
\<close>

section \<open>Paths of the standard library\<close>

type_synonym path = "string list"

datatype component = RootDir | CurDir | ParentDir | Normal string

abbreviation slash :: char where "slash \<equiv> CHR ''/''"

abbreviation nul :: char where "nul \<equiv> CHR 0x00"

text \<open>\<open>Path::is_absolute\<close> and \<open>Path::components\<close> on Unix.\<close>

definition is_absolute :: "string \<Rightarrow> bool" where
  "is_absolute s = starts_with s ''/''"

definition seg_component :: "string \<Rightarrow> component list" where
  "seg_component p = (if p = [] \<or> p = ''.'' then [] else if p = ''..'' then [ParentDir] else [Normal p])"

definition path_components :: "string \<Rightarrow> component list" where
  "path_components s =
     (if is_absolute s then RootDir # concat (map seg_component (split_on slash s))
      else (if hd (split_on slash s) = ''.'' then [CurDir] else [])
           @ concat (map seg_component (split_on slash s)))"

text \<open>\<open>Path::starts_with\<close> compares components.\<close>

definition path_starts_with :: "'a list \<Rightarrow> 'a list \<Rightarrow> bool" where
  "path_starts_with p q = (take (length q) p = q)"

lemma path_starts_with_append [simp]: "path_starts_with (q @ r) q"
  by (simp add: path_starts_with_def)

lemma path_starts_with_iff: "path_starts_with p q \<longleftrightarrow> (\<exists>r. p = q @ r)"
  by (metis append_eq_conv_conj path_starts_with_def)

section \<open>Errors\<close>

datatype ValidationError =
    InvalidSiteId
  | InvalidDomain
  | InvalidRuntimeId
  | InvalidStackName
  | InvalidTrustedRoot
  | RootFilesystemNotAllowed
  | InvalidRelativePath
  | InvalidCommitSha
  | PathResolutionFailed
  | PathEscapesTrustedRoot

datatype IdentifierError = InvalidRequestId | InvalidIdempotencyKey

section \<open>UUID identifiers\<close>

type_synonym uuid = string
type_synonym SiteId = uuid
type_synonym RequestId = uuid

definition nil_uuid :: uuid where
  "nil_uuid = ''00000000-0000-0000-0000-000000000000''"

definition lower_hex :: "char \<Rightarrow> bool" where
  "lower_hex c = (is_ascii_digit c \<or> (97 \<le> byte_of c \<and> byte_of c \<le> 102))"

text \<open>The shape of \<open>Uuid::hyphenated()\<close>: five groups of lowercase hexadecimal digits.\<close>

definition uuid_wf :: "string \<Rightarrow> bool" where
  "uuid_wf s = (map length (split_on CHR ''-'' s) = [8, 4, 4, 4, 12]
     \<and> list_all (list_all lower_hex) (split_on CHR ''-'' s))"

definition uuid_parse_ok :: "(string \<Rightarrow> uuid option) \<Rightarrow> bool" where
  "uuid_parse_ok parse_str \<longleftrightarrow>
     (\<forall>s u. parse_str s = Some u \<longrightarrow> uuid_wf u) \<and> (\<forall>u. uuid_wf u \<longrightarrow> parse_str u = Some u)"

definition SiteId_parse :: "(string \<Rightarrow> uuid option) \<Rightarrow> string \<Rightarrow> ValidationError + SiteId" where
  "SiteId_parse parse_str value =
     (case parse_str value of
        None \<Rightarrow> Err InvalidSiteId
      | Some u \<Rightarrow> if u = nil_uuid \<or> value \<noteq> u then Err InvalidSiteId else Ok u)"

definition RequestId_parse :: "(string \<Rightarrow> uuid option) \<Rightarrow> string \<Rightarrow> IdentifierError + RequestId" where
  "RequestId_parse parse_str value =
     (case parse_str value of
        None \<Rightarrow> Err InvalidRequestId
      | Some u \<Rightarrow> if u = nil_uuid \<or> value \<noteq> u then Err InvalidRequestId else Ok u)"

text \<open>\<open>IdempotencyKey::parse\<close>: printable ASCII, 1 to 128 bytes.\<close>

type_synonym IdempotencyKey = string

definition MAX_LEN :: nat where "MAX_LEN = 128"

definition IdempotencyKey_parse :: "string \<Rightarrow> IdentifierError + IdempotencyKey" where
  "IdempotencyKey_parse value =
     (if value = [] \<or> length value > MAX_LEN \<or> \<not> list_all is_ascii_graphic value
      then Err InvalidIdempotencyKey else Ok value)"

section \<open>Names\<close>

definition label_char :: "char \<Rightarrow> bool" where
  "label_char c = (is_ascii_lowercase c \<or> is_ascii_digit c \<or> c = CHR ''-'')"

definition bad_label :: "string \<Rightarrow> bool" where
  "bad_label label = (label = [] \<or> length label > 63 \<or> starts_with label ''-''
     \<or> ends_with label ''-'' \<or> \<not> list_all label_char label)"

definition Domain_parse :: "string \<Rightarrow> ValidationError + string" where
  "Domain_parse value =
     (if value = [] \<or> length value > 253 \<or> starts_with value ''.'' \<or> ends_with value ''.''
         \<or> list_ex bad_label (split_on CHR ''.'' value)
      then Err InvalidDomain else Ok value)"

definition RuntimeId_parse :: "string \<Rightarrow> ValidationError + string" where
  "RuntimeId_parse value =
     (if value = [] \<or> length value > 64 \<or> starts_with value ''-'' \<or> ends_with value ''-''
         \<or> \<not> list_all label_char value
      then Err InvalidRuntimeId else Ok value)"

definition stack_char :: "char \<Rightarrow> bool" where
  "stack_char c = (is_ascii_alphanumeric c \<or> c \<in> {CHR ''_'', CHR ''.'', CHR ''-''})"

definition StackName_parse :: "string \<Rightarrow> ValidationError + string" where
  "StackName_parse value =
     (if value = [] \<or> length value > 64 \<or> value = ''.'' \<or> value = ''..'' then Err InvalidStackName
      else case value of
        [] \<Rightarrow> Err InvalidStackName
      | first # rest \<Rightarrow>
          if \<not> is_ascii_alphanumeric first then Err InvalidStackName
          else if \<not> list_all stack_char rest then Err InvalidStackName
          else Ok value)"

definition GitCommitSha_parse :: "string \<Rightarrow> ValidationError + string" where
  "GitCommitSha_parse value =
     (if length value \<notin> {40, 64} \<or> \<not> list_all is_ascii_hexdigit value
      then Err InvalidCommitSha else Ok (map to_ascii_lowercase value))"

definition db_char :: "char \<Rightarrow> bool" where
  "db_char c = (is_ascii_alphanumeric c \<or> c = CHR ''_'')"

datatype RestoreNameError = InvalidDatabaseName | InvalidContainerName

definition DatabaseName_parse :: "string \<Rightarrow> RestoreNameError + string" where
  "DatabaseName_parse value =
     (if value = [] \<or> length value > 64 \<or> \<not> list_all db_char value
      then Err InvalidDatabaseName else Ok value)"

definition ContainerName_parse :: "string \<Rightarrow> RestoreNameError + string" where
  "ContainerName_parse value =
     (if value = [] \<or> length value > 255 \<or> \<not> list_all stack_char value
      then Err InvalidContainerName else Ok value)"

section \<open>Roots and relative paths\<close>

definition has_noncanonical_separators :: "string \<Rightarrow> bool \<Rightarrow> bool" where
  "has_noncanonical_separators s absolute =
     ((length s > (if absolute then 1 else 0) \<and> s \<noteq> [] \<and> last s = slash)
      \<or> list_ex (\<lambda>i. take 2 (drop i s) = ''//'') [0..<length s])"

definition has_forbidden_raw_segment :: "string \<Rightarrow> bool" where
  "has_forbidden_raw_segment s =
     list_ex (\<lambda>seg. seg = ''.'' \<or> seg = ''..'' \<or> nul \<in> set seg) (split_on slash s)"

definition SiteRelativePath_parse :: "string \<Rightarrow> ValidationError + path" where
  "SiteRelativePath_parse s =
     (if s = [] \<or> is_absolute s \<or> has_noncanonical_separators s False then Err InvalidRelativePath
      else if has_forbidden_raw_segment s
              \<or> list_ex (\<lambda>c. case c of Normal _ \<Rightarrow> False | _ \<Rightarrow> True) (path_components s)
      then Err InvalidRelativePath
      else Ok (split_on slash s))"

definition validate_absolute_normal_path :: "string \<Rightarrow> ValidationError + unit" where
  "validate_absolute_normal_path s =
     (if \<not> is_absolute s \<or> has_forbidden_raw_segment s \<or> has_noncanonical_separators s True
         \<or> list_ex (\<lambda>c. c = ParentDir \<or> c = CurDir) (path_components s)
      then Err InvalidTrustedRoot else Ok ())"

text \<open>\<open>path.parent().is_none()\<close> holds of the absolute path \<open>/\<close> only. The result is the root's
  components, the leading separator left out.\<close>

definition TrustedRoot_parse :: "string \<Rightarrow> ValidationError + path" where
  "TrustedRoot_parse s =
     bind_ok (validate_absolute_normal_path s)
       (\<lambda>_. if path_components s = [RootDir] then Err RootFilesystemNotAllowed
            else Ok (tl (split_on slash s)))"

definition TrustedRoot_join :: "path \<Rightarrow> path \<Rightarrow> path" where
  "TrustedRoot_join root relative = root @ relative"

section \<open>What a component of an accepted path looks like\<close>

definition safe_component :: "string \<Rightarrow> bool" where
  "safe_component p = (p \<noteq> [] \<and> p \<noteq> ''.'' \<and> p \<noteq> ''..'' \<and> slash \<notin> set p \<and> nul \<notin> set p)"


section \<open>Splitting and empty pieces\<close>

lemma hd_split_on_Nil: "hd (split_on c xs) = [] \<longleftrightarrow> xs = [] \<or> hd xs = c"
  by (cases xs) (auto split: list.splits)

definition doubled :: "'a \<Rightarrow> 'a list \<Rightarrow> bool" where
  "doubled c xs = (\<exists>i < length xs. take 2 (drop i xs) = [c, c])"

lemma doubled_Nil [simp]: "\<not> doubled c []"
  by (simp add: doubled_def)

lemma doubled_Cons: "doubled c (x # xs) \<longleftrightarrow> (x = c \<and> xs \<noteq> [] \<and> hd xs = c) \<or> doubled c xs"
proof -
  have "doubled c (x # xs) \<longleftrightarrow>
     take 2 (x # xs) = [c, c] \<or> (\<exists>i < length xs. take 2 (drop (Suc i) (x # xs)) = [c, c])"
    unfolding doubled_def
    by (metis (no_types, lifting) drop0 length_Cons less_Suc_eq_0_disj zero_less_Suc)
  then show ?thesis by (cases xs) (auto simp: numeral_2_eq_2 doubled_def)
qed

lemma empty_piece_tl:
  "[] \<in> set (tl (split_on c xs)) \<longleftrightarrow> (xs \<noteq> [] \<and> last xs = c) \<or> doubled c xs"
proof (induction xs)
  case Nil
  then show ?case by simp
next
  case (Cons x xs)
  obtain q qs where q: "split_on c xs = q # qs" by (cases "split_on c xs") auto
  then have qe: "q = [] \<longleftrightarrow> xs = [] \<or> hd xs = c" using hd_split_on_Nil[of c xs] by simp
  have "[] \<in> set (tl (split_on c (x # xs))) \<longleftrightarrow> (x = c \<and> q = []) \<or> [] \<in> set (tl (split_on c xs))"
    using q by auto
  then show ?case using Cons.IH qe by (auto simp: doubled_Cons simp del: split_on.simps)
qed

lemma empty_piece:
  "[] \<in> set (split_on c xs) \<longleftrightarrow> xs = [] \<or> hd xs = c \<or> last xs = c \<or> doubled c xs"
proof -
  obtain q qs where q: "split_on c xs = q # qs" by (cases "split_on c xs") auto
  then have "[] \<in> set (split_on c xs) \<longleftrightarrow> hd (split_on c xs) = [] \<or> [] \<in> set (tl (split_on c xs))"
    by auto
  then show ?thesis unfolding hd_split_on_Nil empty_piece_tl by auto
qed

lemma noncanonical_separators_iff:
  "s = [] \<or> is_absolute s \<or> has_noncanonical_separators s False \<longleftrightarrow> [] \<in> set (split_on slash s)"
proof -
  have "list_ex (\<lambda>i. take 2 (drop i s) = ''//'') [0..<length s] = doubled slash s"
    by (auto simp: doubled_def list_ex_iff)
  then show ?thesis
    unfolding empty_piece has_noncanonical_separators_def is_absolute_def starts_with_def
    by (cases s) auto
qed

lemma forbidden_raw_segment_iff:
  "has_forbidden_raw_segment s \<longleftrightarrow>
     (\<exists>p \<in> set (split_on slash s). p = ''.'' \<or> p = ''..'' \<or> nul \<in> set p)"
  by (simp add: has_forbidden_raw_segment_def list_ex_iff)

text \<open>Exactly the joins of safe components are accepted, and the components come back.\<close>

lemma split_pieces_safe:
  assumes "[] \<notin> set (split_on slash s)" and "\<not> has_forbidden_raw_segment s"
  shows "list_all safe_component (split_on slash s)"
  using assms split_on_pieces[of _ slash s]
  by (auto simp: list_all_iff safe_component_def forbidden_raw_segment_iff)

lemma safe_path_components:
  assumes "list_all safe_component (split_on slash s)"
  shows "path_components s = map Normal (split_on slash s)"
proof -
  have "concat (map seg_component ps) = map Normal ps" if "list_all safe_component ps" for ps
    using that by (induction ps) (auto simp: seg_component_def safe_component_def)
  moreover have "hd (split_on slash s) \<noteq> ''.''" and "[] \<notin> set (split_on slash s)"
    using assms by (auto simp: list_all_iff safe_component_def intro: hd_in_set dest: hd_in_set)
  moreover from this have "\<not> is_absolute s" using noncanonical_separators_iff[of s] by blast
  ultimately show ?thesis using assms by (simp add: path_components_def)
qed

lemma SiteRelativePath_parse_Ok:
  "SiteRelativePath_parse s = Ok ps \<longleftrightarrow> ps = split_on slash s \<and> list_all safe_component ps"
proof
  assume *: "SiteRelativePath_parse s = Ok ps"
  then have "[] \<notin> set (split_on slash s)" and "\<not> has_forbidden_raw_segment s"
    using noncanonical_separators_iff[of s]
    by (auto simp: SiteRelativePath_parse_def split: if_splits)
  then have "list_all safe_component (split_on slash s)" by (rule split_pieces_safe)
  with * show "ps = split_on slash s \<and> list_all safe_component ps"
    by (auto simp: SiteRelativePath_parse_def split: if_splits)
next
  assume *: "ps = split_on slash s \<and> list_all safe_component ps"
  then have "[] \<notin> set (split_on slash s)" by (auto simp: list_all_iff safe_component_def)
  moreover have "\<not> has_forbidden_raw_segment s"
    using * by (auto simp: list_all_iff safe_component_def forbidden_raw_segment_iff)
  moreover have "path_components s = map Normal (split_on slash s)"
    using * safe_path_components by blast
  ultimately show "SiteRelativePath_parse s = Ok ps"
    using * noncanonical_separators_iff[of s]
    by (auto simp: SiteRelativePath_parse_def list_ex_iff)
qed

lemma SiteRelativePath_parse_join:
  assumes "ps \<noteq> []" and "list_all safe_component ps"
  shows "SiteRelativePath_parse (join_with slash ps) = Ok ps"
proof -
  have "split_on slash (join_with slash ps) = ps"
    using assms by (intro split_join) (auto simp: list_all_iff safe_component_def)
  with assms show ?thesis by (simp add: SiteRelativePath_parse_Ok)
qed

section \<open>Parsed identifiers make safe file names\<close>

text \<open>Every character an accepted identifier can hold is neither a separator nor NUL.\<close>

definition name_char :: "char \<Rightarrow> bool" where
  "name_char c = (c \<noteq> slash \<and> c \<noteq> nul)"

lemma name_charI: "48 \<le> byte_of c \<Longrightarrow> name_char c"
  by (auto simp: name_char_def byte_of_def)

lemma byte_of_inj: "byte_of a = byte_of b \<Longrightarrow> a = b"
  by (simp add: byte_of_def)

lemma name_char_of_classes:
  "label_char c \<Longrightarrow> name_char c"
  "stack_char c \<Longrightarrow> name_char c"
  "db_char c \<Longrightarrow> name_char c"
  "lower_hex c \<Longrightarrow> name_char c"
  by (auto simp: label_char_def stack_char_def db_char_def lower_hex_def ascii_defs name_char_def)

lemma safe_componentI:
  assumes "list_all name_char p" and "length p > 2"
  shows "safe_component p"
proof -
  have "p \<noteq> []" and "p \<noteq> ''.''" and "p \<noteq> ''..''" using assms(2) by auto
  moreover have "slash \<notin> set p" and "nul \<notin> set p"
    using assms(1) unfolding list_all_iff name_char_def by blast+
  ultimately show ?thesis by (simp add: safe_component_def)
qed

lemma safe_component_append:
  assumes "list_all name_char p" and "list_all name_char q" and "length p + length q > 2"
  shows "safe_component (p @ q)"
  using assms by (intro safe_componentI) simp_all

lemma uuid_wf_chars:
  assumes "uuid_wf u"
  shows "list_all (\<lambda>c. lower_hex c \<or> c = CHR ''-'') u"
proof -
  have pieces: "set u \<subseteq> \<Union> (set ` set (split_on c u)) \<union> {c}" for c :: char
  proof (induction u)
    case (Cons x xs)
    obtain q qs where "split_on c xs = q # qs" by (cases "split_on c xs") auto
    with Cons show ?case by auto
  qed simp
  show ?thesis
    using assms pieces[of "CHR ''-''"] by (fastforce simp: uuid_wf_def list_all_iff)
qed

lemma length_split_on: "length xs + 1 = sum_list (map length (split_on c xs)) + length (split_on c xs)"
proof (induction xs)
  case (Cons x xs)
  obtain q qs where "split_on c xs = q # qs" by (cases "split_on c xs") auto
  with Cons show ?case by auto
qed simp

lemma uuid_wf_length: "uuid_wf u \<Longrightarrow> length u = 36"
proof -
  assume wf: "uuid_wf u"
  then have lens: "map length (split_on CHR ''-'' u) = [8, 4, 4, 4, 12]" by (simp add: uuid_wf_def)
  then have "length (map length (split_on CHR ''-'' u)) = 5" by simp
  then have "length (split_on CHR ''-'' u) = 5" by simp
  with lens show "length u = 36" using length_split_on[of u "CHR ''-''"] by simp
qed

lemma uuid_wf_name_chars: "uuid_wf u \<Longrightarrow> list_all name_char u"
proof -
  assume "uuid_wf u"
  moreover have "name_char CHR ''-''" by (simp add: name_char_def)
  ultimately show ?thesis
    using uuid_wf_chars[of u] name_char_of_classes(4) by (auto simp: list_all_iff)
qed

lemma RequestId_parse_Ok:
  assumes "uuid_parse_ok parse_str" and "RequestId_parse parse_str v = Ok u"
  shows "u = v" and "uuid_wf u" and "u \<noteq> nil_uuid"
  using assms by (auto simp: RequestId_parse_def uuid_parse_ok_def split: option.splits if_splits)

lemma SiteId_parse_Ok:
  assumes "uuid_parse_ok parse_str" and "SiteId_parse parse_str v = Ok u"
  shows "u = v" and "uuid_wf u" and "u \<noteq> nil_uuid"
  using assms by (auto simp: SiteId_parse_def uuid_parse_ok_def split: option.splits if_splits)

lemma name_char_suffixes [simp]:
  "list_all name_char ''.json''" "list_all name_char ''.caddyfile''"
  by (simp_all add: name_char_def)

lemma uuid_component:
  assumes "uuid_wf u" and "list_all name_char suffix"
  shows "safe_component (u @ suffix)"
  using assms uuid_wf_name_chars[of u] uuid_wf_length[of u] by (intro safe_component_append) auto

lemma uuid_component_self: "uuid_wf u \<Longrightarrow> safe_component u"
  using uuid_component[of u "[]"] by simp

lemma parse_two:
  assumes "safe_component a" and "safe_component b"
  shows "SiteRelativePath_parse (a @ slash # b) = Ok [a, b]"
  using SiteRelativePath_parse_join[of "[a, b]"] assms by simp

lemma parse_one: "safe_component a \<Longrightarrow> SiteRelativePath_parse a = Ok [a]"
  using SiteRelativePath_parse_join[of "[a]"] by simp

lemma Domain_parse_chars:
  assumes "Domain_parse v = Ok d"
  shows "d = v" and "v \<noteq> []" and "list_all name_char v"
proof -
  from assms show "d = v" and "v \<noteq> []" by (auto simp: Domain_parse_def split: if_splits)
  have piece: "list_all name_char p" if "p \<in> set (split_on CHR ''.'' v)" for p
    using assms that name_char_of_classes(1)
    by (auto simp: Domain_parse_def bad_label_def list_ex_iff list_all_iff split: if_splits)
  have "set v \<subseteq> \<Union> (set ` set (split_on c v)) \<union> {c}" for c :: char
  proof (induction v)
    case (Cons x xs)
    obtain q qs where "split_on c xs = q # qs" by (cases "split_on c xs") auto
    with Cons show ?case by auto
  qed simp
  moreover have "name_char CHR ''.''" by (simp add: name_char_def)
  ultimately show "list_all name_char v" using piece by (fastforce simp: list_all_iff)
qed

lemma noncanonical_abs_iff:
  "has_noncanonical_separators (slash # t) True \<longleftrightarrow> t \<noteq> [] \<and> [] \<in> set (split_on slash t)"
proof -
  have dbl: "list_ex (\<lambda>i. take 2 (drop i s) = ''//'') [0..<length s] = doubled slash s" for s
    by (auto simp: doubled_def list_ex_iff)
  show ?thesis
    unfolding has_noncanonical_separators_def empty_piece dbl by (auto simp: doubled_Cons)
qed

lemma concat_seg_safe: "list_all safe_component ps \<Longrightarrow> concat (map seg_component ps) = map Normal ps"
  by (induction ps) (auto simp: seg_component_def safe_component_def)

lemma TrustedRoot_parse_slash:
  assumes "t \<noteq> []"
  shows "TrustedRoot_parse (slash # t) = Ok ps \<longleftrightarrow>
     ps = split_on slash t \<and> list_all safe_component ps"
proof
  assume *: "TrustedRoot_parse (slash # t) = Ok ps"
  then have "\<not> has_noncanonical_separators (slash # t) True"
    and "\<not> has_forbidden_raw_segment (slash # t)" and ps: "ps = split_on slash t"
    by (auto simp: TrustedRoot_parse_def validate_absolute_normal_path_def split: if_splits)
  then have "[] \<notin> set (split_on slash t)" and "\<not> has_forbidden_raw_segment t"
    using assms by (auto simp: noncanonical_abs_iff forbidden_raw_segment_iff)
  with ps show "ps = split_on slash t \<and> list_all safe_component ps"
    using split_pieces_safe by blast
next
  assume *: "ps = split_on slash t \<and> list_all safe_component ps"
  then have "[] \<notin> set (split_on slash t)" by (auto simp: list_all_iff safe_component_def)
  then have sep: "\<not> has_noncanonical_separators (slash # t) True" by (simp add: noncanonical_abs_iff)
  have seg: "\<not> has_forbidden_raw_segment (slash # t)"
    using * by (auto simp: list_all_iff safe_component_def forbidden_raw_segment_iff)
  have abs: "is_absolute (slash # t)" by (simp add: is_absolute_def starts_with_def)
  have comps: "path_components (slash # t) = RootDir # map Normal (split_on slash t)"
    using * abs concat_seg_safe by (auto simp: path_components_def seg_component_def)
  show "TrustedRoot_parse (slash # t) = Ok ps"
    using * sep seg abs comps
    by (auto simp: TrustedRoot_parse_def validate_absolute_normal_path_def list_ex_iff)
qed

lemma TrustedRoot_parse_Ok:
  "TrustedRoot_parse s = Ok ps \<longleftrightarrow>
     ps \<noteq> [] \<and> list_all safe_component ps \<and> s = slash # join_with slash ps"
proof -
  have abs: "TrustedRoot_parse s = Ok ps \<Longrightarrow> \<exists>t. s = slash # t"
    by (cases s) (auto simp: TrustedRoot_parse_def validate_absolute_normal_path_def is_absolute_def
        starts_with_def split: if_splits)
  have root: "TrustedRoot_parse [slash] \<noteq> Ok ps"
    by (simp add: TrustedRoot_parse_def validate_absolute_normal_path_def path_components_def
        is_absolute_def starts_with_def seg_component_def)
  have split: "split_on slash (join_with slash ps) = ps" if "ps \<noteq> []" "list_all safe_component ps"
    using that by (intro split_join) (auto simp: list_all_iff safe_component_def)
  have join: "join_with slash ps \<noteq> []" if "ps \<noteq> []" "list_all safe_component ps"
    using that by (cases "(slash, ps)" rule: join_with.cases) (auto simp: safe_component_def)
  show ?thesis
  proof
    assume ok: "TrustedRoot_parse s = Ok ps"
    then obtain t where t: "s = slash # t" using abs by blast
    then have "t \<noteq> []" using ok root by auto
    then have "ps = split_on slash t \<and> list_all safe_component ps"
      using ok t TrustedRoot_parse_slash by blast
    then show "ps \<noteq> [] \<and> list_all safe_component ps \<and> s = slash # join_with slash ps"
      using t by auto
  next
    assume "ps \<noteq> [] \<and> list_all safe_component ps \<and> s = slash # join_with slash ps"
    then show "TrustedRoot_parse s = Ok ps"
      using TrustedRoot_parse_slash[of "join_with slash ps" ps] split join by simp
  qed
qed

section \<open>Object names\<close>

lemma to_ascii_lowercase_hex:
  assumes "is_ascii_hexdigit c"
  shows "lower_hex (to_ascii_lowercase c)"
proof (cases "is_ascii_uppercase c")
  case True
  with assms have "byte_of (to_ascii_lowercase c) = byte_of c + 32"
    by (auto simp: to_ascii_lowercase_def byte_of_def is_ascii_hexdigit_def is_ascii_digit_def
        is_ascii_uppercase_def of_char_of take_bit_nat_def)
  with True assms show ?thesis
    by (auto simp: lower_hex_def is_ascii_hexdigit_def is_ascii_digit_def is_ascii_uppercase_def)
next
  case False
  with assms show ?thesis
    by (auto simp: to_ascii_lowercase_def lower_hex_def is_ascii_hexdigit_def is_ascii_digit_def
        is_ascii_uppercase_def)
qed

lemma lower_hex_fixed: "lower_hex c \<Longrightarrow> to_ascii_lowercase c = c \<and> is_ascii_hexdigit c"
  by (auto simp: to_ascii_lowercase_def lower_hex_def is_ascii_hexdigit_def is_ascii_digit_def
      is_ascii_uppercase_def)

section \<open>Properties\<close>

text \<open>
  (C17) \<open>SiteRelativePath::parse\<close> accepts exactly the texts that are one or more components joined
  by single slashes, where no component is empty, \<open>.\<close> or \<open>..\<close> or holds a NUL byte, and what it
  returns joins back to the text it was given.
\<close>

theorem site_relative_path_exact:
  "SiteRelativePath_parse s = Ok ps \<longleftrightarrow>
     ps \<noteq> [] \<and> list_all safe_component ps \<and> s = join_with slash ps"
proof
  assume "SiteRelativePath_parse s = Ok ps"
  then show "ps \<noteq> [] \<and> list_all safe_component ps \<and> s = join_with slash ps"
    by (auto simp: SiteRelativePath_parse_Ok)
next
  assume "ps \<noteq> [] \<and> list_all safe_component ps \<and> s = join_with slash ps"
  then show "SiteRelativePath_parse s = Ok ps" using SiteRelativePath_parse_join by blast
qed

text \<open>
  \<open>TrustedRoot::parse\<close> accepts exactly the absolute, normal spellings of a directory other
  than the root of the filesystem: a slash followed by the joined safe components.
\<close>

theorem trusted_root_exact:
  "TrustedRoot_parse s = Ok ps \<longleftrightarrow>
     ps \<noteq> [] \<and> list_all safe_component ps \<and> s = slash # join_with slash ps"
  by (rule TrustedRoot_parse_Ok)

text \<open>
  A commit id is normalised: \<open>GitCommitSha::parse\<close> returns 40 or 64 lowercase hexadecimal digits,
  equal to the given text up to case, and parsing the result again changes nothing.
\<close>

theorem git_commit_sha_normal:
  assumes "GitCommitSha_parse v = Ok sha"
  shows "length sha \<in> {40, 64} \<and> list_all lower_hex sha \<and> sha = map to_ascii_lowercase v
    \<and> GitCommitSha_parse sha = Ok sha"
proof -
  from assms have v: "length v \<in> {40, 64}" "list_all is_ascii_hexdigit v" "sha = map to_ascii_lowercase v"
    by (auto simp: GitCommitSha_parse_def split: if_splits)
  then have low: "list_all lower_hex sha" using to_ascii_lowercase_hex by (auto simp: list_all_iff)
  then have "map to_ascii_lowercase sha = sha" "list_all is_ascii_hexdigit sha"
    using lower_hex_fixed by (auto simp: list_all_iff intro: map_idI)
  with v low show ?thesis by (simp add: GitCommitSha_parse_def)
qed

theorem git_commit_sha_normal_witness:
  "GitCommitSha_parse ''AAAAAAAAAABBBBBBBBBBCCCCCCCCCC0123456789''
     = Ok ''aaaaaaaaaabbbbbbbbbbcccccccccc0123456789'' \<and>
   GitCommitSha_parse ''aaaaaaaaaabbbbbbbbbbcccccccccc0123456789''
     = Ok ''aaaaaaaaaabbbbbbbbbbcccccccccc0123456789''"
proof -
  have "GitCommitSha_parse ''AAAAAAAAAABBBBBBBBBBCCCCCCCCCC0123456789''
     = Ok ''aaaaaaaaaabbbbbbbbbbcccccccccc0123456789''"
    by code_simp
  from git_commit_sha_normal[OF this] this show ?thesis by blast
qed

end
