(* ===== verification/HostFs.thy ===== *)
theory HostFs
  imports SiteTypes
begin

text \<open>
  The host the engine runs on and the capability-scoped directory API of
  \<open>src/src/filesystem.rs\<close>.

  The host is a record: the directory tree (an association list from absolute paths to nodes, so
  that a directory has a listing order), the kernel's table of \<open>flock\<close>ed files, the wall clock,
  and what the engine cannot know about it (\<open>realpath\<close>, modification times). Any call into the
  kernel may fail: \<open>tick\<close> numbers the calls, \<open>fails\<close> says which of them fail and \<open>torn\<close> how many
  bytes a failing write leaves behind. All of these are arbitrary, so a theorem about a definition
  below holds for every schedule of I/O failures.

  A \<open>ManagedRoot\<close> is the absolute path of the opened directory. Its methods are the \<open>cap-std\<close>
  versions of the \<open>openat\<close>/\<open>renameat\<close>/\<open>unlinkat\<close> family; the primitives \<open>open_new\<close>,
  \<open>create_trunc\<close>, \<open>open_append\<close>, \<open>write_all\<close>, \<open>sync_all\<close> and \<open>rename_node\<close> state the POSIX
  behaviour of the single calls, and each method is composed of them in the order of the source.
  Three restrictions of the model: no component before the last is a symbolic link (the engine
  creates none in the directories modelled here; the extraction of an archive, which can, resolves
  its paths first, see \<open>TarExtract\<close>), opening a link for reading or writing is a failing call, and
  a host has regular files, directories and links only, no devices or pipes.
\<close>

section \<open>Nodes and hosts\<close>

datatype io_error =
    IoNotFound | IoAlreadyExists | IoWouldBlock | IoInvalidData | IoInvalidInput | IoOther

datatype node = File bytes | Dir | Symlink string

record host =
  tree :: "(path \<times> node) list"
  flocked :: "path \<Rightarrow> bool"
  realpath :: "path \<Rightarrow> path option"
  mtime :: "path \<Rightarrow> nat option"
  clock :: "nat \<Rightarrow> u64"
  tick :: nat
  fails :: "nat \<Rightarrow> bool"
  torn :: "nat \<Rightarrow> nat"

type_synonym ManagedRoot = path
type_synonym 'a io = "(io_error + 'a) \<times> host"

definition node_at :: "host \<Rightarrow> path \<Rightarrow> node option" where
  "node_at h p = map_of (tree h) p"

definition set_node :: "path \<Rightarrow> node \<Rightarrow> host \<Rightarrow> host" where
  "set_node p n h = h\<lparr>tree := AList.update p n (tree h)\<rparr>"

definition del_node :: "path \<Rightarrow> host \<Rightarrow> host" where
  "del_node p h = h\<lparr>tree := AList.delete p (tree h)\<rparr>"

definition host_wf :: "host \<Rightarrow> bool" where
  "host_wf h = distinct (map fst (tree h))"

text \<open>\<open>SystemTime::now()\<close> in seconds since the epoch, as every \<open>unix_now_secs\<close> reads it.\<close>

definition unix_now_secs :: "host \<Rightarrow> u64" where
  "unix_now_secs h = clock h (tick h)"

text \<open>A call into the kernel: it may fail without an effect, whatever it would have done.\<close>

definition next_tick :: "host \<Rightarrow> host" where
  "next_tick h = h\<lparr>tick := Suc (tick h)\<rparr>"

definition io_call :: "host \<Rightarrow> (host \<Rightarrow> 'a io) \<Rightarrow> 'a io" where
  "io_call h f = (if fails h (tick h) then (Err IoOther, next_tick h) else f (next_tick h))"

section \<open>Single calls\<close>

definition parent_ok :: "host \<Rightarrow> path \<Rightarrow> bool" where
  "parent_ok h p = (p \<noteq> [] \<and> node_at h (butlast p) = Some Dir)"

text \<open>What a call reports when the parent is no directory: \<open>ENOTDIR\<close> when a component on the way is a file.\<close>

definition parent_error :: "host \<Rightarrow> path \<Rightarrow> io_error" where
  "parent_error h p =
     (if list_all (\<lambda>n. case node_at h (take n p) of Some (File _) \<Rightarrow> False | _ \<Rightarrow> True) [0..<length p]
      then IoNotFound else IoOther)"

definition open_new :: "path \<Rightarrow> host \<Rightarrow> unit io" where
  "open_new p h = io_call h (\<lambda>h.
     if \<not> parent_ok h p then (Err (parent_error h p), h)
     else if node_at h p \<noteq> None then (Err IoAlreadyExists, h)
     else (Ok (), set_node p (File []) h))"

definition write_all :: "path \<Rightarrow> bytes \<Rightarrow> bytes \<Rightarrow> host \<Rightarrow> unit io" where
  "write_all p old c h =
     (if fails h (tick h)
      then (Err IoOther, set_node p (File (old @ take (torn h (tick h)) c)) (next_tick h))
      else (Ok (), set_node p (File (old @ c)) (next_tick h)))"

definition sync_all :: "host \<Rightarrow> unit io" where
  "sync_all h = io_call h (\<lambda>h. (Ok (), h))"

definition create_trunc :: "path \<Rightarrow> host \<Rightarrow> unit io" where
  "create_trunc p h = io_call h (\<lambda>h.
     if \<not> parent_ok h p then (Err (parent_error h p), h)
     else case node_at h p of
       None \<Rightarrow> (Ok (), set_node p (File []) h)
     | Some (File _) \<Rightarrow> (Ok (), set_node p (File []) h)
     | Some _ \<Rightarrow> (Err IoOther, h))"

definition open_append :: "path \<Rightarrow> host \<Rightarrow> bytes io" where
  "open_append p h = io_call h (\<lambda>h.
     if \<not> parent_ok h p then (Err (parent_error h p), h)
     else case node_at h p of
       None \<Rightarrow> (Ok [], set_node p (File []) h)
     | Some (File b) \<Rightarrow> (Ok b, h)
     | Some _ \<Rightarrow> (Err IoOther, h))"

text \<open>The engine renames staged files and links only, never a directory.\<close>

definition rename_node :: "path \<Rightarrow> path \<Rightarrow> host \<Rightarrow> unit io" where
  "rename_node from to h = io_call h (\<lambda>h.
     case node_at h from of
       None \<Rightarrow> (Err IoNotFound, h)
     | Some Dir \<Rightarrow> (Err IoOther, h)
     | Some n \<Rightarrow>
         if \<not> parent_ok h to then (Err (parent_error h to), h)
         else if node_at h to = Some Dir then (Err IoOther, h)
         else (Ok (), set_node to n (del_node from h)))"

section \<open>The methods of a managed root\<close>

definition open_managed_dir :: "ManagedRoot \<Rightarrow> path \<Rightarrow> host \<Rightarrow> ManagedRoot io" where
  "open_managed_dir root p h = io_call h (\<lambda>h.
     case node_at h (root @ p) of
       None \<Rightarrow> (Err IoNotFound, h)
     | Some Dir \<Rightarrow> (Ok (root @ p), h)
     | Some _ \<Rightarrow> (Err IoOther, h))"

definition ManagedRoot_open :: "path \<Rightarrow> host \<Rightarrow> ManagedRoot io" where
  "ManagedRoot_open root h = open_managed_dir root [] h"

text \<open>
  \<open>create_dir_all\<close> makes every missing ancestor, stopping at the first that is no directory. A failing call
  may have made some of them.
\<close>

fun make_dirs :: "path \<Rightarrow> path \<Rightarrow> host \<Rightarrow> unit io" where
  "make_dirs base [] h = (Ok (), h)"
| "make_dirs base (x # xs) h =
     (case node_at h (base @ [x]) of
        None \<Rightarrow> make_dirs (base @ [x]) xs (set_node (base @ [x]) Dir h)
      | Some Dir \<Rightarrow> make_dirs (base @ [x]) xs h
      | Some _ \<Rightarrow> (Err IoOther, h))"

definition create_dir_all :: "ManagedRoot \<Rightarrow> path \<Rightarrow> host \<Rightarrow> unit io" where
  "create_dir_all root p h =
     (if fails h (tick h)
      then (Err IoOther, snd (make_dirs root (take (torn h (tick h)) p) (next_tick h)))
      else make_dirs root p (next_tick h))"

definition create_dir :: "ManagedRoot \<Rightarrow> path \<Rightarrow> host \<Rightarrow> unit io" where
  "create_dir root p h = io_call h (\<lambda>h.
     if \<not> parent_ok h (root @ p) then (Err (parent_error h (root @ p)), h)
     else if node_at h (root @ p) \<noteq> None then (Err IoAlreadyExists, h)
     else (Ok (), set_node (root @ p) Dir h))"

definition read_to_string :: "ManagedRoot \<Rightarrow> path \<Rightarrow> host \<Rightarrow> bytes io" where
  "read_to_string root p h = io_call h (\<lambda>h.
     case node_at h (root @ p) of
       None \<Rightarrow> (Err IoNotFound, h)
     | Some (File b) \<Rightarrow> (if utf8_ok b then Ok b else Err IoInvalidData, h)
     | Some _ \<Rightarrow> (Err IoOther, h))"

text \<open>\<open>exists\<close> is \<open>metadata(..).is_ok()\<close>: it follows a link, and a failing call reads as absent.\<close>

definition exists_path :: "ManagedRoot \<Rightarrow> path \<Rightarrow> host \<Rightarrow> bool \<times> host" where
  "exists_path root p h =
     (\<not> fails h (tick h) \<and>
      (case node_at h (root @ p) of
         None \<Rightarrow> False
       | Some (Symlink _) \<Rightarrow> realpath h (root @ p) \<noteq> None
       | Some _ \<Rightarrow> True), next_tick h)"

definition is_file_node :: "node \<Rightarrow> bool" where
  "is_file_node n = (case n of File _ \<Rightarrow> True | _ \<Rightarrow> False)"

text \<open>The entries directly below a directory, in its listing order.\<close>

definition dir_entries :: "host \<Rightarrow> path \<Rightarrow> (path \<times> node) list" where
  "dir_entries h d = filter (\<lambda>(p, n). p \<noteq> [] \<and> butlast p = d) (tree h)"

definition file_names :: "ManagedRoot \<Rightarrow> host \<Rightarrow> string list io" where
  "file_names root h = io_call h (\<lambda>h.
     (Ok (filter utf8_ok
       (map (\<lambda>(p, n). last p) (filter (\<lambda>(p, n). is_file_node n) (dir_entries h root)))), h))"

definition file_names_bounded :: "ManagedRoot \<Rightarrow> nat \<Rightarrow> host \<Rightarrow> (string list \<times> bool) io" where
  "file_names_bounded root limit h = io_call h (\<lambda>h.
     (Ok (filter utf8_ok (map (\<lambda>(p, n). last p) (take limit (dir_entries h root))),
          limit < length (dir_entries h root)), h))"

definition create_new :: "ManagedRoot \<Rightarrow> path \<Rightarrow> bytes \<Rightarrow> host \<Rightarrow> unit io" where
  "create_new root p contents h =
     try_io (open_new (root @ p) h) id (\<lambda>_ h. write_all (root @ p) [] contents h)"

definition append_file :: "ManagedRoot \<Rightarrow> path \<Rightarrow> bytes \<Rightarrow> host \<Rightarrow> unit io" where
  "append_file root p contents h =
     try_io (open_append (root @ p) h) id (\<lambda>old h.
     try_io (write_all (root @ p) old contents h) id (\<lambda>_ h. sync_all h))"

definition temp_sibling_path :: "path \<Rightarrow> io_error + path" where
  "temp_sibling_path p = (if p = [] then Err IoOther else Ok (butlast p @ [last p @ ''.tmp'']))"

definition write_atomic :: "ManagedRoot \<Rightarrow> path \<Rightarrow> bytes \<Rightarrow> host \<Rightarrow> unit io" where
  "write_atomic root p contents h =
     (case temp_sibling_path p of
        Inl e \<Rightarrow> (Err e, h)
      | Inr t \<Rightarrow>
          try_io (create_trunc (root @ t) h) id (\<lambda>_ h.
          try_io (write_all (root @ t) [] contents h) id (\<lambda>_ h.
          try_io (sync_all h) id (\<lambda>_ h. rename_node (root @ t) (root @ p) h))))"

definition remove_file :: "ManagedRoot \<Rightarrow> path \<Rightarrow> host \<Rightarrow> unit io" where
  "remove_file root p h = io_call h (\<lambda>h.
     case node_at h (root @ p) of
       None \<Rightarrow> (Err IoNotFound, h)
     | Some Dir \<Rightarrow> (Err IoOther, h)
     | Some _ \<Rightarrow> (Ok (), del_node (root @ p) h))"

text \<open>
  A failing recursive removal may already have removed some of the entries below. Of a link only the
  link itself is removed.
\<close>

definition below :: "path \<Rightarrow> path \<Rightarrow> bool" where
  "below d p = path_starts_with p d"

definition remove_dir_all :: "ManagedRoot \<Rightarrow> path \<Rightarrow> host \<Rightarrow> unit io" where
  "remove_dir_all root p h =
     (let d = root @ p in
      (case node_at h d of
         None \<Rightarrow> (Err IoNotFound, next_tick h)
       | Some (Symlink _) \<Rightarrow>
           if fails h (tick h) then (Err IoOther, next_tick h) else (Ok (), del_node d (next_tick h))
       | Some n \<Rightarrow>
           if fails h (tick h) \<or> n \<noteq> Dir
           then (let gone = take (torn h (tick h)) (filter (\<lambda>q. below d q \<and> q \<noteq> d) (map fst (tree h)))
                 in (Err IoOther, (next_tick h)\<lparr>tree := filter (\<lambda>kv. fst kv \<notin> set gone) (tree h)\<rparr>))
           else (Ok (), (next_tick h)\<lparr>tree := filter (\<lambda>kv. \<not> below d (fst kv)) (tree h)\<rparr>)))"

definition symlink :: "ManagedRoot \<Rightarrow> path \<Rightarrow> path \<Rightarrow> host \<Rightarrow> unit io" where
  "symlink root link target h = io_call h (\<lambda>h.
     if \<not> parent_ok h (root @ link) then (Err (parent_error h (root @ link)), h)
     else if node_at h (root @ link) \<noteq> None then (Err IoAlreadyExists, h)
     else (Ok (), set_node (root @ link) (Symlink (join_with slash target)) h))"

definition read_link :: "ManagedRoot \<Rightarrow> path \<Rightarrow> host \<Rightarrow> string io" where
  "read_link root link h = io_call h (\<lambda>h.
     case node_at h (root @ link) of
       None \<Rightarrow> (Err IoNotFound, h)
     | Some (Symlink t) \<Rightarrow> (Ok t, h)
     | Some _ \<Rightarrow> (Err IoInvalidInput, h))"

definition rename :: "ManagedRoot \<Rightarrow> path \<Rightarrow> path \<Rightarrow> host \<Rightarrow> unit io" where
  "rename root from to h = rename_node (root @ from) (root @ to) h"

text \<open>\<open>symlink_metadata\<close>: whether the entry is a regular file, and its length.\<close>

definition symlink_metadata :: "ManagedRoot \<Rightarrow> path \<Rightarrow> host \<Rightarrow> (bool \<times> nat) io" where
  "symlink_metadata root p h = io_call h (\<lambda>h.
     case node_at h (root @ p) of
       None \<Rightarrow> (Err IoNotFound, h)
     | Some (File b) \<Rightarrow> (Ok (True, length b), h)
     | Some Dir \<Rightarrow> (Ok (False, 0), h)
     | Some (Symlink t) \<Rightarrow> (Ok (False, length t), h))"

text \<open>The opened file is represented by the bytes its descriptor reads.\<close>

definition open_regular_read :: "ManagedRoot \<Rightarrow> path \<Rightarrow> host \<Rightarrow> bytes io" where
  "open_regular_read root p h =
     try_io (symlink_metadata root p h) id (\<lambda>(is_file, _) h.
       if \<not> is_file then (Err IoInvalidData, h)
       else try_io (io_call h (\<lambda>h.
              case node_at h (root @ p) of
                None \<Rightarrow> (Err IoNotFound, h)
              | Some (File b) \<Rightarrow> (Ok b, h)
              | Some _ \<Rightarrow> (Err IoOther, h))) id
            (\<lambda>b h. io_call h (\<lambda>h. (Ok b, h))))"

text \<open>\<open>file.take(n).read_to_end(&mut bytes)\<close>: the bytes read so far are kept on an error.\<close>

definition read_take :: "nat \<Rightarrow> bytes \<Rightarrow> host \<Rightarrow> (io_error option \<times> bytes) \<times> host" where
  "read_take n b h =
     (if fails h (tick h) then ((Some IoOther, take (torn h (tick h)) (take n b)), next_tick h)
      else ((None, take n b), next_tick h))"

definition open_or_create_file :: "ManagedRoot \<Rightarrow> path \<Rightarrow> host \<Rightarrow> unit io" where
  "open_or_create_file root p h = try_io (open_append (root @ p) h) id (\<lambda>_ h. (Ok (), h))"


section \<open>What the calls leave alone\<close>

text \<open>Everything but the tree and the call counter.\<close>

definition env :: "host \<Rightarrow> (path \<Rightarrow> bool) \<times> (path \<Rightarrow> path option) \<times> (path \<Rightarrow> nat option)
    \<times> (nat \<Rightarrow> u64) \<times> (nat \<Rightarrow> bool) \<times> (nat \<Rightarrow> nat)" where
  "env h = (flocked h, realpath h, mtime h, clock h, fails h, torn h)"

lemma env_flocked: "env h = env h' \<Longrightarrow> flocked h = flocked h'"
  by (simp add: env_def)

lemma node_at_simps [simp]:
  "node_at (set_node p n h) = (node_at h)(p \<mapsto> n)"
  "node_at (del_node p h) = (node_at h)(p := None)"
  "node_at (next_tick h) = node_at h"
  by (auto simp: node_at_def set_node_def del_node_def next_tick_def fun_eq_iff)

lemma env_simps [simp]:
  "env (set_node p n h) = env h" "env (del_node p h) = env h" "env (next_tick h) = env h"
  by (simp_all add: env_def set_node_def del_node_def next_tick_def)

lemma tree_next_tick [simp]: "tree (next_tick h) = tree h"
  by (simp add: next_tick_def)

lemma tick_next_tick [simp]: "tick (next_tick h) = Suc (tick h)"
  by (simp add: next_tick_def)

lemma host_fields_simps [simp]:
  "fails (set_node p n h) = fails h" "fails (del_node p h) = fails h" "fails (next_tick h) = fails h"
  "torn (set_node p n h) = torn h" "torn (del_node p h) = torn h" "torn (next_tick h) = torn h"
  "clock (set_node p n h) = clock h" "clock (del_node p h) = clock h" "clock (next_tick h) = clock h"
  "tick (set_node p n h) = tick h" "tick (del_node p h) = tick h"
  "flocked (set_node p n h) = flocked h" "flocked (del_node p h) = flocked h"
  "flocked (next_tick h) = flocked h"
  "realpath (set_node p n h) = realpath h" "realpath (del_node p h) = realpath h"
  "realpath (next_tick h) = realpath h"
  "mtime (set_node p n h) = mtime h" "mtime (del_node p h) = mtime h" "mtime (next_tick h) = mtime h"
  by (simp_all add: set_node_def del_node_def next_tick_def)

lemma parent_ok_next_tick [simp]: "parent_ok (next_tick h) p = parent_ok h p"
  by (simp add: parent_ok_def)

lemma parent_error_simps [simp]:
  "parent_error (next_tick h) p = parent_error h p" "parent_error h p \<noteq> IoAlreadyExists" "parent_error h p \<noteq> IoWouldBlock"
  by (simp_all add: parent_error_def)

lemma wf_simps [simp]:
  "host_wf h \<Longrightarrow> host_wf (set_node p n h)"
  "host_wf h \<Longrightarrow> host_wf (del_node p h)"
  "host_wf (next_tick h) = host_wf h"
  by (simp_all add: host_wf_def set_node_def del_node_def next_tick_def distinct_AList_update
      distinct_AList_delete)

lemma io_call_cases:
  obtains (fault) "fails h (tick h)" and "io_call h f = (Err IoOther, next_tick h)"
  | (run) "\<not> fails h (tick h)" and "io_call h f = f (next_tick h)"
  by (auto simp: io_call_def)

lemma io_call_snd:
  assumes "P (next_tick h)" and "\<And>h'. h' = next_tick h \<Longrightarrow> P (snd (f h'))"
  shows "P (snd (io_call h f))"
  using assms by (auto simp: io_call_def)

lemmas call_defs = open_new_def write_all_def sync_all_def create_trunc_def open_append_def
  rename_node_def io_call_def

text \<open>Calls that only read leave the whole tree as it is.\<close>

lemma tree_read_only [host_frame, simp]:
  "tree (snd (read_to_string root p h)) = tree h"
  "tree (snd (exists_path root p h)) = tree h"
  "tree (snd (file_names root h)) = tree h"
  "tree (snd (file_names_bounded root n h)) = tree h"
  "tree (snd (read_link root p h)) = tree h"
  "tree (snd (symlink_metadata root p h)) = tree h"
  "tree (snd (open_managed_dir root p h)) = tree h"
  "tree (snd (sync_all h)) = tree h"
  "tree (snd (read_take n b h)) = tree h"
  by (simp_all add: read_to_string_def exists_path_def file_names_def file_names_bounded_def
      read_link_def symlink_metadata_def open_managed_dir_def sync_all_def read_take_def io_call_def
      split: option.splits node.splits)

lemma tree_open_regular_read [host_frame, simp]: "tree (snd (open_regular_read root p h)) = tree h"
  unfolding open_regular_read_def
  by (rule try_io_keeps, simp)
     (auto intro!: try_io_keeps[where g = tree] simp: io_call_def split: option.splits node.splits)

lemma node_at_read_only [host_frame, simp]:
  "node_at (snd (read_to_string root p h)) = node_at h"
  "node_at (snd (exists_path root p h)) = node_at h"
  "node_at (snd (file_names root h)) = node_at h"
  "node_at (snd (file_names_bounded root n h)) = node_at h"
  "node_at (snd (read_link root p h)) = node_at h"
  "node_at (snd (symlink_metadata root p h)) = node_at h"
  "node_at (snd (open_managed_dir root p h)) = node_at h"
  "node_at (snd (open_regular_read root p h)) = node_at h"
  "node_at (snd (read_take n b h)) = node_at h"
  by (simp_all add: node_at_def fun_eq_iff)

text \<open>No call of the file API touches the lock table, the clock or the failure schedule.\<close>

lemma env_calls [host_frame, simp]:
  "env (snd (read_to_string root p h)) = env h"
  "env (snd (exists_path root p h)) = env h"
  "env (snd (file_names root h)) = env h"
  "env (snd (file_names_bounded root n h)) = env h"
  "env (snd (read_link root p h)) = env h"
  "env (snd (symlink_metadata root p h)) = env h"
  "env (snd (open_managed_dir root p h)) = env h"
  "env (snd (read_take n b h)) = env h"
  "env (snd (open_new q h)) = env h"
  "env (snd (write_all q old c h)) = env h"
  "env (snd (sync_all h)) = env h"
  "env (snd (create_trunc q h)) = env h"
  "env (snd (open_append q h)) = env h"
  "env (snd (rename_node q q' h)) = env h"
  "env (snd (create_dir root p h)) = env h"
  "env (snd (remove_file root p h)) = env h"
  "env (snd (symlink root p t h)) = env h"
  by (auto simp: read_to_string_def exists_path_def file_names_def file_names_bounded_def
      read_link_def symlink_metadata_def open_managed_dir_def read_take_def call_defs
      create_dir_def remove_file_def symlink_def
      split: option.splits node.splits)

lemma env_remove_dir_all [host_frame, simp]: "env (snd (remove_dir_all root p h)) = env h"
  by (simp add: remove_dir_all_def Let_def env_def next_tick_def del_node_def split: option.split node.split)

lemma env_make_dirs [host_frame, simp]: "env (snd (make_dirs base p h)) = env h"
  by (induction base p h rule: make_dirs.induct) (auto split: option.splits node.splits)

lemma env_composed [host_frame, simp]:
  "env (snd (create_dir_all root p h)) = env h"
  "env (snd (create_new root p c h)) = env h"
  "env (snd (append_file root p c h)) = env h"
  "env (snd (write_atomic root p c h)) = env h"
  "env (snd (rename root p q h)) = env h"
  "env (snd (open_or_create_file root p h)) = env h"
  by (auto simp: create_dir_all_def io_call_def create_new_def append_file_def write_atomic_def
      rename_def open_or_create_file_def intro!: try_io_keeps[where g = env] split: sum.splits)

lemma env_open_regular_read [host_frame, simp]: "env (snd (open_regular_read root p h)) = env h"
  unfolding open_regular_read_def
  by (rule try_io_keeps, simp)
     (auto intro!: try_io_keeps[where g = env] simp: io_call_def split: option.splits node.splits)

section \<open>What the writing calls do to the tree\<close>

text \<open>The contents of the file at \<open>p\<close> below a root; \<open>None\<close> when there is no regular file.\<close>

definition file_at :: "ManagedRoot \<Rightarrow> host \<Rightarrow> path \<Rightarrow> bytes option" where
  "file_at root h p = (case node_at h (root @ p) of Some (File b) \<Rightarrow> Some b | _ \<Rightarrow> None)"

lemma file_at_cong: "node_at h = node_at h' \<Longrightarrow> file_at root h = file_at root h'"
  by (simp add: file_at_def fun_eq_iff)

lemma make_dirs_node: "node_at (snd (make_dirs base p h)) q = node_at h q
    \<or> node_at h q = None \<and> node_at (snd (make_dirs base p h)) q = Some Dir"
  by (induction base p h rule: make_dirs.induct) (auto split: option.splits node.splits if_splits)

lemma make_dirs_frame:
  "(\<And>xs ys. p = xs @ ys \<Longrightarrow> xs \<noteq> [] \<Longrightarrow> q \<noteq> base @ xs) \<Longrightarrow>
     node_at (snd (make_dirs base p h)) q = node_at h q"
proof (induction base p h rule: make_dirs.induct)
  case (2 base x xs h)
  have "q \<noteq> base @ [x]" using 2(3)[of "[x]" xs] by simp
  moreover have rec: "q \<noteq> (base @ [x]) @ ys" if "xs = ys @ zs" "ys \<noteq> []" for ys zs
    using 2(3)[of "x # ys" zs] that by simp
  ultimately show ?case using 2(1,2) rec by (simp split: option.splits node.splits)
qed simp

lemma make_dirs_Ok:
  "make_dirs base p h = (Ok (), h') \<Longrightarrow> p \<noteq> [] \<Longrightarrow> node_at h' (base @ p) = Some Dir"
proof (induction base p h rule: make_dirs.induct)
  case (2 base x xs h)
  show ?case
  proof (cases "xs = []")
    case True
    with 2(3) show ?thesis by (auto split: option.splits node.splits)
  next
    case False
    with 2 show ?thesis by (auto split: option.splits node.splits)
  qed
qed simp

lemma file_at_create_dir_all [host_frame, simp]: "file_at r (snd (create_dir_all root p h)) = file_at r h"
proof
  fix q
  have "node_at (snd (create_dir_all root p h)) (r @ q) = node_at h (r @ q)
      \<or> node_at h (r @ q) = None \<and> node_at (snd (create_dir_all root p h)) (r @ q) = Some Dir"
    using make_dirs_node[of root p "next_tick h" "r @ q"] make_dirs_node[of root "take (torn h (tick h)) p" "next_tick h" "r @ q"]
    by (auto simp: create_dir_all_def)
  then show "file_at r (snd (create_dir_all root p h)) q = file_at r h q" by (auto simp: file_at_def)
qed

lemma create_dir_all_keeps: "node_at h q = Some n \<Longrightarrow> node_at (snd (create_dir_all root p h)) q = Some n"
  using make_dirs_node[of root p "next_tick h" q] make_dirs_node[of root "take (torn h (tick h)) p" "next_tick h" q]
  by (auto simp: create_dir_all_def)

lemma create_dir_all_frame:
  assumes "\<And>xs ys. p = xs @ ys \<Longrightarrow> xs \<noteq> [] \<Longrightarrow> q \<noteq> root @ xs"
  shows "node_at (snd (create_dir_all root p h)) q = node_at h q"
proof -
  have "q \<noteq> root @ xs" if "take n p = xs @ ys" "xs \<noteq> []" for n xs ys
    using assms[of xs "ys @ drop n p"] that append_take_drop_id[of n p] by simp
  then show ?thesis
    using make_dirs_frame[of p q root "next_tick h"] make_dirs_frame[of "take (torn h (tick h)) p" q root "next_tick h"] assms
    by (simp add: create_dir_all_def)
qed

lemma create_dir_all_Ok: "create_dir_all root p h = (Ok (), h') \<Longrightarrow> p \<noteq> [] \<Longrightarrow> node_at h' (root @ p) = Some Dir"
  by (auto simp: create_dir_all_def make_dirs_Ok split: if_splits)

lemma create_new_result:
  "create_new root p c h =
     (if fails h (tick h) then (Err IoOther, next_tick h)
      else if \<not> parent_ok h (root @ p) then (Err (parent_error h (root @ p)), next_tick h)
      else if node_at h (root @ p) \<noteq> None then (Err IoAlreadyExists, next_tick h)
      else write_all (root @ p) [] c (set_node (root @ p) (File []) (next_tick h)))"
  by (simp add: create_new_def open_new_def io_call_def)

lemma create_new_Ok:
  assumes "create_new root p c h = (Ok (), h')"
  shows "node_at h (root @ p) = None" and "node_at h' = (node_at h)(root @ p \<mapsto> File c)"
  using assms by (auto simp: create_new_result write_all_def split: if_splits)

lemma create_new_AlreadyExists:
  assumes "create_new root p c h = (Err IoAlreadyExists, h')"
  shows "node_at h (root @ p) \<noteq> None" and "node_at h' = node_at h"
  using assms by (auto simp: create_new_result write_all_def split: if_splits)

lemma create_new_frame: "q \<noteq> root @ p \<Longrightarrow> node_at (snd (create_new root p c h)) q = node_at h q"
  by (simp add: create_new_result write_all_def)

text \<open>Whatever happens, an existing entry is not touched.\<close>

lemma create_new_keeps: "node_at h (root @ p) = Some n \<Longrightarrow> node_at (snd (create_new root p c h)) = node_at h"
  by (simp add: create_new_result)

lemma write_atomic_frame:
  assumes "p \<noteq> []" and "q \<noteq> root @ p" and "q \<noteq> root @ butlast p @ [last p @ ''.tmp'']"
  shows "node_at (snd (write_atomic root p c h)) q = node_at h q"
  using assms
  by (simp add: write_atomic_def temp_sibling_path_def create_trunc_def write_all_def sync_all_def
      rename_node_def io_call_def split: option.splits node.splits)

lemma write_atomic_result:
  assumes "p \<noteq> []"
  shows "node_at (snd (write_atomic root p c h)) (root @ p) \<in> {node_at h (root @ p), Some (File c)}"
    and "fst (write_atomic root p c h) = Ok () \<Longrightarrow>
      node_at (snd (write_atomic root p c h)) (root @ p) = Some (File c)"
proof -
  have "butlast p @ [last p @ ''.tmp''] \<noteq> p"
    using assms by (metis append_butlast_last_id append_self_conv last_snoc list.discI)
  then have ne: "root @ butlast p @ [last p @ ''.tmp''] \<noteq> root @ p" by simp
  show "node_at (snd (write_atomic root p c h)) (root @ p) \<in> {node_at h (root @ p), Some (File c)}"
    using assms ne
    by (simp add: write_atomic_def temp_sibling_path_def create_trunc_def write_all_def sync_all_def
        rename_node_def io_call_def split: option.splits node.splits)
  show "fst (write_atomic root p c h) = Ok () \<Longrightarrow>
      node_at (snd (write_atomic root p c h)) (root @ p) = Some (File c)"
    using assms ne
    by (simp add: write_atomic_def temp_sibling_path_def create_trunc_def write_all_def sync_all_def
        rename_node_def io_call_def split: option.splits node.splits if_splits)
qed

lemma remove_file_frame: "q \<noteq> root @ p \<Longrightarrow> node_at (snd (remove_file root p h)) q = node_at h q"
  by (simp add: remove_file_def io_call_def split: option.splits node.splits)

lemma remove_file_Ok:
  assumes "remove_file root p h = (Ok (), h')"
  shows "node_at h' = (node_at h)(root @ p := None)"
  using assms by (auto simp: remove_file_def io_call_def split: option.splits node.splits if_splits)

lemma remove_file_shrinks: "node_at (snd (remove_file root p h)) (root @ p) \<in> {node_at h (root @ p), None}"
  by (simp add: remove_file_def io_call_def split: option.splits node.splits)

lemma append_file_frame: "q \<noteq> root @ p \<Longrightarrow> node_at (snd (append_file root p c h)) q = node_at h q"
  by (simp add: append_file_def open_append_def write_all_def sync_all_def io_call_def
      split: option.splits node.splits)

text \<open>Appending never loses what the file held.\<close>

lemma append_file_extends:
  assumes "node_at h (root @ p) = Some (File b)"
  shows "\<exists>k. node_at (snd (append_file root p c h)) (root @ p) = Some (File (b @ take k c))"
proof -
  have "\<exists>k. c = take k c" and "\<exists>k. b = b @ take k c"
    by (metis order_refl take_all) (metis append_Nil2 take_0)
  with assms show ?thesis
    by (auto simp: append_file_def open_append_def write_all_def sync_all_def io_call_def)
qed

lemma append_file_Ok:
  assumes "append_file root p c h = (Ok (), h')"
  shows "node_at h' (root @ p) = Some (File ((case file_at root h p of None \<Rightarrow> [] | Some b \<Rightarrow> b) @ c))"
  using assms
  by (auto simp: append_file_def open_append_def write_all_def sync_all_def io_call_def file_at_def
      split: option.splits node.splits if_splits)

section \<open>Well-formedness\<close>

lemma wf_tree: "tree h' = tree h \<Longrightarrow> host_wf h' = host_wf h"
  by (simp add: host_wf_def)

lemma wf_make_dirs: "host_wf h \<Longrightarrow> host_wf (snd (make_dirs base p h))"
  by (induction base p h rule: make_dirs.induct) (auto split: option.splits node.splits)

lemma wf_calls [simp]:
  assumes "host_wf h"
  shows "host_wf (snd (create_new root p c h))" "host_wf (snd (append_file root p c h))"
    "host_wf (snd (write_atomic root p c h))" "host_wf (snd (remove_file root p h))"
    "host_wf (snd (create_dir root p h))" "host_wf (snd (create_dir_all root p h))"
    "host_wf (snd (symlink root p t h))" "host_wf (snd (rename root p q h))"
    "host_wf (snd (remove_dir_all root p h))" "host_wf (snd (open_or_create_file root p h))"
  using assms
  by (auto simp: create_new_def append_file_def write_atomic_def temp_sibling_path_def call_defs
      remove_file_def create_dir_def create_dir_all_def symlink_def rename_def remove_dir_all_def
      open_or_create_file_def Let_def wf_make_dirs split: option.splits node.splits)
     (auto simp: host_wf_def distinct_map_fst_filter)

section \<open>Managed roots as document stores\<close>

text \<open>
  What the transaction components rely on when they keep one record per file: a read returns the
  current contents, \<open>create\<close> never replaces a document, and \<open>replace\<close> is atomic, so that a reader
  sees the old or the new contents whatever happens in between. \<open>scratch p\<close> is the temporary
  sibling a replacement goes through.
\<close>

locale document_store =
  fixes get :: "'w \<Rightarrow> 'p \<Rightarrow> bytes option"
    and create :: "'p \<Rightarrow> bytes \<Rightarrow> 'w \<Rightarrow> (io_error + unit) \<times> 'w"
    and replace :: "'p \<Rightarrow> bytes \<Rightarrow> 'w \<Rightarrow> (io_error + unit) \<times> 'w"
    and fetch :: "'p \<Rightarrow> 'w \<Rightarrow> (io_error + bytes) \<times> 'w"
    and scratch :: "'p \<Rightarrow> 'p"
    and path_ok :: "'p \<Rightarrow> bool"
  assumes fetch_ok: "fetch p w = (Ok b, w') \<Longrightarrow> get w p = Some b"
    and fetch_missing: "fetch p w = (Err IoNotFound, w') \<Longrightarrow> get w p = None"
    and fetch_same: "get (snd (fetch p w)) = get w"
    and create_ok: "create p b w = (Ok (), w') \<Longrightarrow> get w p = None \<and> get w' = (get w)(p \<mapsto> b)"
    and create_keeps: "get w p = Some c \<Longrightarrow> get (snd (create p b w)) = get w"
    and create_frame: "q \<noteq> p \<Longrightarrow> get (snd (create p b w)) q = get w q"
    and replace_ok: "path_ok p \<Longrightarrow> replace p b w = (Ok (), w') \<Longrightarrow> get w' p = Some b"
    and replace_atomic: "path_ok p \<Longrightarrow> get (snd (replace p b w)) p \<in> {get w p, Some b}"
    and replace_frame: "path_ok p \<Longrightarrow> q \<noteq> p \<Longrightarrow> q \<noteq> scratch p \<Longrightarrow>
      get (snd (replace p b w)) q = get w q"
begin

lemma fetch_created:
  "create p b w = (Ok (), w1) \<Longrightarrow> fetch p w1 = (Ok c, w2) \<Longrightarrow> c = b"
  using create_ok[of p b w w1] fetch_ok[of p w1 c w2] by simp

lemma fetch_replaced:
  "path_ok p \<Longrightarrow> replace p b w = (Ok (), w1) \<Longrightarrow> fetch p w1 = (Ok c, w2) \<Longrightarrow> c = b"
  using replace_ok[of p b w w1] fetch_ok[of p w1 c w2] by simp

lemma fetch_after_attempted_replace:
  "path_ok p \<Longrightarrow> fetch p (snd (replace p b w)) = (Ok c, w2) \<Longrightarrow> c = b \<or> get w p = Some c"
  using replace_atomic[of p b w] fetch_ok[of p "snd (replace p b w)" c w2] by auto

lemma create_never_overwrites:
  "get w p = Some c \<Longrightarrow> fetch p (snd (create p b w)) = (Ok d, w2) \<Longrightarrow> d = c"
  using create_keeps[of w p c b] fetch_ok[of p "snd (create p b w)" d w2] by simp

lemma create_rejects: "get w p = Some c \<Longrightarrow> fst (create p b w) \<noteq> Ok ()"
  using create_ok[of p b w "snd (create p b w)"] by (cases "create p b w") auto

end

interpretation managed: document_store "file_at root" "create_new root" "write_atomic root"
  "read_to_string root" "\<lambda>p. butlast p @ [last p @ ''.tmp'']" "\<lambda>p. p \<noteq> []" for root
proof unfold_locales
  show "read_to_string root p w = (Ok b, w') \<Longrightarrow> file_at root w p = Some b" for p w b w'
    by (auto simp: read_to_string_def io_call_def file_at_def split: option.splits node.splits if_splits)
  show "read_to_string root p w = (Err IoNotFound, w') \<Longrightarrow> file_at root w p = None" for p w w'
    by (auto simp: read_to_string_def io_call_def file_at_def split: option.splits node.splits if_splits)
  show "file_at root (snd (read_to_string root p w)) = file_at root w" for p w
    by (rule file_at_cong) simp
  show "create_new root p b w = (Ok (), w') \<Longrightarrow>
      file_at root w p = None \<and> file_at root w' = (file_at root w)(p \<mapsto> b)" for p b w w'
    by (auto simp: file_at_def fun_eq_iff dest: create_new_Ok)
  show "file_at root w p = Some c \<Longrightarrow> file_at root (snd (create_new root p b w)) = file_at root w" for p b c w
    by (rule file_at_cong) (auto simp: file_at_def create_new_keeps split: option.splits node.splits)
  show "q \<noteq> p \<Longrightarrow> file_at root (snd (create_new root p b w)) q = file_at root w q" for p q b w
    by (simp add: file_at_def create_new_frame)
  show "p \<noteq> [] \<Longrightarrow> write_atomic root p b w = (Ok (), w') \<Longrightarrow> file_at root w' p = Some b" for p b w w'
    using write_atomic_result(2)[of p root b w] by (simp add: file_at_def)
  show "p \<noteq> [] \<Longrightarrow> file_at root (snd (write_atomic root p b w)) p \<in> {file_at root w p, Some b}" for p b w
    using write_atomic_result(1)[of p root b w] by (auto simp: file_at_def)
  show "p \<noteq> [] \<Longrightarrow> q \<noteq> p \<Longrightarrow> q \<noteq> butlast p @ [last p @ ''.tmp''] \<Longrightarrow>
      file_at root (snd (write_atomic root p b w)) q = file_at root w q" for p q b w
    by (simp add: file_at_def write_atomic_frame)
qed

text \<open>The three ways \<open>create_new\<close> ends, seen through the files below the root.\<close>

lemma create_new_cases:
  obtains (created) h' where "create_new root p b h = (Ok (), h')" "file_at root h p = None"
      "file_at root h' = (file_at root h)(p \<mapsto> b)"
  | (exists) h' where "create_new root p b h = (Err IoAlreadyExists, h')" "node_at h' = node_at h"
  | (fault) e h' where "create_new root p b h = (Err e, h')" "e \<noteq> IoAlreadyExists"
      "\<And>q. q \<noteq> p \<Longrightarrow> file_at root h' q = file_at root h q"
      "file_at root h p \<noteq> None \<Longrightarrow> file_at root h' = file_at root h"
proof (cases "create_new root p b h")
  case (Pair r h')
  then have frame: "\<And>q. q \<noteq> p \<Longrightarrow> file_at root h' q = file_at root h q"
    and keeps: "file_at root h p \<noteq> None \<Longrightarrow> file_at root h' = file_at root h"
    using managed.create_frame[of _ p root b h] managed.create_keeps[of root h p _ b] by auto
  show ?thesis
  proof (cases r)
    case (Inl e)
    show ?thesis
    proof (cases "e = IoAlreadyExists")
      case True
      with Pair Inl exists create_new_AlreadyExists(2) show ?thesis by blast
    next
      case False
      with Pair Inl fault frame keeps show ?thesis by blast
    qed
  next
    case (Inr u)
    with Pair created managed.create_ok[of root p b h h'] show ?thesis by simp
  qed
qed

end
