(* ===== verification/Json.thy ===== *)
theory Json
  imports Prelude
begin

text \<open>
  The durable records of the engine are JSON documents. Which object a record becomes is fixed
  by the \<open>serde\<close> attributes in the source (\<open>rename_all\<close>, \<open>default\<close>, \<open>deny_unknown_fields\<close>), so
  each record's conversion to and from a JSON value is a definition of its own theory, built from
  the field accessors below. How a JSON value becomes bytes and is parsed back is the job of the
  \<open>serde_json\<close> crate: that pair of functions is a parameter (\<open>json_text\<close>) of every definition
  that reads or writes a record, and \<open>json_text_ok\<close> is the documented fact the engine relies on,
  that parsing what was written yields the same value and that the text is UTF-8.
\<close>

section \<open>JSON values\<close>

text \<open>\<open>serde_json::Value\<close>; an object keeps its members in the order of the text, repeated
  keys included, as the struct deserializers see them. The engine's numbers are integers.\<close>

datatype json =
    JNull
  | JBool bool
  | JNum int
  | JStr string
  | JArr "json list"
  | JObj "(string \<times> json) list"

section \<open>The text format: a parameter\<close>

record json_text =
  to_text :: "json \<Rightarrow> bytes option"
  of_text :: "bytes \<Rightarrow> json option"

definition json_text_ok :: "json_text \<Rightarrow> bool" where
  "json_text_ok J \<longleftrightarrow>
     (\<forall>v b. to_text J v = Some b \<longrightarrow> of_text J b = Some v \<and> utf8_ok b)"

text \<open>\<open>serde_json::to_vec\<close> and \<open>serde_json::from_slice\<close> at a record type.\<close>

definition to_vec :: "json_text \<Rightarrow> ('a \<Rightarrow> json) \<Rightarrow> 'a \<Rightarrow> bytes option" where
  "to_vec J to_json x = to_text J (to_json x)"

definition from_slice :: "json_text \<Rightarrow> (json \<Rightarrow> 'a option) \<Rightarrow> bytes \<Rightarrow> 'a option" where
  "from_slice J of_json b = Option.bind (of_text J b) of_json"

section \<open>Struct fields as the derived deserializers read them\<close>

datatype field = Missing | Duplicate | Present json

definition field_of :: "string \<Rightarrow> (string \<times> json) list \<Rightarrow> field" where
  "field_of k kvs =
     (case filter (\<lambda>kv. fst kv = k) kvs of [] \<Rightarrow> Missing | [kv] \<Rightarrow> Present (snd kv) | _ \<Rightarrow> Duplicate)"

text \<open>A required field, an \<open>Option\<close> field (absent and \<open>null\<close> both read as \<open>None\<close>), and a field
  with \<open>#[serde(default)]\<close>.\<close>

definition req :: "(json \<Rightarrow> 'a option) \<Rightarrow> field \<Rightarrow> 'a option" where
  "req d f = (case f of Present v \<Rightarrow> d v | _ \<Rightarrow> None)"

definition opt :: "(json \<Rightarrow> 'a option) \<Rightarrow> field \<Rightarrow> 'a option option" where
  "opt d f = (case f of Missing \<Rightarrow> Some None | Duplicate \<Rightarrow> None
     | Present v \<Rightarrow> (if v = JNull then Some None else map_option Some (d v)))"

definition dflt :: "'a \<Rightarrow> (json \<Rightarrow> 'a option) \<Rightarrow> field \<Rightarrow> 'a option" where
  "dflt x d f = (case f of Missing \<Rightarrow> Some x | Duplicate \<Rightarrow> None | Present v \<Rightarrow> d v)"

text \<open>Serializing an \<open>Option\<close>.\<close>

definition opt_json :: "('a \<Rightarrow> json) \<Rightarrow> 'a option \<Rightarrow> json" where
  "opt_json e x = (case x of None \<Rightarrow> JNull | Some y \<Rightarrow> e y)"

text \<open>\<open>#[serde(deny_unknown_fields)]\<close>.\<close>

definition only_fields :: "string list \<Rightarrow> (string \<times> json) list \<Rightarrow> bool" where
  "only_fields ks kvs = list_all (\<lambda>kv. fst kv \<in> set ks) kvs"

section \<open>Scalars\<close>

fun as_obj :: "json \<Rightarrow> (string \<times> json) list option" where
  "as_obj (JObj kvs) = Some kvs"
| "as_obj _ = None"

fun as_str :: "json \<Rightarrow> string option" where
  "as_str (JStr s) = Some s"
| "as_str _ = None"

fun as_bool :: "json \<Rightarrow> bool option" where
  "as_bool (JBool b) = Some b"
| "as_bool _ = None"

definition json_u32 :: "u32 \<Rightarrow> json" where "json_u32 w = JNum (uint w)"
definition json_u64 :: "u64 \<Rightarrow> json" where "json_u64 w = JNum (uint w)"

fun as_u32 :: "json \<Rightarrow> u32 option" where
  "as_u32 (JNum n) = (if 0 \<le> n \<and> n < 2 ^ 32 then Some (word_of_int n) else None)"
| "as_u32 _ = None"

fun as_u64 :: "json \<Rightarrow> u64 option" where
  "as_u64 (JNum n) = (if 0 \<le> n \<and> n < 2 ^ 64 then Some (word_of_int n) else None)"
| "as_u64 _ = None"

lemma as_u32_json [simp]: "as_u32 (json_u32 w) = Some w"
proof -
  have "uint w < 2 ^ 32" using uint_bounded[of w] by simp
  then show ?thesis by (simp add: json_u32_def)
qed

lemma as_u64_json [simp]: "as_u64 (json_u64 w) = Some w"
proof -
  have "uint w < 2 ^ 64" using uint_bounded[of w] by simp
  then show ?thesis by (simp add: json_u64_def)
qed

lemma json_num_neq_null [simp]: "json_u32 v \<noteq> JNull" "json_u64 w \<noteq> JNull"
  by (simp_all add: json_u32_def json_u64_def)

lemma req_Present [simp]: "req d (Present v) = d v"
  by (simp add: req_def)

lemma req_SomeD: "req d f = Some x \<Longrightarrow> \<exists>v. f = Present v \<and> d v = Some x"
  by (cases f) (simp_all add: req_def)

lemma opt_Present_opt_json:
  "(\<And>y. x = Some y \<Longrightarrow> e y \<noteq> JNull \<and> d (e y) = Some y) \<Longrightarrow> opt d (Present (opt_json e x)) = Some x"
  by (cases x) (auto simp: opt_def opt_json_def)

lemma dflt_Present [simp]: "dflt x d (Present v) = d v"
  by (simp add: dflt_def)

section \<open>Records with a JSON form\<close>

text \<open>
  The contract of a persisted record type: its values come back from their own JSON form. Every
  persisted record of the engine interprets it; with the text format of \<open>json_text\<close> it gives the
  byte-level round trip once for all of them. \<open>valid\<close> is \<open>True\<close> except where the JSON form of the
  source loses something.
\<close>

locale json_record =
  fixes to_json :: "'a \<Rightarrow> json"
    and of_json :: "json \<Rightarrow> 'a option"
    and valid :: "'a \<Rightarrow> bool"
  assumes of_to: "valid x \<Longrightarrow> of_json (to_json x) = Some x"
begin

lemma text_round_trip:
  assumes "json_text_ok J" and "valid x" and "to_vec J to_json x = Some b"
  shows "from_slice J of_json b = Some x" and "utf8_ok b"
  using assms by (auto simp: json_text_ok_def to_vec_def from_slice_def of_to)

lemma to_json_inj: "valid x \<Longrightarrow> valid y \<Longrightarrow> to_json x = to_json y \<Longrightarrow> x = y"
  by (metis of_to option.inject)

lemma bytes_determine_record:
  assumes "json_text_ok J" and "valid x" and "valid y"
    and "to_vec J to_json x = Some b" and "to_vec J to_json y = Some b"
  shows "x = y"
  using text_round_trip(1)[OF assms(1,2,4)] text_round_trip(1)[OF assms(1,3,5)] by simp

end

section \<open>A concrete text format\<close>

text \<open>
  A format that can write the values of a given table, one distinct ASCII text for each. It shows
  that \<open>json_text_ok\<close> can hold and lets closed examples run.
\<close>

fun table_index :: "json list \<Rightarrow> json \<Rightarrow> nat option" where
  "table_index [] v = None"
| "table_index (x # xs) v = (if x = v then Some 0 else map_option Suc (table_index xs v))"

definition table_text :: "json list \<Rightarrow> json_text" where
  "table_text xs =
     \<lparr> to_text = (\<lambda>v. map_option (\<lambda>i. replicate i CHR ''a'') (table_index xs v)),
       of_text = (\<lambda>b. if b = replicate (length b) CHR ''a'' \<and> length b < length xs
                      then Some (xs ! length b) else None) \<rparr>"

lemma table_index_SomeD: "table_index xs v = Some i \<Longrightarrow> i < length xs \<and> xs ! i = v"
  by (induction xs arbitrary: i) (auto split: if_splits)

lemma table_text_ok [simp]: "json_text_ok (table_text xs)"
  by (auto simp: json_text_ok_def table_text_def ascii_defs dest: table_index_SomeD
      intro!: utf8_ok_ascii)

end
