(* ===== verification/Protocol.thy ===== *)
theory Protocol
  imports Json
begin

text \<open>
  The protocol envelope: stable error and warning codes (\<open>src/src/error.rs\<close>), the response
  (\<open>src/src/protocol/mod.rs\<close>) and the one-time secret results (\<open>src/src/secret_result.rs\<close>).

  \<open>serde_json::to_value\<close> of a result type is represented by its outcome: \<open>None\<close> when the value's
  own serializer fails, else the JSON value.
\<close>

section \<open>Codes\<close>

datatype ErrorCode =
    Internal
  | InternalSerializationError
  | InvalidInput
  | NotFound
  | UnsupportedPlatform
  | DependencyUnavailable
  | Conflict
  | Timeout
  | Cancelled
  | SubprocessFailed
  | ArtifactFetchFailed
  | ArtifactVerificationFailed
  | ArtifactNotRunnable
  | ConfigHashMismatch
  | ConfigValidationFailed
  | ConfigReloadFailed
  | ConfigRecoveryFailed
  | DatabaseRecoveryRequired
  | RollbackIncomplete
  | IngressNotParked
  | PermissionDenied

fun ErrorCode_as_str :: "ErrorCode \<Rightarrow> string" where
  "ErrorCode_as_str Internal = ''INTERNAL''"
| "ErrorCode_as_str InternalSerializationError = ''INTERNAL_SERIALIZATION_ERROR''"
| "ErrorCode_as_str InvalidInput = ''INVALID_INPUT''"
| "ErrorCode_as_str NotFound = ''NOT_FOUND''"
| "ErrorCode_as_str UnsupportedPlatform = ''UNSUPPORTED_PLATFORM''"
| "ErrorCode_as_str DependencyUnavailable = ''DEPENDENCY_UNAVAILABLE''"
| "ErrorCode_as_str Conflict = ''CONFLICT''"
| "ErrorCode_as_str Timeout = ''TIMEOUT''"
| "ErrorCode_as_str Cancelled = ''CANCELLED''"
| "ErrorCode_as_str SubprocessFailed = ''SUBPROCESS_FAILED''"
| "ErrorCode_as_str ArtifactFetchFailed = ''ARTIFACT_FETCH_FAILED''"
| "ErrorCode_as_str ArtifactVerificationFailed = ''ARTIFACT_VERIFICATION_FAILED''"
| "ErrorCode_as_str ArtifactNotRunnable = ''ARTIFACT_NOT_RUNNABLE''"
| "ErrorCode_as_str ConfigHashMismatch = ''CONFIG_HASH_MISMATCH''"
| "ErrorCode_as_str ConfigValidationFailed = ''CONFIG_VALIDATION_FAILED''"
| "ErrorCode_as_str ConfigReloadFailed = ''CONFIG_RELOAD_FAILED''"
| "ErrorCode_as_str ConfigRecoveryFailed = ''CONFIG_RECOVERY_FAILED''"
| "ErrorCode_as_str DatabaseRecoveryRequired = ''DATABASE_RECOVERY_REQUIRED''"
| "ErrorCode_as_str RollbackIncomplete = ''ROLLBACK_INCOMPLETE''"
| "ErrorCode_as_str IngressNotParked = ''INGRESS_NOT_PARKED''"
| "ErrorCode_as_str PermissionDenied = ''PERMISSION_DENIED''"

text \<open>
  The wire name is derived from the variant's own name by \<open>rename_all = "SCREAMING_SNAKE_CASE"\<close>:
  an underscore before every capital but the first, and all letters capital.
\<close>

fun variant_name :: "ErrorCode \<Rightarrow> string" where
  "variant_name Internal = ''Internal''"
| "variant_name InternalSerializationError = ''InternalSerializationError''"
| "variant_name InvalidInput = ''InvalidInput''"
| "variant_name NotFound = ''NotFound''"
| "variant_name UnsupportedPlatform = ''UnsupportedPlatform''"
| "variant_name DependencyUnavailable = ''DependencyUnavailable''"
| "variant_name Conflict = ''Conflict''"
| "variant_name Timeout = ''Timeout''"
| "variant_name Cancelled = ''Cancelled''"
| "variant_name SubprocessFailed = ''SubprocessFailed''"
| "variant_name ArtifactFetchFailed = ''ArtifactFetchFailed''"
| "variant_name ArtifactVerificationFailed = ''ArtifactVerificationFailed''"
| "variant_name ArtifactNotRunnable = ''ArtifactNotRunnable''"
| "variant_name ConfigHashMismatch = ''ConfigHashMismatch''"
| "variant_name ConfigValidationFailed = ''ConfigValidationFailed''"
| "variant_name ConfigReloadFailed = ''ConfigReloadFailed''"
| "variant_name ConfigRecoveryFailed = ''ConfigRecoveryFailed''"
| "variant_name DatabaseRecoveryRequired = ''DatabaseRecoveryRequired''"
| "variant_name RollbackIncomplete = ''RollbackIncomplete''"
| "variant_name IngressNotParked = ''IngressNotParked''"
| "variant_name PermissionDenied = ''PermissionDenied''"

text \<open>Clearing bit 5 of a lowercase letter gives the capital.\<close>

definition to_ascii_uppercase :: "char \<Rightarrow> char" where
  "to_ascii_uppercase c = (if is_ascii_lowercase c
     then (case c of Char b0 b1 b2 b3 b4 _ b6 b7 \<Rightarrow> Char b0 b1 b2 b3 b4 False b6 b7) else c)"

definition screaming_snake :: "string \<Rightarrow> string" where
  "screaming_snake s = (case s of [] \<Rightarrow> [] | c # cs \<Rightarrow>
     to_ascii_uppercase c # concat (map (\<lambda>d.
       if is_ascii_uppercase d then [CHR ''_'', d] else [to_ascii_uppercase d]) cs))"

definition ErrorCode_json :: "ErrorCode \<Rightarrow> json" where
  "ErrorCode_json c = JStr (screaming_snake (variant_name c))"

definition all_error_codes :: "ErrorCode list" where
  "all_error_codes = [Internal, InternalSerializationError, InvalidInput, NotFound,
     UnsupportedPlatform, DependencyUnavailable, Conflict, Timeout, Cancelled, SubprocessFailed,
     ArtifactFetchFailed, ArtifactVerificationFailed, ArtifactNotRunnable, ConfigHashMismatch,
     ConfigValidationFailed, ConfigReloadFailed, ConfigRecoveryFailed, DatabaseRecoveryRequired,
     RollbackIncomplete, IngressNotParked, PermissionDenied]"

definition ErrorCode_of_json :: "json \<Rightarrow> ErrorCode option" where
  "ErrorCode_of_json v = find (\<lambda>c. ErrorCode_json c = v) all_error_codes"

datatype WarningCode =
    W_UnsupportedPlatform
  | W_DependencyUnavailable
  | TransactionRecordIncomplete
  | InstallStateRecordIncomplete
  | SecretResultAlreadyIssued

section \<open>Responses\<close>

record ProtocolError =
  pe_code :: ErrorCode
  pe_message :: string
  pe_details :: "json option"

type_synonym Warning = "WarningCode \<times> string"

record Response =
  protocol_version :: u32
  rsp_operation :: string
  rsp_ok :: bool
  rsp_result :: "json option"
  secret_result :: bool
  warnings :: "Warning list"
  rsp_error :: "ProtocolError option"

definition PROTOCOL_VERSION :: u32 where "PROTOCOL_VERSION = 1"

datatype ResponseBuildError = ResponseBuildError

definition Response_success :: "string \<Rightarrow> json option \<Rightarrow> ResponseBuildError + Response" where
  "Response_success operation result =
     (case result of
        None \<Rightarrow> Err ResponseBuildError
      | Some v \<Rightarrow> Ok \<lparr> protocol_version = PROTOCOL_VERSION, rsp_operation = operation, rsp_ok = True,
          rsp_result = Some v, secret_result = False, warnings = [], rsp_error = None \<rparr>)"

definition Response_failure :: "string \<Rightarrow> ErrorCode \<Rightarrow> string \<Rightarrow> Response" where
  "Response_failure operation code message =
     \<lparr> protocol_version = PROTOCOL_VERSION, rsp_operation = operation, rsp_ok = False,
       rsp_result = None, secret_result = False, warnings = [],
       rsp_error = Some \<lparr> pe_code = code, pe_message = message, pe_details = None \<rparr> \<rparr>"

definition with_warnings :: "Response \<Rightarrow> Warning list \<Rightarrow> Response" where
  "with_warnings r ws = r\<lparr>warnings := ws\<rparr>"

text \<open>The envelope on the wire: \<open>secretResult\<close> is left out when it is false.\<close>

definition WarningCode_json :: "WarningCode \<Rightarrow> json" where
  "WarningCode_json c = JStr (case c of
     W_UnsupportedPlatform \<Rightarrow> ''UNSUPPORTED_PLATFORM''
   | W_DependencyUnavailable \<Rightarrow> ''DEPENDENCY_UNAVAILABLE''
   | TransactionRecordIncomplete \<Rightarrow> ''TRANSACTION_RECORD_INCOMPLETE''
   | InstallStateRecordIncomplete \<Rightarrow> ''INSTALL_STATE_RECORD_INCOMPLETE''
   | SecretResultAlreadyIssued \<Rightarrow> ''SECRET_RESULT_ALREADY_ISSUED'')"

definition ProtocolError_json :: "ProtocolError \<Rightarrow> json" where
  "ProtocolError_json e = JObj [(''code'', ErrorCode_json (pe_code e)), (''message'', JStr (pe_message e)),
     (''details'', opt_json id (pe_details e))]"

definition Response_json :: "Response \<Rightarrow> json" where
  "Response_json r = JObj
     ([(''protocolVersion'', json_u32 (protocol_version r)), (''operation'', JStr (rsp_operation r)),
       (''ok'', JBool (rsp_ok r)), (''result'', opt_json id (rsp_result r))]
      @ (if secret_result r then [(''secretResult'', JBool True)] else [])
      @ [(''warnings'', JArr (map (\<lambda>(c, m). JObj [(''code'', WarningCode_json c), (''message'', JStr m)])
                                 (warnings r))),
         (''error'', opt_json ProtocolError_json (rsp_error r))])"

text \<open>What \<open>Debug\<close> prints of a response: the result is withheld when it carries a secret.\<close>

datatype debug_result = Redacted | Shown "json option"

definition Response_debug ::
  "Response \<Rightarrow> u32 \<times> string \<times> bool \<times> debug_result \<times> bool \<times> Warning list \<times> ProtocolError option" where
  "Response_debug r = (protocol_version r, rsp_operation r, rsp_ok r,
     (if secret_result r then Redacted else Shown (rsp_result r)),
     secret_result r, warnings r, rsp_error r)"

section \<open>One-time secrets\<close>

text \<open>A \<open>SecretResult\<close> by the JSON values its two parts serialize to.\<close>

record SecretResult =
  sr_public :: "json option"
  sr_secret :: "json option"

definition public_value :: "SecretResult \<Rightarrow> ResponseBuildError + json" where
  "public_value s = (case sr_public s of None \<Rightarrow> Err ResponseBuildError | Some v \<Rightarrow> Ok v)"

text \<open>\<open>serde_json::Map::insert\<close> in a loop that stops at the first key already present.\<close>

fun merge_disjoint :: "(string \<times> json) list \<Rightarrow> (string \<times> json) list \<Rightarrow> (string \<times> json) list option" where
  "merge_disjoint merged [] = Some merged"
| "merge_disjoint merged ((k, v) # rest) =
     (if k \<in> set (map fst merged) then None else merge_disjoint (AList.update k v merged) rest)"

definition into_response_value :: "SecretResult \<Rightarrow> ResponseBuildError + json" where
  "into_response_value s =
     (case sr_public s of
        Some (JObj public) \<Rightarrow>
          (case sr_secret s of
             Some (JObj secret) \<Rightarrow>
               (case merge_disjoint public secret of
                  None \<Rightarrow> Err ResponseBuildError
                | Some merged \<Rightarrow> Ok (JObj merged))
           | _ \<Rightarrow> Err ResponseBuildError)
      | _ \<Rightarrow> Err ResponseBuildError)"

definition success_with_secret :: "string \<Rightarrow> SecretResult \<Rightarrow> ResponseBuildError + Response" where
  "success_with_secret operation s =
     bind_ok (into_response_value s) (\<lambda>merged.
       Ok \<lparr> protocol_version = PROTOCOL_VERSION, rsp_operation = operation, rsp_ok = True,
         rsp_result = Some merged, secret_result = True, warnings = [], rsp_error = None \<rparr>)"

definition replayed :: "string \<Rightarrow> json \<Rightarrow> ResponseBuildError + Response" where
  "replayed operation stored_public =
     (case stored_public of
        JObj object \<Rightarrow>
          bind_ok (Response_success operation
              (Some (JObj (AList.update ''alreadyIssued'' (JBool True) object))))
            (\<lambda>r. Ok (with_warnings r [(SecretResultAlreadyIssued,
               ''this request was already completed; the one-time secret is not returned again'')]))
      | _ \<Rightarrow> Err ResponseBuildError)"

section \<open>Lemmas\<close>

lemma all_error_codes_all: "c \<in> set all_error_codes"
  by (cases c) (simp_all add: all_error_codes_def)

lemma screaming_snake_all:
  "list_all (\<lambda>c. screaming_snake (variant_name c) = ErrorCode_as_str c) all_error_codes"
  by (simp add: all_error_codes_def screaming_snake_def to_ascii_uppercase_def ascii_defs)

lemma screaming_snake_variant: "screaming_snake (variant_name c) = ErrorCode_as_str c"
  using screaming_snake_all all_error_codes_all[of c] by (simp add: list_all_iff)

lemma ErrorCode_json_as_str: "ErrorCode_json c = JStr (ErrorCode_as_str c)"
  by (simp add: ErrorCode_json_def screaming_snake_variant)

lemma as_str_distinct: "distinct (map ErrorCode_as_str all_error_codes)"
  by code_simp

lemma ErrorCode_as_str_inj: "ErrorCode_as_str a = ErrorCode_as_str b \<Longrightarrow> a = b"
  using as_str_distinct all_error_codes_all by (auto simp: distinct_map dest: inj_onD)

lemma ErrorCode_round_trip [simp]: "ErrorCode_of_json (ErrorCode_json c) = Some c"
proof (cases "ErrorCode_of_json (ErrorCode_json c)")
  case None
  then show ?thesis using all_error_codes_all[of c] by (auto simp: ErrorCode_of_json_def find_None_iff)
next
  case (Some d)
  then have "ErrorCode_json d = ErrorCode_json c" by (auto simp: ErrorCode_of_json_def find_Some_iff)
  with Some show ?thesis using ErrorCode_as_str_inj by (simp add: ErrorCode_json_as_str)
qed

lemma ErrorCode_json_not_null [simp]: "ErrorCode_json c \<noteq> JNull"
  by (simp add: ErrorCode_json_def)

lemma fst_set_AList_update: "fst ` set (AList.update k v al) = insert k (fst ` set al)"
  using AList.dom_update[of k v al] by (simp add: dom_map_of_conv_image_fst)

lemma merge_disjoint_Some:
  "merge_disjoint public secret = Some merged \<Longrightarrow>
     map_of merged = map_of public ++ map_of secret \<and> fst ` set public \<inter> fst ` set secret = {}
     \<and> distinct (map fst secret)"
proof (induction public secret arbitrary: merged rule: merge_disjoint.induct)
  case (1 public)
  then show ?case by simp
next
  case (2 public k v rest)
  from 2(2) have k: "k \<notin> set (map fst public)"
    and m: "merge_disjoint (AList.update k v public) rest = Some merged"
    by (auto split: if_splits)
  from 2(1)[OF k m] have IH: "map_of merged = map_of (AList.update k v public) ++ map_of rest"
    "insert k (fst ` set public) \<inter> fst ` set rest = {}" "distinct (map fst rest)"
    by (simp_all add: fst_set_AList_update fun_upd_def)
  then have "k \<notin> fst ` set rest" by auto
  then have "map_of rest k = None" by (simp add: map_of_eq_None_iff)
  with IH(1) have "map_of merged a = (map_of public ++ map_of ((k, v) # rest)) a" for a
    by (auto simp: map_add_def split: option.splits)
  then have "map_of merged = map_of public ++ map_of ((k, v) # rest)" by (rule ext)
  moreover have "fst ` set public \<inter> fst ` set ((k, v) # rest) = {}" using k IH(2) by auto
  moreover have "distinct (map fst ((k, v) # rest))" using IH(2,3) by auto
  ultimately show ?case by blast
qed

section \<open>Properties\<close>

text \<open>
  The two spellings of an error code agree: the name derived by the serializer from the variant
  is the text of \<open>as_str\<close>, different codes have different names, and a name is read back as the
  code it came from.
\<close>

theorem error_code_wire_name:
  "ErrorCode_json c = JStr (ErrorCode_as_str c) \<and> ErrorCode_of_json (JStr (ErrorCode_as_str c)) = Some c
     \<and> (ErrorCode_json c = ErrorCode_json d \<longleftrightarrow> c = d)"
  using ErrorCode_round_trip[of c] ErrorCode_as_str_inj[of c d]
  by (auto simp: ErrorCode_json_as_str)

lemma success_with_secret_Ok:
  assumes "success_with_secret operation s = Ok r"
  obtains public secret merged where "sr_public s = Some (JObj public)" "sr_secret s = Some (JObj secret)"
    "merge_disjoint public secret = Some merged" "rsp_result r = Some (JObj merged)"
    "secret_result r" "rsp_ok r" "rsp_error r = None"
  using assms
  by (auto simp: success_with_secret_def into_response_value_def bind_ok_Ok_iff
      split: option.splits json.splits)

text \<open>
  (C24) A response with a one-time secret carries every public and every secret member and no member
  of the one hides a member of the other; its debug form withholds the result. The response that
  answers a retry, built from the stored public part alone, carries exactly the public members and
  the marker \<open>alreadyIssued\<close>, so no secret member is in it unless the marker's name is one.
\<close>

theorem secret_issued_once:
  assumes "success_with_secret operation s = Ok r"
    and "public_value s = Ok stored" and "replayed operation stored = Ok again"
  shows "\<exists>public secret merged shown.
     sr_public s = Some (JObj public) \<and> sr_secret s = Some (JObj secret)
     \<and> rsp_result r = Some (JObj merged) \<and> map_of merged = map_of public ++ map_of secret
     \<and> fst ` set public \<inter> fst ` set secret = {}
     \<and> fst (snd (snd (snd (Response_debug r)))) = Redacted
     \<and> rsp_result again = Some (JObj shown)
     \<and> map_of shown = (map_of public)(''alreadyIssued'' \<mapsto> JBool True)
     \<and> fst ` set shown \<inter> fst ` set secret \<subseteq> {''alreadyIssued''}"
proof -
  from success_with_secret_Ok[OF assms(1)] obtain public secret merged where
    s: "sr_public s = Some (JObj public)" "sr_secret s = Some (JObj secret)"
    and m: "merge_disjoint public secret = Some merged" and r: "rsp_result r = Some (JObj merged)" "secret_result r"
    by metis
  have st: "stored = JObj public" using assms(2) s(1) by (simp add: public_value_def)
  let ?shown = "AList.update ''alreadyIssued'' (JBool True) public"
  have again: "rsp_result again = Some (JObj ?shown)"
    using assms(3) st by (auto simp: replayed_def Response_success_def with_warnings_def)
  have "fst ` set ?shown = insert ''alreadyIssued'' (fst ` set public)" by (rule fst_set_AList_update)
  with merge_disjoint_Some[OF m] have "fst ` set ?shown \<inter> fst ` set secret \<subseteq> {''alreadyIssued''}" by auto
  moreover have "map_of ?shown = (map_of public)(''alreadyIssued'' \<mapsto> JBool True)" by simp
  moreover have "fst (snd (snd (snd (Response_debug r)))) = Redacted"
    using r(2) by (simp add: Response_debug_def)
  ultimately show ?thesis using s r(1) again merge_disjoint_Some[OF m] by blast
qed

theorem secret_issued_once_witness:
  "\<exists>public secret shown.
     [(''id'', JNum 7)] = public \<and> [(''token'', JStr ''t0'')] = secret
     \<and> map_of shown = (map_of public)(''alreadyIssued'' \<mapsto> JBool True)
     \<and> fst ` set shown \<inter> fst ` set secret \<subseteq> {''alreadyIssued''}"
proof -
  let ?s = "\<lparr> sr_public = Some (JObj [(''id'', JNum 7)]), sr_secret = Some (JObj [(''token'', JStr ''t0'')]) \<rparr>"
  obtain r where 1: "success_with_secret ''issue'' ?s = Ok r"
    by (simp add: success_with_secret_def into_response_value_def)
  have 2: "public_value ?s = Ok (JObj [(''id'', JNum 7)])" by (simp add: public_value_def)
  obtain a where 3: "replayed ''issue'' (JObj [(''id'', JNum 7)]) = Ok a"
    by (simp add: replayed_def Response_success_def)
  from secret_issued_once[OF 1 2 3] show ?thesis by auto
qed

end
