(* ===== verification/TxState.thy ===== *)
theory TxState
  imports HostFs Protocol
begin

text \<open>
  The durable record of one mutation attempt (\<open>src/src/transaction/state.rs\<close>): its state machine,
  its JSON form and how it is created, replaced and loaded below a managed root; and the commit
  point types of \<open>src/src/transaction/commit.rs\<close>.

  \<open>crates\<close> bundles the two third-party functions that reading and writing a record depends on:
  the \<open>serde_json\<close> text format and \<open>Uuid::parse_str\<close>.
\<close>

record crates =
  cr_json :: json_text
  cr_uuid :: "string \<Rightarrow> uuid option"

definition crates_ok :: "crates \<Rightarrow> bool" where
  "crates_ok L \<longleftrightarrow> json_text_ok (cr_json L) \<and> uuid_parse_ok (cr_uuid L)"

lemma crates_okD: "crates_ok L \<Longrightarrow> json_text_ok (cr_json L)" "crates_ok L \<Longrightarrow> uuid_parse_ok (cr_uuid L)"
  by (simp_all add: crates_ok_def)

section \<open>The record\<close>

definition STATE_SCHEMA_VERSION :: u32 where "STATE_SCHEMA_VERSION = 1"

datatype TransactionStatus = InProgress | Committed | Failed

record TransactionOutcome =
  oc_ok :: bool
  oc_result :: "json option"
  oc_error_code :: "ErrorCode option"
  oc_error_message :: "string option"

record TransactionState =
  ts_schema_version :: u32
  ts_request_id :: RequestId
  ts_idempotency_key :: "IdempotencyKey option"
  ts_operation :: string
  ts_status :: TransactionStatus
  ts_started_at :: u64
  ts_finished_at :: "u64 option"
  ts_outcome :: "TransactionOutcome option"

definition TransactionState_start ::
  "host \<Rightarrow> RequestId \<Rightarrow> IdempotencyKey option \<Rightarrow> string \<Rightarrow> TransactionState" where
  "TransactionState_start h request_id idempotency_key operation =
     \<lparr> ts_schema_version = STATE_SCHEMA_VERSION, ts_request_id = request_id,
       ts_idempotency_key = idempotency_key, ts_operation = operation, ts_status = InProgress,
       ts_started_at = unix_now_secs h, ts_finished_at = None, ts_outcome = None \<rparr>"

datatype TransitionError = AlreadyFinished

definition finish ::
  "host \<Rightarrow> TransactionStatus \<Rightarrow> TransactionOutcome \<Rightarrow> TransactionState \<Rightarrow> TransitionError + TransactionState" where
  "finish h status outcome s =
     (if ts_status s \<noteq> InProgress then Err AlreadyFinished
      else Ok (s\<lparr>ts_status := status, ts_outcome := Some outcome,
                 ts_finished_at := Some (unix_now_secs h)\<rparr>))"

definition mark_committed :: "host \<Rightarrow> json \<Rightarrow> TransactionState \<Rightarrow> TransitionError + TransactionState" where
  "mark_committed h result s = finish h Committed
     \<lparr> oc_ok = True, oc_result = Some result, oc_error_code = None, oc_error_message = None \<rparr> s"

definition mark_failed ::
  "host \<Rightarrow> ErrorCode \<Rightarrow> string \<Rightarrow> TransactionState \<Rightarrow> TransitionError + TransactionState" where
  "mark_failed h error_code message s = finish h Failed
     \<lparr> oc_ok = False, oc_result = None, oc_error_code = Some error_code,
       oc_error_message = Some message \<rparr> s"

section \<open>Its JSON form\<close>

definition TransactionStatus_json :: "TransactionStatus \<Rightarrow> json" where
  "TransactionStatus_json s = JStr (case s of
     InProgress \<Rightarrow> ''IN_PROGRESS'' | Committed \<Rightarrow> ''COMMITTED'' | Failed \<Rightarrow> ''FAILED'')"

definition TransactionStatus_of_json :: "json \<Rightarrow> TransactionStatus option" where
  "TransactionStatus_of_json v =
     (if v = JStr ''IN_PROGRESS'' then Some InProgress
      else if v = JStr ''COMMITTED'' then Some Committed
      else if v = JStr ''FAILED'' then Some Failed else None)"

definition TransactionOutcome_json :: "TransactionOutcome \<Rightarrow> json" where
  "TransactionOutcome_json c = JObj
     [(''ok'', JBool (oc_ok c)), (''result'', opt_json id (oc_result c)),
      (''errorCode'', opt_json ErrorCode_json (oc_error_code c)),
      (''errorMessage'', opt_json JStr (oc_error_message c))]"

definition TransactionOutcome_of_json :: "json \<Rightarrow> TransactionOutcome option" where
  "TransactionOutcome_of_json v =
     Option.bind (as_obj v) (\<lambda>kvs.
     Option.bind (req as_bool (field_of ''ok'' kvs)) (\<lambda>k.
     Option.bind (opt Some (field_of ''result'' kvs)) (\<lambda>r.
     Option.bind (opt ErrorCode_of_json (field_of ''errorCode'' kvs)) (\<lambda>c.
     Option.bind (opt as_str (field_of ''errorMessage'' kvs)) (\<lambda>m.
       Some \<lparr> oc_ok = k, oc_result = r, oc_error_code = c, oc_error_message = m \<rparr>)))))"

definition TransactionState_json :: "TransactionState \<Rightarrow> json" where
  "TransactionState_json s = JObj
     [(''schemaVersion'', json_u32 (ts_schema_version s)),
      (''requestId'', JStr (ts_request_id s)),
      (''idempotencyKey'', opt_json JStr (ts_idempotency_key s)),
      (''operation'', JStr (ts_operation s)),
      (''status'', TransactionStatus_json (ts_status s)),
      (''startedAtUnixSecs'', json_u64 (ts_started_at s)),
      (''finishedAtUnixSecs'', opt_json json_u64 (ts_finished_at s)),
      (''outcome'', opt_json TransactionOutcome_json (ts_outcome s))]"

text \<open>A transparent newtype over \<open>Uuid\<close> accepts every spelling \<open>Uuid::parse_str\<close> accepts.\<close>

definition uuid_of_json :: "(string \<Rightarrow> uuid option) \<Rightarrow> json \<Rightarrow> uuid option" where
  "uuid_of_json parse_str v = Option.bind (as_str v) parse_str"

definition TransactionState_of_json :: "(string \<Rightarrow> uuid option) \<Rightarrow> json \<Rightarrow> TransactionState option" where
  "TransactionState_of_json parse_str v =
     Option.bind (as_obj v) (\<lambda>kvs.
     Option.bind (req as_u32 (field_of ''schemaVersion'' kvs)) (\<lambda>sv.
     Option.bind (req (uuid_of_json parse_str) (field_of ''requestId'' kvs)) (\<lambda>i.
     Option.bind (opt as_str (field_of ''idempotencyKey'' kvs)) (\<lambda>k.
     Option.bind (req as_str (field_of ''operation'' kvs)) (\<lambda>oper.
     Option.bind (req TransactionStatus_of_json (field_of ''status'' kvs)) (\<lambda>st.
     Option.bind (req as_u64 (field_of ''startedAtUnixSecs'' kvs)) (\<lambda>sa.
     Option.bind (opt as_u64 (field_of ''finishedAtUnixSecs'' kvs)) (\<lambda>fa.
     Option.bind (opt TransactionOutcome_of_json (field_of ''outcome'' kvs)) (\<lambda>oc.
       Some \<lparr> ts_schema_version = sv, ts_request_id = i, ts_idempotency_key = k,
         ts_operation = oper, ts_status = st, ts_started_at = sa, ts_finished_at = fa,
         ts_outcome = oc \<rparr>)))))))))"

section \<open>Persistence\<close>

datatype StateError = State_AlreadyExists | State_NotFound | State_Corrupt | State_Io

definition State_create ::
  "crates \<Rightarrow> ManagedRoot \<Rightarrow> path \<Rightarrow> TransactionState \<Rightarrow> host \<Rightarrow> (StateError + unit) \<times> host" where
  "State_create L root p state h =
     (case to_vec (cr_json L) TransactionState_json state of
        None \<Rightarrow> (Err State_Corrupt, h)
      | Some b \<Rightarrow> apfst (map_err (\<lambda>e. if e = IoAlreadyExists then State_AlreadyExists else State_Io))
                  (create_new root p b h))"

definition State_save ::
  "crates \<Rightarrow> ManagedRoot \<Rightarrow> path \<Rightarrow> TransactionState \<Rightarrow> host \<Rightarrow> (StateError + unit) \<times> host" where
  "State_save L root p state h =
     (case to_vec (cr_json L) TransactionState_json state of
        None \<Rightarrow> (Err State_Corrupt, h)
      | Some b \<Rightarrow> apfst (map_err (\<lambda>_. State_Io)) (write_atomic root p b h))"

definition State_decode :: "crates \<Rightarrow> bytes \<Rightarrow> StateError + TransactionState" where
  "State_decode L b =
     (case from_slice (cr_json L) (TransactionState_of_json (cr_uuid L)) b of
        None \<Rightarrow> Err State_Corrupt
      | Some state \<Rightarrow>
          if ts_schema_version state \<noteq> STATE_SCHEMA_VERSION then Err State_Corrupt else Ok state)"

definition State_load ::
  "crates \<Rightarrow> ManagedRoot \<Rightarrow> path \<Rightarrow> host \<Rightarrow> (StateError + TransactionState) \<times> host" where
  "State_load L root p h =
     try_io (read_to_string root p h) (\<lambda>e. if e = IoNotFound then State_NotFound else State_Io)
       (\<lambda>json h. (State_decode L json, h))"

section \<open>The commit point\<close>

text \<open>
  \<open>PreCommit\<close> holds the cancellation token, here its value at each check; \<open>commit\<close> consumes it
  and the resulting \<open>PostCommit\<close> has no operation that can fail.
\<close>

datatype CommitCancelled = CommitCancelled
datatype PreCommit = PreCommit "nat \<Rightarrow> bool"
datatype PostCommit = PostCommit

definition PreCommit_check :: "PreCommit \<Rightarrow> nat \<Rightarrow> CommitCancelled + unit" where
  "PreCommit_check pc now = (case pc of PreCommit is_cancelled \<Rightarrow>
     if is_cancelled now then Err CommitCancelled else Ok ())"

definition PreCommit_commit :: "PreCommit \<Rightarrow> PostCommit" where
  "PreCommit_commit pc = PostCommit"

section \<open>Round trips\<close>

lemma TransactionStatus_round_trip [simp]:
  "TransactionStatus_of_json (TransactionStatus_json s) = Some s"
  by (cases s) (simp_all add: TransactionStatus_json_def TransactionStatus_of_json_def)

text \<open>The JSON form of an outcome forgets a \<open>null\<close> result: it reads back as no result.\<close>

definition outcome_valid :: "TransactionOutcome \<Rightarrow> bool" where
  "outcome_valid c = (oc_result c \<noteq> Some JNull)"

interpretation oc_json: json_record TransactionOutcome_json TransactionOutcome_of_json outcome_valid
proof unfold_locales
  fix c assume "outcome_valid c"
  then have "opt Some (Present (opt_json id (oc_result c))) = Some (oc_result c)"
    by (auto intro!: opt_Present_opt_json simp: outcome_valid_def)
  moreover have "opt ErrorCode_of_json (Present (opt_json ErrorCode_json (oc_error_code c)))
      = Some (oc_error_code c)"
    by (simp add: opt_Present_opt_json)
  moreover have "opt as_str (Present (opt_json JStr (oc_error_message c))) = Some (oc_error_message c)"
    by (simp add: opt_Present_opt_json)
  ultimately show "TransactionOutcome_of_json (TransactionOutcome_json c) = Some c"
    by (simp add: TransactionOutcome_json_def TransactionOutcome_of_json_def field_of_def)
qed

definition state_valid :: "TransactionState \<Rightarrow> bool" where
  "state_valid s = (uuid_wf (ts_request_id s) \<and> ts_schema_version s = STATE_SCHEMA_VERSION
     \<and> (\<forall>c. ts_outcome s = Some c \<longrightarrow> outcome_valid c))"

lemma uuid_of_json_JStr: "uuid_parse_ok parse_str \<Longrightarrow> uuid_wf u \<Longrightarrow> uuid_of_json parse_str (JStr u) = Some u"
  by (simp add: uuid_of_json_def uuid_parse_ok_def)

lemma outcome_not_null [simp]: "TransactionOutcome_json c \<noteq> JNull"
  by (simp add: TransactionOutcome_json_def)

interpretation ts_json: json_record TransactionState_json "TransactionState_of_json parse_str"
  "\<lambda>s. uuid_parse_ok parse_str \<and> state_valid s" for parse_str
proof unfold_locales
  fix s assume v: "uuid_parse_ok parse_str \<and> state_valid s"
  then have "opt TransactionOutcome_of_json (Present (opt_json TransactionOutcome_json (ts_outcome s)))
      = Some (ts_outcome s)"
    by (intro opt_Present_opt_json) (simp add: state_valid_def oc_json.of_to)
  moreover from v have "uuid_of_json parse_str (JStr (ts_request_id s)) = Some (ts_request_id s)"
    by (simp add: uuid_of_json_JStr state_valid_def)
  moreover have "opt as_str (Present (opt_json JStr (ts_idempotency_key s))) = Some (ts_idempotency_key s)"
    "opt as_u64 (Present (opt_json json_u64 (ts_finished_at s))) = Some (ts_finished_at s)"
    by (simp_all add: opt_Present_opt_json)
  ultimately show "TransactionState_of_json parse_str (TransactionState_json s) = Some s"
    by (simp add: TransactionState_json_def TransactionState_of_json_def field_of_def)
qed

lemma decode_encoded:
  assumes "crates_ok L" and "state_valid s" and "to_vec (cr_json L) TransactionState_json s = Some b"
  shows "State_decode L b = Ok s" and "utf8_ok b"
  using ts_json.text_round_trip[of "cr_json L" "cr_uuid L" s b] assms
  by (simp_all add: State_decode_def crates_ok_def state_valid_def)

lemma decode_Ok_schema:
  "State_decode L b = Ok s \<Longrightarrow> ts_schema_version s = STATE_SCHEMA_VERSION"
  by (auto simp: State_decode_def split: option.splits if_splits)

section \<open>The state machine of a record\<close>

text \<open>
  The life of a record as a step relation: it is started once and finished at most once, and every
  record reachable this way has an outcome and a finishing time exactly when it is finished.
\<close>

inductive record_step :: "TransactionState \<Rightarrow> TransactionState \<Rightarrow> bool" where
  committed: "mark_committed h result s = Ok s' \<Longrightarrow> record_step s s'"
| failed: "mark_failed h code message s = Ok s' \<Longrightarrow> record_step s s'"

inductive_cases record_stepE: "record_step s s'"

inductive reachable_record :: "TransactionState \<Rightarrow> bool" where
  started: "reachable_record (TransactionState_start h rid key oper)"
| stepped: "reachable_record s \<Longrightarrow> record_step s s' \<Longrightarrow> reachable_record s'"

definition record_inv :: "TransactionState \<Rightarrow> bool" where
  "record_inv s = (ts_schema_version s = STATE_SCHEMA_VERSION \<and>
     (case ts_status s of
        InProgress \<Rightarrow> ts_outcome s = None \<and> ts_finished_at s = None
      | Committed \<Rightarrow> ts_finished_at s \<noteq> None \<and> (\<exists>r. ts_outcome s = Some \<lparr> oc_ok = True,
          oc_result = Some r, oc_error_code = None, oc_error_message = None \<rparr>)
      | Failed \<Rightarrow> ts_finished_at s \<noteq> None \<and> (\<exists>c m. ts_outcome s = Some \<lparr> oc_ok = False,
          oc_result = None, oc_error_code = Some c, oc_error_message = Some m \<rparr>)))"

lemmas mark_defs = mark_committed_def mark_failed_def finish_def

lemma finish_Ok_iff:
  "finish h st c s = Ok s' \<longleftrightarrow> ts_status s = InProgress \<and>
     s' = s\<lparr>ts_status := st, ts_outcome := Some c, ts_finished_at := Some (unix_now_secs h)\<rparr>"
  by (auto simp: finish_def)

lemma record_step_from: "record_step s s' \<Longrightarrow> ts_status s = InProgress \<and> ts_status s' \<noteq> InProgress"
  by (auto elim!: record_stepE simp: mark_committed_def mark_failed_def finish_Ok_iff)

lemma record_step_keeps:
  "record_step s s' \<Longrightarrow> ts_request_id s' = ts_request_id s \<and> ts_idempotency_key s' = ts_idempotency_key s
     \<and> ts_operation s' = ts_operation s \<and> ts_started_at s' = ts_started_at s
     \<and> ts_schema_version s' = ts_schema_version s"
  by (auto elim!: record_stepE simp: mark_committed_def mark_failed_def finish_Ok_iff)

lemma record_inv_start: "record_inv (TransactionState_start h rid key oper)"
  by (simp add: record_inv_def TransactionState_start_def)

lemma record_inv_step: "record_inv s \<Longrightarrow> record_step s s' \<Longrightarrow> record_inv s'"
  by (auto elim!: record_stepE simp: mark_committed_def mark_failed_def finish_Ok_iff record_inv_def)

lemma reachable_record_inv: "reachable_record s \<Longrightarrow> record_inv s"
  by (induction rule: reachable_record.induct) (auto intro: record_inv_start record_inv_step)

lemma finished_is_final:
  "ts_status s \<noteq> InProgress \<Longrightarrow> mark_committed h r s = Err AlreadyFinished"
  "ts_status s \<noteq> InProgress \<Longrightarrow> mark_failed h c m s = Err AlreadyFinished"
  by (simp_all add: mark_defs)

lemma start_valid: "uuid_wf rid \<Longrightarrow> state_valid (TransactionState_start h rid key oper)"
  by (simp add: state_valid_def TransactionState_start_def)

lemma marked_valid:
  "state_valid s \<Longrightarrow> mark_failed h c m s = Ok s' \<Longrightarrow> state_valid s'"
  "state_valid s \<Longrightarrow> r \<noteq> JNull \<Longrightarrow> mark_committed h r s = Ok s' \<Longrightarrow> state_valid s'"
  by (auto simp: mark_committed_def mark_failed_def finish_Ok_iff state_valid_def outcome_valid_def)

lemma mark_in_progress:
  assumes "ts_status s = InProgress"
  obtains s' where "mark_committed h r s = Ok s'" "ts_status s' = Committed"
    "ts_request_id s' = ts_request_id s"
  using assms by (simp add: mark_defs)

section \<open>What is stored\<close>

text \<open>The record the file at \<open>p\<close> holds, if it holds a readable one.\<close>

definition stored :: "crates \<Rightarrow> ManagedRoot \<Rightarrow> host \<Rightarrow> path \<Rightarrow> TransactionState option" where
  "stored L root h p = Option.bind (file_at root h p) (\<lambda>b.
     if utf8_ok b then (case State_decode L b of Inr s \<Rightarrow> Some s | Inl _ \<Rightarrow> None) else None)"

lemma State_create_Ok:
  assumes "State_create L root p s h = (Ok (), h')" and "crates_ok L" and "state_valid s"
  shows "file_at root h p = None" and "stored L root h' p = Some s"
    and "\<And>q. q \<noteq> p \<Longrightarrow> file_at root h' q = file_at root h q"
proof -
  from assms(1) obtain b where b: "to_vec (cr_json L) TransactionState_json s = Some b"
    and c: "create_new root p b h = (Ok (), h')"
    by (cases "to_vec (cr_json L) TransactionState_json s")
       (auto simp: State_create_def apfst_def map_prod_def split: prod.splits)
  from managed.create_ok[OF c] show "file_at root h p = None"
    and "\<And>q. q \<noteq> p \<Longrightarrow> file_at root h' q = file_at root h q" by auto
  from managed.create_ok[OF c] decode_encoded[OF assms(2,3) b]
  show "stored L root h' p = Some s" by (simp add: stored_def)
qed

lemma State_create_frame: "q \<noteq> root @ p \<Longrightarrow> node_at (snd (State_create L root p s h)) q = node_at h q"
  by (simp add: State_create_def create_new_frame split: option.splits)

lemma State_create_exists:
  "file_at root h p = Some b \<Longrightarrow> fst (State_create L root p s h) \<noteq> Ok ()
     \<and> file_at root (snd (State_create L root p s h)) = file_at root h"
  using managed.create_rejects[of root h p b] managed.create_keeps[of root h p b]
  by (auto simp: State_create_def split: option.splits)

lemma State_save_Ok:
  assumes "State_save L root p s h = (Ok (), h')" and "p \<noteq> []" and "crates_ok L" and "state_valid s"
  shows "stored L root h' p = Some s"
proof -
  from assms(1) obtain b where b: "to_vec (cr_json L) TransactionState_json s = Some b"
    and c: "write_atomic root p b h = (Ok (), h')"
    by (cases "to_vec (cr_json L) TransactionState_json s")
       (auto simp: State_save_def apfst_def map_prod_def split: prod.splits)
  from managed.replace_ok[OF assms(2) c] decode_encoded[OF assms(3,4) b]
  show ?thesis by (simp add: stored_def)
qed

text \<open>A save that fails, at whichever call, leaves the old record or the new one.\<close>

lemma State_save_atomic:
  assumes "p \<noteq> []" and "crates_ok L" and "state_valid s"
  shows "stored L root (snd (State_save L root p s h)) p \<in> {stored L root h p, Some s}"
proof (cases "to_vec (cr_json L) TransactionState_json s")
  case None
  then show ?thesis by (simp add: State_save_def)
next
  case (Some b)
  with managed.replace_atomic[OF assms(1), of root b h] decode_encoded[OF assms(2,3) Some]
  show ?thesis by (auto simp: State_save_def stored_def)
qed

lemma State_save_frame:
  "p \<noteq> [] \<Longrightarrow> q \<noteq> root @ p \<Longrightarrow> q \<noteq> root @ butlast p @ [last p @ ''.tmp''] \<Longrightarrow>
     node_at (snd (State_save L root p s h)) q = node_at h q"
  by (simp add: State_save_def write_atomic_frame split: option.splits)

lemma State_load_Ok: "State_load L root p h = (Ok s, h') \<Longrightarrow> stored L root h p = Some s"
  by (auto simp: State_load_def stored_def read_to_string_def io_call_def file_at_def
      split: if_splits option.splits node.splits)

lemma State_load_NotFound:
  "State_load L root p h = (Err State_NotFound, h') \<Longrightarrow> node_at h (root @ p) = None"
  by (auto simp: State_load_def read_to_string_def io_call_def State_decode_def
      split: if_splits option.splits node.splits)

lemma State_load_stored:
  "stored L root h p = Some s \<Longrightarrow> fst (State_load L root p h) \<in> {Ok s, Err State_Io}"
  by (auto simp: State_load_def stored_def read_to_string_def io_call_def file_at_def
      split: if_splits option.splits node.splits sum.splits bind_splits)

lemma State_env [host_frame, simp]:
  "env (snd (State_create L root p s h)) = env h"
  "env (snd (State_save L root p s h)) = env h"
  "env (snd (State_load L root p h)) = env h"
  by (auto simp: State_create_def State_save_def State_load_def intro!: try_io_keeps[where g = env]
      split: option.splits)

lemma node_at_State_load [host_frame, simp]: "node_at (snd (State_load L root p h)) = node_at h"
  by (auto simp: State_load_def intro!: try_io_keeps[where g = node_at])

lemma stored_cong: "node_at h = node_at h' \<Longrightarrow> stored L root h = stored L root h'"
  by (simp add: stored_def fun_eq_iff file_at_def)

lemma stored_node: "node_at h (root @ p) = node_at h' (root @ p) \<Longrightarrow> stored L root h p = stored L root h' p"
  by (simp add: stored_def file_at_def)

section \<open>Closed examples\<close>

text \<open>A parser that accepts the canonical spelling only, and a host without faults.\<close>

definition canonical_uuid :: "string \<Rightarrow> uuid option" where
  "canonical_uuid s = (if uuid_wf s then Some s else None)"

lemma canonical_uuid_ok [simp]: "uuid_parse_ok canonical_uuid"
  by (simp add: uuid_parse_ok_def canonical_uuid_def)

definition table_crates :: "json list \<Rightarrow> crates" where
  "table_crates xs = \<lparr> cr_json = table_text xs, cr_uuid = canonical_uuid \<rparr>"

lemma table_crates_ok [simp]: "crates_ok (table_crates xs)"
  by (simp add: crates_ok_def table_crates_def)

definition example_host :: "(path \<times> node) list \<Rightarrow> host" where
  "example_host t = \<lparr> tree = t, flocked = (\<lambda>_. False), realpath = (\<lambda>_. None), mtime = (\<lambda>_. None),
     clock = (\<lambda>_. 0), tick = 0, fails = (\<lambda>_. False), torn = (\<lambda>_. 0) \<rparr>"

definition example_id :: uuid where
  "example_id = ''0190163d-8694-739b-aea5-966c26f8ad91''"

lemma example_id_wf [simp]: "uuid_wf example_id"
  by code_simp

section \<open>Properties\<close>

text \<open>
  (C15) A transaction record is finished at most once. In every record that can be reached from
  \<open>start\<close> by the marking calls, the outcome and the finishing time are present exactly when the
  status is final, a committed record has a result and a failed one an error code with a message,
  and no further marking call succeeds on a final record.
\<close>

theorem transaction_finishes_once:
  assumes "reachable_record s"
  shows "record_inv s \<and> (ts_status s = InProgress \<longleftrightarrow> ts_outcome s = None)
    \<and> (ts_status s = InProgress \<longleftrightarrow> ts_finished_at s = None)
    \<and> ((\<exists>s'. record_step s s') \<longleftrightarrow> ts_status s = InProgress)"
proof -
  have inv: "record_inv s" using assms by (rule reachable_record_inv)
  moreover have "ts_status s = InProgress \<Longrightarrow> \<exists>s'. record_step s s'"
    by (rule mark_in_progress[of s undefined JNull]) (auto intro: record_step.intros)
  ultimately show ?thesis
    using record_step_from by (auto simp: record_inv_def split: TransactionStatus.splits)
qed

theorem transaction_finishes_once_witness:
  "\<exists>s'. mark_failed (example_host []) Timeout ''late''
       (TransactionState_start (example_host []) example_id None ''site.deploy'') = Ok s'
     \<and> ts_status s' = Failed \<and> \<not> (\<exists>s''. record_step s' s'')"
proof -
  let ?s = "TransactionState_start (example_host []) example_id None ''site.deploy''"
  obtain s' where s': "mark_failed (example_host []) Timeout ''late'' ?s = Ok s'" "ts_status s' = Failed"
    by (simp add: mark_failed_def finish_def TransactionState_start_def)
  have "reachable_record s'"
    by (rule reachable_record.stepped[OF reachable_record.started record_step.failed[OF s'(1)]])
  from transaction_finishes_once[OF this] s' show ?thesis by auto
qed

text \<open>
  (C16) What is written is what is read. After a successful \<open>save\<close> every load that can read the file
  returns the saved record, and whatever call inside \<open>save\<close> fails, the file still holds either
  the old record or the complete new one.
\<close>

theorem transaction_save_atomic:
  assumes "crates_ok L" and "state_valid s" and "p \<noteq> []"
  shows "(fst (State_save L root p s h) = Ok () \<longrightarrow>
           fst (State_load L root p (snd (State_save L root p s h))) \<in> {Ok s, Err State_Io})
    \<and> stored L root (snd (State_save L root p s h)) p \<in> {stored L root h p, Some s}"
proof -
  have "fst (State_save L root p s h) = Ok () \<Longrightarrow> stored L root (snd (State_save L root p s h)) p = Some s"
    using State_save_Ok[of L root p s h "snd (State_save L root p s h)"] assms
    by (cases "State_save L root p s h") simp
  then show ?thesis
    using State_load_stored[of L root "snd (State_save L root p s h)" p s]
      State_save_atomic[OF assms(3,1,2), of root h] by blast
qed

theorem transaction_save_atomic_witness:
  "let s = TransactionState_start (example_host []) example_id None ''site.deploy'';
       L = table_crates [TransactionState_json s]
   in fst (State_load L [''state''] [''a''] (snd (State_save L [''state''] [''a''] s
        (example_host [([''state''], Dir)])))) \<in> {Ok s, Err State_Io}"
proof -
  let ?s = "TransactionState_start (example_host []) example_id None ''site.deploy''"
  let ?L = "table_crates [TransactionState_json ?s]"
  have "state_valid ?s" by (simp add: start_valid)
  from transaction_save_atomic[OF table_crates_ok this, of "[''a'']" "[TransactionState_json ?s]"
      "[''state'']" "example_host [([''state''], Dir)]"]
  show ?thesis
    by (simp add: Let_def State_save_def to_vec_def table_crates_def table_text_def write_atomic_def
        temp_sibling_path_def create_trunc_def io_call_def parent_ok_def example_host_def node_at_def
        write_all_def sync_all_def rename_node_def set_node_def del_node_def next_tick_def)
qed

end
