(* ===== verification/SiteLock.thy ===== *)
theory SiteLock
  imports TxState
begin

text \<open>
  The exclusive mutation lock (\<open>src/src/transaction/lock.rs\<close>). The kernel's lock table is the
  \<open>flocked\<close> field of the host; the lock file only carries a diagnostic record of the holder. A
  guard is the absolute path of the file it holds: dropping it (\<open>release\<close>) unlocks and leaves the
  file. Every early return after the lock was obtained drops the descriptor, which releases it.
\<close>

section \<open>The kernel lock\<close>

definition flock_ex_nb :: "path \<Rightarrow> host \<Rightarrow> unit io" where
  "flock_ex_nb p h = io_call h (\<lambda>h.
     if flocked h p then (Err IoWouldBlock, h)
     else (Ok (), h\<lparr>flocked := (flocked h)(p := True)\<rparr>))"

definition release :: "path \<Rightarrow> host \<Rightarrow> host" where
  "release p h = h\<lparr>flocked := (flocked h)(p := False)\<rparr>"

definition release_all :: "path list \<Rightarrow> host \<Rightarrow> host" where
  "release_all ps h = fold release ps h"

section \<open>The diagnostic record\<close>

definition LOCK_SCHEMA_VERSION :: u32 where "LOCK_SCHEMA_VERSION = 1"

record LockRecord =
  lr_schema_version :: u32
  lr_holder :: RequestId
  lr_acquired_at :: u64

definition LockRecord_json :: "LockRecord \<Rightarrow> json" where
  "LockRecord_json r = JObj
     [(''schemaVersion'', json_u32 (lr_schema_version r)), (''holder'', JStr (lr_holder r)),
      (''acquiredAtUnixSecs'', json_u64 (lr_acquired_at r))]"

definition LockRecord_of_json :: "(string \<Rightarrow> uuid option) \<Rightarrow> json \<Rightarrow> LockRecord option" where
  "LockRecord_of_json parse_str v =
     Option.bind (as_obj v) (\<lambda>kvs.
     Option.bind (req as_u32 (field_of ''schemaVersion'' kvs)) (\<lambda>sv.
     Option.bind (req (uuid_of_json parse_str) (field_of ''holder'' kvs)) (\<lambda>i.
     Option.bind (req as_u64 (field_of ''acquiredAtUnixSecs'' kvs)) (\<lambda>at.
       Some \<lparr> lr_schema_version = sv, lr_holder = i, lr_acquired_at = at \<rparr>))))"

datatype LockError = Held "RequestId option" u64 | Lock_Io

definition lock_record_bytes :: "crates \<Rightarrow> RequestId \<Rightarrow> host \<Rightarrow> LockError + bytes" where
  "lock_record_bytes L holder h =
     (case to_vec (cr_json L) LockRecord_json
        \<lparr> lr_schema_version = LOCK_SCHEMA_VERSION, lr_holder = holder,
          lr_acquired_at = unix_now_secs h \<rparr> of
        None \<Rightarrow> Err Lock_Io | Some b \<Rightarrow> Ok b)"

definition read_lock ::
  "crates \<Rightarrow> ManagedRoot \<Rightarrow> path \<Rightarrow> host \<Rightarrow> (LockError + LockRecord \<times> u64) \<times> host" where
  "read_lock L root p h =
     try_io (open_regular_read root p h) (\<lambda>_. Lock_Io) (\<lambda>file h.
       (case read_take 4097 file h of
          ((Some _, _), h) \<Rightarrow> (Err Lock_Io, h)
        | ((None, b), h) \<Rightarrow>
            if length b > 4096 then (Err Lock_Io, h)
            else (case from_slice (cr_json L) (LockRecord_of_json (cr_uuid L)) b of
                    None \<Rightarrow> (Err Lock_Io, h)
                  | Some r \<Rightarrow>
                      if lr_schema_version r \<noteq> LOCK_SCHEMA_VERSION then (Err Lock_Io, h)
                      else (Ok (r, saturating_sub (unix_now_secs h) (lr_acquired_at r)), h))))"

section \<open>Acquiring and asking\<close>

definition set_len_zero :: "path \<Rightarrow> host \<Rightarrow> unit io" where
  "set_len_zero p h = io_call h (\<lambda>h. (Ok (), set_node p (File []) h))"

definition seek_start :: "host \<Rightarrow> unit io" where
  "seek_start h = io_call h (\<lambda>h. (Ok (), h))"

text \<open>The statements after the lock is obtained, up to the point where the guard is built.\<close>

definition write_lock_record :: "crates \<Rightarrow> path \<Rightarrow> RequestId \<Rightarrow> host \<Rightarrow> (LockError + unit) \<times> host" where
  "write_lock_record L p holder h =
     (case lock_record_bytes L holder h of
        Inl e \<Rightarrow> (Err e, h)
      | Inr record \<Rightarrow>
          try_io (set_len_zero p h) (\<lambda>_. Lock_Io) (\<lambda>_ h.
          try_io (seek_start h) (\<lambda>_. Lock_Io) (\<lambda>_ h.
          try_io (write_all p [] record h) (\<lambda>_. Lock_Io) (\<lambda>_ h.
          try_io (sync_all h) (\<lambda>_. Lock_Io) (\<lambda>_ h. (Ok (), h))))))"

definition lock_acquire ::
  "crates \<Rightarrow> ManagedRoot \<Rightarrow> path \<Rightarrow> RequestId \<Rightarrow> host \<Rightarrow> (LockError + path) \<times> host" where
  "lock_acquire L root p holder h =
     try_io (open_or_create_file root p h) (\<lambda>_. Lock_Io) (\<lambda>_ h.
       (case flock_ex_nb (root @ p) h of
          (Inl e, h) \<Rightarrow>
            (if e = IoWouldBlock
             then (case read_lock L root p h of
                     (Inr (r, held_for), h) \<Rightarrow> (Err (Held (Some (lr_holder r)) held_for), h)
                   | (Inl _, h) \<Rightarrow> (Err (Held None 0), h))
             else (Err Lock_Io, h))
        | (Inr _, h) \<Rightarrow>
            (case write_lock_record L (root @ p) holder h of
               (Inl e, h) \<Rightarrow> (Err e, release (root @ p) h)
             | (Inr _, h) \<Rightarrow> (Ok (root @ p), h))))"

definition lock_holder ::
  "crates \<Rightarrow> ManagedRoot \<Rightarrow> path \<Rightarrow> host \<Rightarrow> (LockError + RequestId option) \<times> host" where
  "lock_holder L root p h =
     try_io (open_or_create_file root p h) (\<lambda>_. Lock_Io) (\<lambda>_ h.
       (case flock_ex_nb (root @ p) h of
          (Inr _, h) \<Rightarrow> (Ok None, release (root @ p) h)
        | (Inl e, h) \<Rightarrow>
            (if e \<noteq> IoWouldBlock then (Err Lock_Io, h)
             else (case read_lock L root p h of
                     (Inr (r, _), h) \<Rightarrow> (Ok (Some (lr_holder r)), h)
                   | (Inl e, h) \<Rightarrow> (Err e, h)))))"

section \<open>Round trip of the record\<close>

interpretation lr_json: json_record LockRecord_json "LockRecord_of_json parse_str"
  "\<lambda>r. uuid_parse_ok parse_str \<and> uuid_wf (lr_holder r)" for parse_str
  by unfold_locales
     (simp add: LockRecord_json_def LockRecord_of_json_def field_of_def uuid_of_json_JStr)

section \<open>The lock table\<close>

lemma flocked_release [simp]: "flocked (release p h) = (flocked h)(p := False)"
  by (simp add: release_def)

lemma release_simps [simp]:
  "node_at (release p h) = node_at h" "tree (release p h) = tree h" "host_wf (release p h) = host_wf h"
  "fails (release p h) = fails h" "tick (release p h) = tick h" "clock (release p h) = clock h"
  by (simp_all add: release_def node_at_def host_wf_def fun_eq_iff)

lemma flocked_env: "env h = env h' \<Longrightarrow> flocked h = flocked h'"
  by (simp add: env_def)

lemma flocked_calls [host_frame, simp]:
  "flocked (snd (open_or_create_file root p h)) = flocked h"
  "flocked (snd (open_regular_read root p h)) = flocked h"
  "flocked (snd (read_take n b h)) = flocked h"
  by (rule flocked_env; simp)+

lemma read_lock_env [host_frame, simp]: "env (snd (read_lock L root p h)) = env h"
  unfolding read_lock_def
  by (rule try_io_keeps[where g = env])
     (auto split: prod.splits option.splits dest!: arg_cong[where f = "\<lambda>x. env (snd x)"])

lemma read_lock_node_at [host_frame, simp]: "node_at (snd (read_lock L root p h)) = node_at h"
  unfolding read_lock_def
  by (rule try_io_keeps[where g = node_at])
     (auto split: prod.splits option.splits dest!: arg_cong[where f = "\<lambda>x. node_at (snd x)"])

lemma flocked_read_lock [simp]: "flocked (snd (read_lock L root p h)) = flocked h"
  by (rule flocked_env) simp

lemma read_lock_same: "read_lock L root p h = (r, h') \<Longrightarrow> node_at h' = node_at h \<and> flocked h' = flocked h"
  using read_lock_node_at[of L root p h] flocked_read_lock[of L root p h] by simp

lemma write_lock_record_env [host_frame, simp]: "env (snd (write_lock_record L p i h)) = env h"
  by (auto simp: write_lock_record_def set_len_zero_def seek_start_def io_call_def
      intro!: try_io_keeps[where g = env] split: sum.splits)

lemma flocked_write_lock_record [simp]: "flocked (snd (write_lock_record L p i h)) = flocked h"
  by (rule flocked_env) simp

lemma write_lock_record_frame: "q \<noteq> p \<Longrightarrow> node_at (snd (write_lock_record L p i h)) q = node_at h q"
  by (simp add: write_lock_record_def set_len_zero_def seek_start_def io_call_def write_all_def
      sync_all_def split: sum.splits)

lemma open_or_create_frame: "q \<noteq> root @ p \<Longrightarrow> node_at (snd (open_or_create_file root p h)) q = node_at h q"
  by (simp add: open_or_create_file_def open_append_def io_call_def split: option.splits node.splits)

text \<open>What acquiring does to the lock table on every path: exactly the requested lock is added on
  success, nothing changes on any failure.\<close>

lemma flock_ex_nb_cases:
  obtains (taken) h' where "flock_ex_nb p h = (Ok (), h')" "\<not> flocked h p"
      "flocked h' = (flocked h)(p := True)" "node_at h' = node_at h" "tick h' = Suc (tick h)"
      "fails h' = fails h"
  | (busy) "flock_ex_nb p h = (Err IoWouldBlock, next_tick h)" "flocked h p"
  | (fault) "flock_ex_nb p h = (Err IoOther, next_tick h)" "fails h (tick h)"
proof (cases "fails h (tick h)")
  case True
  with fault show ?thesis by (simp add: flock_ex_nb_def io_call_def)
next
  case False
  show ?thesis
  proof (cases "flocked h p")
    case True
    with False busy show ?thesis by (simp add: flock_ex_nb_def io_call_def)
  next
    case free: False
    from False free show ?thesis
      by (intro taken[of "(next_tick h)\<lparr>flocked := (flocked h)(p := True)\<rparr>"])
         (simp_all add: flock_ex_nb_def io_call_def node_at_def fun_eq_iff)
  qed
qed

lemma open_or_create_cases:
  obtains (bad) e h' where "open_or_create_file root p h = (Err e, h')" "flocked h' = flocked h"
  | (opened) h' where "open_or_create_file root p h = (Ok (), h')" "flocked h' = flocked h"
proof (cases "open_or_create_file root p h")
  case (Pair r h')
  then have "flocked h' = flocked h" using flocked_calls(1)[of root p h] by simp
  with Pair bad opened show ?thesis by (cases r) auto
qed

lemma lock_acquire_cases:
  obtains (granted) h' where "lock_acquire L root p i h = (Ok (root @ p), h')"
      "\<not> flocked h (root @ p)" "flocked h' = (flocked h)(root @ p := True)"
  | (refused) e h' where "lock_acquire L root p i h = (Err e, h')" "flocked h' = flocked h"
proof (cases rule: open_or_create_cases[of root p h])
  case (bad e h')
  then show ?thesis by (intro refused[of Lock_Io h']) (simp_all add: lock_acquire_def)
next
  case o: (opened h1)
  show ?thesis
  proof (cases rule: flock_ex_nb_cases[of "root @ p" h1])
    case t: (taken h2)
    obtain r h3 where w: "write_lock_record L (root @ p) i h2 = (r, h3)" by fastforce
    then have f3: "flocked h3 = (flocked h)(root @ p := True)"
      using flocked_write_lock_record[of L "root @ p" i h2] o t by simp
    show ?thesis
    proof (cases r)
      case (Inl e)
      with o t w f3 show ?thesis
        by (intro refused[of e "release (root @ p) h3"]) (auto simp: lock_acquire_def fun_eq_iff)
    next
      case (Inr u)
      with o t w f3 show ?thesis by (intro granted[of h3]) (simp_all add: lock_acquire_def)
    qed
  next
    case b: busy
    obtain r h3 where w: "read_lock L root p (next_tick h1) = (r, h3)" by fastforce
    then have "flocked h3 = flocked h"
      using flocked_read_lock[of L root p "next_tick h1"] o b by simp
    with o b w show ?thesis
      by (cases r) (auto simp: lock_acquire_def intro: refused)
  next
    case fault
    with o show ?thesis by (intro refused[of Lock_Io "next_tick h1"]) (simp_all add: lock_acquire_def)
  qed
qed

section \<open>Exclusive locks as an interface\<close>

text \<open>
  What a client may rely on, whichever resource the lock stands for: a grant means nobody held the
  lock, a refusal changes nothing, and a release frees exactly the lock it names. The last
  definition is the loop of a client that needs several locks at once: it gives back what it has
  on the first refusal.
\<close>

fun acquire_each ::
  "('r \<Rightarrow> 'w \<Rightarrow> ('e + 'g) \<times> 'w) \<Rightarrow> ('g \<Rightarrow> 'w \<Rightarrow> 'w) \<Rightarrow> 'r list \<Rightarrow> 'g list \<Rightarrow> 'w \<Rightarrow> ('e + 'g list) \<times> 'w" where
  "acquire_each acq rel [] guards w = (Ok guards, w)"
| "acquire_each acq rel (r # rs) guards w =
     (case acq r w of
        (Inl e, w) \<Rightarrow> (Err e, fold rel guards w)
      | (Inr g, w) \<Rightarrow> acquire_each acq rel rs (guards @ [g]) w)"

locale exclusive_lock =
  fixes held :: "'w \<Rightarrow> 'g \<Rightarrow> bool"
    and acq :: "'r \<Rightarrow> 'w \<Rightarrow> ('e + 'g) \<times> 'w"
    and rel :: "'g \<Rightarrow> 'w \<Rightarrow> 'w"
    and lock_of :: "'r \<Rightarrow> 'g"
  assumes acq_ok: "acq r w = (Ok g, w') \<Longrightarrow> g = lock_of r \<and> \<not> held w g \<and> held w' = (held w)(g := True)"
    and acq_err: "acq r w = (Err e, w') \<Longrightarrow> held w' = held w"
    and rel_frees: "held (rel g w) = (held w)(g := False)"
begin

lemma no_second_grant: "held w (lock_of r) \<Longrightarrow> \<exists>e. fst (acq r w) = Err e"
  using acq_ok[of r w _ "snd (acq r w)"] by (cases "acq r w", rename_tac a b, case_tac a) auto

lemma grant_excludes:
  assumes "acq r w = (Ok g, w')" and "lock_of r' = lock_of r"
  shows "\<exists>e. fst (acq r' w') = Err e"
  using assms acq_ok[OF assms(1)] by (intro no_second_grant) simp

lemma release_undoes: "acq r w = (Ok g, w') \<Longrightarrow> held (rel g w') = held w"
  using acq_ok[of r w g w'] by (auto simp: rel_frees fun_eq_iff)

lemma release_many: "held (fold rel gs w) = (\<lambda>g. held w g \<and> g \<notin> set gs)"
  by (induction gs arbitrary: w) (auto simp: rel_frees fun_eq_iff)

lemma acquire_each_held:
  "case acquire_each acq rel rs gs w of
     (Inr out, w') \<Rightarrow> out = gs @ map lock_of rs \<and> distinct (map lock_of rs)
        \<and> (\<forall>r \<in> set rs. \<not> held w (lock_of r))
        \<and> held w' = (\<lambda>g. held w g \<or> g \<in> lock_of ` set rs)
   | (Inl e, w') \<Rightarrow> held w' = (\<lambda>g. held w g \<and> g \<notin> set gs)"
proof (induction rs arbitrary: gs w)
  case Nil
  then show ?case by simp
next
  case (Cons r rs)
  show ?case
  proof (cases "acq r w")
    case (Pair a w1)
    show ?thesis
    proof (cases a)
      case (Inl e)
      with Pair acq_err show ?thesis by (simp add: release_many)
    next
      case (Inr g)
      with Pair have g: "g = lock_of r" "\<not> held w g" "held w1 = (held w)(g := True)"
        using acq_ok by auto
      from Pair Inr Cons.IH[of w1 "gs @ [g]"] g show ?thesis
        by (auto simp: fun_eq_iff split: prod.splits sum.splits if_splits)
    qed
  qed
qed

end

interpretation site_lock: exclusive_lock flocked "\<lambda>p. lock_acquire L root p holder" release
  "\<lambda>p. root @ p" for L root holder
proof unfold_locales
  show "lock_acquire L root p holder w = (Ok g, w') \<Longrightarrow>
      g = root @ p \<and> \<not> flocked w g \<and> flocked w' = (flocked w)(g := True)" for p w g w'
    by (cases rule: lock_acquire_cases[of L root p holder w]) auto
  show "lock_acquire L root p holder w = (Err e, w') \<Longrightarrow> flocked w' = flocked w" for p w e w'
    by (cases rule: lock_acquire_cases[of L root p holder w]) auto
qed simp

section \<open>Frames and progress\<close>

lemma lock_acquire_frame:
  assumes "q \<noteq> root @ p"
  shows "node_at (snd (lock_acquire L root p i h)) q = node_at h q"
proof (cases "open_or_create_file root p h")
  case (Pair r h1)
  then have n: "node_at h1 q = node_at h q" using open_or_create_frame[OF assms, of h] by simp
  show ?thesis
  proof (cases r)
    case (Inl e)
    with Pair n show ?thesis by (simp add: lock_acquire_def)
  next
    case (Inr u)
    show ?thesis
    proof (cases rule: flock_ex_nb_cases[of "root @ p" h1])
      case (taken h2)
      with Pair Inr n write_lock_record_frame[OF assms, of L i h2] show ?thesis
        by (auto simp: lock_acquire_def split: prod.splits sum.splits)
    next
      case busy
      with Pair Inr n show ?thesis
        by (auto simp: lock_acquire_def dest: read_lock_same split: prod.splits sum.splits)
    next
      case fault
      with Pair Inr n show ?thesis by (simp add: lock_acquire_def)
    qed
  qed
qed

lemma lock_acquire_guard: "lock_acquire L root p i h = (Ok g, h') \<Longrightarrow> g = root @ p"
  using site_lock.acq_ok[of L root p i h g h'] by simp

text \<open>Everything of the host that is neither the tree, the call counter nor the lock table.\<close>

definition env' :: "host \<Rightarrow> (path \<Rightarrow> path option) \<times> (path \<Rightarrow> nat option) \<times> (nat \<Rightarrow> u64)
    \<times> (nat \<Rightarrow> bool) \<times> (nat \<Rightarrow> nat)" where
  "env' h = snd (env h)"

lemma env'_release [simp]: "env' (release p h) = env' h"
  by (simp add: env'_def env_def release_def)

lemma env'_env: "env h = env h' \<Longrightarrow> env' h = env' h'"
  by (simp add: env'_def)

lemma env'_flock [simp]: "env' (snd (flock_ex_nb p h)) = env' h"
  by (simp add: flock_ex_nb_def io_call_def env'_def env_def next_tick_def)

lemma env'_lock_acquire [host_frame, simp]: "env' (snd (lock_acquire L root p i h)) = env' h"
  unfolding lock_acquire_def
proof (rule try_io_keeps[where g = env'])
  show "env' (snd (open_or_create_file root p h)) = env' h" by (rule env'_env) simp
next
  fix x h'
  obtain r h1 where fl: "flock_ex_nb (root @ p) h' = (r, h1)" by fastforce
  then have 1: "env' h1 = env' h'" using env'_flock[of "root @ p" h'] by simp
  have 2: "env' (snd (read_lock L root p h1)) = env' h1"
    "env' (snd (write_lock_record L (root @ p) i h1)) = env' h1"
    by (rule env'_env; simp)+
  from fl 1 2 show "env' (snd (case flock_ex_nb (root @ p) h' of
          (Inl e, h) \<Rightarrow>
            (if e = IoWouldBlock
             then (case read_lock L root p h of
                     (Inr (r, held_for), h) \<Rightarrow> (Err (Held (Some (lr_holder r)) held_for), h)
                   | (Inl _, h) \<Rightarrow> (Err (Held None 0), h))
             else (Err Lock_Io, h))
        | (Inr _, h) \<Rightarrow>
            (case write_lock_record L (root @ p) i h of
               (Inl e, h) \<Rightarrow> (Err e, release (root @ p) h)
             | (Inr _, h) \<Rightarrow> (Ok (root @ p), h)))) = env' h'"
    by (auto split: prod.splits sum.splits)
qed

text \<open>No kernel call fails from now on.\<close>

definition healthy :: "host \<Rightarrow> bool" where
  "healthy h = (\<forall>t. \<not> fails h t)"

lemma healthy_simps [simp]:
  "healthy (set_node p n h) = healthy h" "healthy (del_node p h) = healthy h"
  "healthy (next_tick h) = healthy h" "healthy (release p h) = healthy h"
  by (simp_all add: healthy_def)

lemma io_call_healthy [simp]: "healthy h \<Longrightarrow> io_call h f = f (next_tick h)"
  by (simp add: healthy_def io_call_def)

lemma healthy_env: "env h = env h' \<Longrightarrow> healthy h = healthy h'"
  by (simp add: healthy_def env_def)

lemma write_all_healthy: "healthy h \<Longrightarrow> write_all p old c h = (Ok (), set_node p (File (old @ c)) (next_tick h))"
  by (simp add: healthy_def write_all_def)

definition lock_file_ready :: "ManagedRoot \<Rightarrow> path \<Rightarrow> host \<Rightarrow> bool" where
  "lock_file_ready root p h = (parent_ok h (root @ p)
     \<and> node_at h (root @ p) \<noteq> Some Dir \<and> (\<forall>t. node_at h (root @ p) \<noteq> Some (Symlink t)))"

lemma open_or_create_ready:
  assumes "healthy h" and "lock_file_ready root p h"
  shows "\<exists>h'. open_or_create_file root p h = (Ok (), h') \<and> healthy h' \<and> flocked h' = flocked h"
  using assms
  by (auto simp: open_or_create_file_def open_append_def lock_file_ready_def
      split: option.splits node.splits)

text \<open>A free lock is granted whatever an earlier holder left in the file: no record of a dead
  holder, however recent, keeps the next one out.\<close>

lemma free_lock_granted:
  assumes "healthy h" and "lock_file_ready root p h" and "\<not> flocked h (root @ p)"
    and ser: "\<And>r. to_vec (cr_json L) LockRecord_json r \<noteq> None"
  shows "\<exists>h'. lock_acquire L root p i h = (Ok (root @ p), h') \<and> flocked h' (root @ p)"
proof -
  obtain h1 where o: "open_or_create_file root p h = (Ok (), h1)" "healthy h1" "flocked h1 = flocked h"
    using open_or_create_ready[OF assms(1,2)] by blast
  let ?h2 = "(next_tick h1)\<lparr>flocked := (flocked h1)(root @ p := True)\<rparr>"
  have fl: "flock_ex_nb (root @ p) h1 = (Ok (), ?h2)" and 2: "healthy ?h2"
    using o assms(3) by (simp_all add: flock_ex_nb_def) (simp add: healthy_def)
  obtain b where "lock_record_bytes L i ?h2 = Ok b"
    using ser by (fastforce simp: lock_record_bytes_def split: option.splits)
  then obtain h3 where w: "write_lock_record L (root @ p) i ?h2 = (Ok (), h3)"
    using 2 by (simp add: write_lock_record_def set_len_zero_def seek_start_def sync_all_def
        write_all_healthy)
  moreover from w have "flocked h3 (root @ p)"
    using flocked_write_lock_record[of L "root @ p" i ?h2] by simp
  ultimately show ?thesis using o fl by (simp add: lock_acquire_def)
qed

text \<open>Asking for the holder leaves the lock table alone and answers \<open>None\<close> only for a free lock.\<close>

lemma lock_holder_flocked: "flocked (snd (lock_holder L root p h)) = flocked h"
proof (cases rule: open_or_create_cases[of root p h])
  case (bad e h')
  then show ?thesis by (simp add: lock_holder_def)
next
  case o: (opened h1)
  show ?thesis
  proof (cases rule: flock_ex_nb_cases[of "root @ p" h1])
    case (taken h2)
    with o show ?thesis by (auto simp: lock_holder_def fun_eq_iff)
  next
    case busy
    with o show ?thesis
      by (auto simp: lock_holder_def dest: read_lock_same split: prod.splits sum.splits)
  next
    case fault
    with o show ?thesis by (simp add: lock_holder_def)
  qed
qed

lemma lock_holder_Ok:
  assumes "lock_holder L root p h = (Ok r, h')"
  shows "r = None \<longleftrightarrow> \<not> flocked h (root @ p)"
proof (cases rule: open_or_create_cases[of root p h])
  case (bad e h')
  with assms show ?thesis by (simp add: lock_holder_def)
next
  case o: (opened h1)
  show ?thesis
  proof (cases rule: flock_ex_nb_cases[of "root @ p" h1])
    case (taken h2)
    with o assms show ?thesis by (auto simp: lock_holder_def)
  next
    case busy
    with o assms show ?thesis
      by (auto simp: lock_holder_def split: prod.splits sum.splits)
  next
    case fault
    with o assms show ?thesis by (simp add: lock_holder_def)
  qed
qed

section \<open>Properties\<close>

text \<open>
  (C11) The site lock is exclusive. A grant means that nobody held the lock before and adds exactly
  this lock to the kernel's table; while it is held no other acquisition of the same file succeeds;
  a refusal changes no lock, and dropping the guard restores the table.
\<close>

theorem site_lock_exclusive:
  assumes "lock_acquire L root p holder h = (Ok g, h')"
  shows "\<not> flocked h (root @ p) \<and> flocked h' = (flocked h)(root @ p := True)
    \<and> (\<exists>e. fst (lock_acquire L' root p holder' h') = Err e)
    \<and> flocked (snd (lock_acquire L' root p holder' h')) = flocked h'
    \<and> flocked (release g h') = flocked h"
proof -
  obtain e h2 where second: "lock_acquire L' root p holder' h' = (Err e, h2)"
    using site_lock.no_second_grant[of h' root p L' holder'] site_lock.acq_ok[OF assms]
    by (cases "lock_acquire L' root p holder' h'") auto
  note ok = site_lock.acq_ok[OF assms]
  then have g: "g = root @ p" "\<not> flocked h (root @ p)" "flocked h' = (flocked h)(root @ p := True)" by auto
  from site_lock.acq_err[OF second] second g site_lock.release_undoes[OF assms] show ?thesis by auto
qed

definition example_lock_crates :: crates where
  "example_lock_crates = table_crates
     [LockRecord_json \<lparr> lr_schema_version = LOCK_SCHEMA_VERSION, lr_holder = example_id, lr_acquired_at = 0 \<rparr>]"

lemma example_lock_granted:
  "\<exists>h'. lock_acquire example_lock_crates [''s''] [''l''] example_id (example_host [([''s''], Dir)])
     = (Ok [''s'', ''l''], h')"
  by (simp add: example_lock_crates_def table_crates_def table_text_def lock_acquire_def
      open_or_create_file_def open_append_def io_call_def example_host_def parent_ok_def node_at_def
      flock_ex_nb_def write_lock_record_def lock_record_bytes_def to_vec_def unix_now_secs_def
      set_len_zero_def seek_start_def write_all_def sync_all_def set_node_def next_tick_def)

theorem site_lock_exclusive_witness:
  "\<exists>h'. lock_acquire example_lock_crates [''s''] [''l''] example_id (example_host [([''s''], Dir)])
       = (Ok [''s'', ''l''], h')
     \<and> (\<exists>e. fst (lock_acquire example_lock_crates [''s''] [''l''] example_id h') = Err e)"
proof -
  obtain h' where l: "lock_acquire example_lock_crates [''s''] [''l''] example_id
      (example_host [([''s''], Dir)]) = (Ok [''s'', ''l''], h')"
    using example_lock_granted by blast
  from site_lock_exclusive[OF l, of example_lock_crates example_id] l show ?thesis by blast
qed

text \<open>
  A dead holder never blocks the next one: when nobody holds the kernel lock and no call fails,
  the lock is granted whatever the lock file contains, a record of an earlier holder included.
\<close>

theorem stale_lock_file_is_granted:
  assumes "healthy h" and "parent_ok h (root @ p)" and "node_at h (root @ p) = Some (File stale)"
    and "\<not> flocked h (root @ p)" and "\<And>r. to_vec (cr_json L) LockRecord_json r \<noteq> None"
  shows "\<exists>h'. lock_acquire L root p holder h = (Ok (root @ p), h') \<and> flocked h' (root @ p)"
  using free_lock_granted[of h root p L holder] assms by (simp add: lock_file_ready_def)

theorem stale_lock_file_is_granted_witness:
  "\<exists>h'. lock_acquire \<lparr> cr_json = \<lparr> to_text = (\<lambda>_. Some []), of_text = (\<lambda>_. None) \<rparr>, cr_uuid = canonical_uuid \<rparr>
      [''s''] [''l''] example_id (example_host [([''s''], Dir), ([''s'', ''l''], File ''old'')])
    = (Ok [''s'', ''l''], h')"
proof -
  have "healthy (example_host t)" for t by (simp add: healthy_def example_host_def)
  from stale_lock_file_is_granted[OF this, of "[([''s''], Dir), ([''s'', ''l''], File ''old'')]"
      "[''s'']" "[''l'']" "''old''"
      "\<lparr> cr_json = \<lparr> to_text = (\<lambda>_. Some []), of_text = (\<lambda>_. None) \<rparr>, cr_uuid = canonical_uuid \<rparr>"
      example_id]
  show ?thesis by (auto simp: example_host_def parent_ok_def node_at_def to_vec_def)
qed

end
