(* ===== verification/Idempotency.thy ===== *)
theory Idempotency
  imports SiteLock
begin

unbundle bit_operations_syntax

text \<open>
  The idempotency index (\<open>src/src/transaction/idempotency.rs\<close>): one file per 64-bit FNV-1a hash of
  a key, holding the key itself and the request that claimed it.
\<close>

section \<open>The hash and the path\<close>

definition fnv1a :: "bytes \<Rightarrow> u64" where
  "fnv1a s = foldl (\<lambda>hash byte. (hash XOR of_nat (byte_of byte)) * 0x100000001b3) 0xcbf29ce484222325 s"

definition hex_digit :: "nat \<Rightarrow> char" where
  "hex_digit d = ''0123456789abcdef'' ! d"

text \<open>The format \<open>{:0kx}\<close> of a number below \<open>16 ^ k\<close>.\<close>

fun hex_fixed :: "nat \<Rightarrow> nat \<Rightarrow> string" where
  "hex_fixed 0 n = []"
| "hex_fixed (Suc k) n = hex_fixed k (n div 16) @ [hex_digit (n mod 16)]"

definition idempotency_dir :: path where
  "idempotency_dir = [''transactions'', ''idempotency'']"

definition index_path :: "IdempotencyKey \<Rightarrow> path" where
  "index_path key = idempotency_dir @ [hex_fixed 16 (unat (fnv1a key)) @ ''.json'']"

section \<open>Records\<close>

definition INDEX_SCHEMA_VERSION :: u32 where "INDEX_SCHEMA_VERSION = 1"

record IndexRecord =
  ix_schema_version :: u32
  ix_idempotency_key :: string
  ix_request_id :: RequestId
  ix_claimed_at :: u64

definition IndexRecord_json :: "IndexRecord \<Rightarrow> json" where
  "IndexRecord_json r = JObj
     [(''schemaVersion'', json_u32 (ix_schema_version r)),
      (''idempotencyKey'', JStr (ix_idempotency_key r)), (''requestId'', JStr (ix_request_id r)),
      (''claimedAtUnixSecs'', json_u64 (ix_claimed_at r))]"

definition IndexRecord_of_json :: "(string \<Rightarrow> uuid option) \<Rightarrow> json \<Rightarrow> IndexRecord option" where
  "IndexRecord_of_json parse_str v =
     Option.bind (as_obj v) (\<lambda>kvs.
     Option.bind (req as_u32 (field_of ''schemaVersion'' kvs)) (\<lambda>sv.
     Option.bind (req as_str (field_of ''idempotencyKey'' kvs)) (\<lambda>k.
     Option.bind (req (uuid_of_json parse_str) (field_of ''requestId'' kvs)) (\<lambda>i.
     Option.bind (dflt 0 as_u64 (field_of ''claimedAtUnixSecs'' kvs)) (\<lambda>at.
       Some \<lparr> ix_schema_version = sv, ix_idempotency_key = k, ix_request_id = i,
         ix_claimed_at = at \<rparr>)))))"

definition new_index_record :: "IdempotencyKey \<Rightarrow> RequestId \<Rightarrow> host \<Rightarrow> IndexRecord" where
  "new_index_record key request_id h =
     \<lparr> ix_schema_version = INDEX_SCHEMA_VERSION, ix_idempotency_key = key,
       ix_request_id = request_id, ix_claimed_at = unix_now_secs h \<rparr>"

datatype Resolution = Claimed | AlreadyClaimed RequestId

datatype IndexError = HashCollision | Index_Io

section \<open>Operations\<close>

definition decode_index :: "crates \<Rightarrow> bytes \<Rightarrow> IndexRecord option" where
  "decode_index L json = from_slice (cr_json L) (IndexRecord_of_json (cr_uuid L)) json"

definition resolve_existing ::
  "crates \<Rightarrow> ManagedRoot \<Rightarrow> path \<Rightarrow> IdempotencyKey \<Rightarrow> host \<Rightarrow> (IndexError + Resolution) \<times> host" where
  "resolve_existing L root p key h =
     try_io (read_to_string root p h) (\<lambda>_. Index_Io) (\<lambda>json h.
       (case decode_index L json of
          None \<Rightarrow> (Err Index_Io, h)
        | Some existing \<Rightarrow>
            if ix_schema_version existing \<noteq> INDEX_SCHEMA_VERSION then (Err Index_Io, h)
            else if ix_idempotency_key existing = key
            then (Ok (AlreadyClaimed (ix_request_id existing)), h)
            else (Err HashCollision, h)))"

text \<open>The end of \<open>claim\<close>, once the directory is there and the record has its bytes.\<close>

definition claim_file ::
  "crates \<Rightarrow> ManagedRoot \<Rightarrow> IdempotencyKey \<Rightarrow> bytes \<Rightarrow> host \<Rightarrow> (IndexError + Resolution) \<times> host" where
  "claim_file L root key b h =
     (case create_new root (index_path key) b h of
        (Inr _, h) \<Rightarrow> (Ok Claimed, h)
      | (Inl e, h) \<Rightarrow>
          (if e = IoAlreadyExists then resolve_existing L root (index_path key) key h
           else (Err Index_Io, h)))"

definition claim ::
  "crates \<Rightarrow> ManagedRoot \<Rightarrow> IdempotencyKey \<Rightarrow> RequestId \<Rightarrow> host \<Rightarrow> (IndexError + Resolution) \<times> host" where
  "claim L root key request_id h =
     try_io (create_dir_all root idempotency_dir h) (\<lambda>_. Index_Io) (\<lambda>_ h.
       (case to_vec (cr_json L) IndexRecord_json (new_index_record key request_id h) of
          None \<Rightarrow> (Err Index_Io, h)
        | Some b \<Rightarrow> claim_file L root key b h))"

definition index_remove :: "ManagedRoot \<Rightarrow> IdempotencyKey \<Rightarrow> host \<Rightarrow> (IndexError + unit) \<times> host" where
  "index_remove root key h =
     (case remove_file root (index_path key) h of
        (Inr _, h) \<Rightarrow> (Ok (), h)
      | (Inl e, h) \<Rightarrow> (if e = IoNotFound then (Ok (), h) else (Err Index_Io, h)))"

definition reclaim ::
  "crates \<Rightarrow> ManagedRoot \<Rightarrow> IdempotencyKey \<Rightarrow> RequestId \<Rightarrow> host \<Rightarrow> (IndexError + unit) \<times> host" where
  "reclaim L root key request_id h =
     (case to_vec (cr_json L) IndexRecord_json (new_index_record key request_id h) of
        None \<Rightarrow> (Err Index_Io, h)
      | Some b \<Rightarrow> apfst (map_err (\<lambda>_. Index_Io)) (write_atomic root (index_path key) b h))"

record ClaimEntry =
  ce_path :: path
  ce_request_id :: RequestId
  ce_claimed_at :: u64

fun list_entries :: "crates \<Rightarrow> ManagedRoot \<Rightarrow> string list \<Rightarrow> host \<Rightarrow> ClaimEntry list \<times> host" where
  "list_entries L root [] h = ([], h)"
| "list_entries L root (name # names) h =
     (if \<not> ends_with name ''.json'' then list_entries L root names h
      else (case SiteRelativePath_parse (''transactions/idempotency/'' @ name) of
              Inl _ \<Rightarrow> list_entries L root names h
            | Inr p \<Rightarrow>
                (case read_to_string root p h of
                   (Inl _, h) \<Rightarrow> list_entries L root names h
                 | (Inr json, h) \<Rightarrow>
                     (case decode_index L json of
                        None \<Rightarrow> list_entries L root names h
                      | Some r \<Rightarrow> apfst (Cons \<lparr> ce_path = p, ce_request_id = ix_request_id r,
                                     ce_claimed_at = ix_claimed_at r \<rparr>)
                                   (list_entries L root names h)))))"

definition index_list :: "crates \<Rightarrow> ManagedRoot \<Rightarrow> host \<Rightarrow> ClaimEntry list \<times> host" where
  "index_list L root h =
     (case open_managed_dir root idempotency_dir h of
        (Inl _, h) \<Rightarrow> ([], h)
      | (Inr dir, h) \<Rightarrow>
          (case file_names dir h of
             (Inl _, h) \<Rightarrow> ([], h)
           | (Inr names, h) \<Rightarrow> list_entries L root names h))"

text \<open>The arm for \<open>Claimed\<close> is \<open>unreachable!\<close> in the source; \<open>lookup_never_panics\<close> below.\<close>

datatype 'a or_panic = Returns 'a | Panics

definition index_lookup ::
  "crates \<Rightarrow> ManagedRoot \<Rightarrow> IdempotencyKey \<Rightarrow> host \<Rightarrow> (IndexError + RequestId option) or_panic \<times> host" where
  "index_lookup L root key h =
     (case exists_path root (index_path key) h of
        (False, h) \<Rightarrow> (Returns (Ok None), h)
      | (True, h) \<Rightarrow>
          (case resolve_existing L root (index_path key) key h of
             (Inl e, h) \<Rightarrow> (Returns (Err e), h)
           | (Inr (AlreadyClaimed r), h) \<Rightarrow> (Returns (Ok (Some r)), h)
           | (Inr Claimed, h) \<Rightarrow> (Panics, h)))"

section \<open>Paths\<close>

lemma hex_digit_cases: "d < 16 \<Longrightarrow> hex_digit d \<in> set ''0123456789abcdef''"
  unfolding hex_digit_def by (rule nth_mem) simp

lemma hex_digit_inj: "d < 16 \<Longrightarrow> e < 16 \<Longrightarrow> hex_digit d = hex_digit e \<Longrightarrow> d = e"
  unfolding hex_digit_def by (subst (asm) nth_eq_iff_index_eq) auto

lemma length_hex_fixed [simp]: "length (hex_fixed k n) = k"
  by (induction k arbitrary: n) auto

lemma hex_fixed_inj:
  "m < 16 ^ k \<Longrightarrow> n < 16 ^ k \<Longrightarrow> hex_fixed k m = hex_fixed k n \<Longrightarrow> m = n"
proof (induction k arbitrary: m n)
  case (Suc k)
  then have "hex_fixed k (m div 16) = hex_fixed k (n div 16)" and "hex_digit (m mod 16) = hex_digit (n mod 16)"
    by auto
  moreover have "m div 16 < 16 ^ k" "n div 16 < 16 ^ k" using Suc.prems by auto
  ultimately have "m div 16 = n div 16" and "m mod 16 = n mod 16"
    using Suc.IH[of "m div 16" "n div 16"] hex_digit_inj[of "m mod 16" "n mod 16"] by auto
  then show ?case by (metis div_mod_decomp)
qed simp

lemma hex_fixed_name_chars: "list_all name_char (hex_fixed k n)"
proof (induction k arbitrary: n)
  case (Suc k)
  have "name_char (hex_digit (n mod 16))"
    using hex_digit_cases[of "n mod 16"] by (auto simp: name_char_def)
  with Suc show ?case by simp
qed simp

lemma index_path_eq_iff: "index_path k = index_path k' \<longleftrightarrow> fnv1a k = fnv1a k'"
proof
  assume "index_path k = index_path k'"
  then have eq: "hex_fixed 16 (unat (fnv1a k)) = hex_fixed 16 (unat (fnv1a k'))"
    by (simp add: index_path_def)
  have bound: "unat w < 16 ^ 16" for w :: u64
    using unsigned_less[of w] by simp
  from hex_fixed_inj[OF bound bound eq] have "unat (fnv1a k) = unat (fnv1a k')" .
  then show "fnv1a k = fnv1a k'" by (rule unsigned_word_eqI)
qed (simp add: index_path_def)

lemma safe_literals [simp]:
  "safe_component ''transactions''" "safe_component ''idempotency''"
  by (simp_all add: safe_component_def)

text \<open>The path is what the source formats and parses, so its \<open>expect\<close> never fires.\<close>

lemma index_path_parse:
  "SiteRelativePath_parse (''transactions/idempotency/'' @ hex_fixed 16 (unat (fnv1a key)) @ ''.json'')
     = Ok (index_path key)"
proof -
  have "safe_component (hex_fixed 16 (unat (fnv1a key)) @ ''.json'')"
    by (rule safe_component_append) (simp_all add: hex_fixed_name_chars name_char_def del: hex_fixed.simps)
  then show ?thesis
    using SiteRelativePath_parse_join[of "[''transactions'', ''idempotency'', hex_fixed 16 (unat (fnv1a key)) @ ''.json'']"]
    by (simp add: index_path_def idempotency_dir_def del: hex_fixed.simps)
qed

lemma index_path_not_Nil [simp]: "index_path key \<noteq> []"
  by (simp add: index_path_def)

section \<open>What the index holds\<close>

interpretation ix_json: json_record IndexRecord_json "IndexRecord_of_json parse_str"
  "\<lambda>r. uuid_parse_ok parse_str \<and> uuid_wf (ix_request_id r)" for parse_str
  by unfold_locales
     (simp add: IndexRecord_json_def IndexRecord_of_json_def field_of_def uuid_of_json_JStr)

text \<open>The record at a key's path, and the request that owns the key.\<close>

definition index_at :: "crates \<Rightarrow> ManagedRoot \<Rightarrow> host \<Rightarrow> IdempotencyKey \<Rightarrow> IndexRecord option" where
  "index_at L root h key = Option.bind (file_at root h (index_path key)) (\<lambda>b.
     if utf8_ok b then decode_index L b else None)"

definition owner :: "crates \<Rightarrow> ManagedRoot \<Rightarrow> host \<Rightarrow> IdempotencyKey \<Rightarrow> RequestId option" where
  "owner L root h key = (case index_at L root h key of
     Some r \<Rightarrow> if ix_schema_version r = INDEX_SCHEMA_VERSION \<and> ix_idempotency_key r = key
               then Some (ix_request_id r) else None
   | None \<Rightarrow> None)"

lemma decode_index_encoded:
  assumes "crates_ok L" and "uuid_wf (ix_request_id r)"
    and "to_vec (cr_json L) IndexRecord_json r = Some b"
  shows "decode_index L b = Some r" and "utf8_ok b"
  using ix_json.text_round_trip[of "cr_json L" "cr_uuid L" r b] assms
  by (simp_all add: decode_index_def crates_ok_def)

lemma owner_cong: "file_at root h (index_path k) = file_at root h' (index_path k) \<Longrightarrow>
    owner L root h k = owner L root h' k"
  by (simp add: owner_def index_at_def)

lemma resolve_existing_cases:
  assumes "resolve_existing L root (index_path key) key h = (r, h')"
  shows "node_at h' = node_at h" "env h' = env h"
    and "r = Ok res \<Longrightarrow> \<exists>i. res = AlreadyClaimed i \<and> owner L root h key = Some i"
    and "r = Err HashCollision \<Longrightarrow> \<exists>x. index_at L root h key = Some x \<and> ix_idempotency_key x \<noteq> key"
proof -
  obtain a h1 where rd: "read_to_string root (index_path key) h = (a, h1)" by fastforce
  then have n: "node_at h1 = node_at h" "env h1 = env h"
    using node_at_read_only(1)[of root "index_path key" h] env_calls(1)[of root "index_path key" h] by simp_all
  with rd assms show "node_at h' = node_at h" "env h' = env h"
    by (auto simp: resolve_existing_def split: sum.splits option.splits if_splits elim!: try_io_cases)
       (cases a; auto simp: resolve_existing_def split: option.splits if_splits)+
  have f: "a = Ok b \<Longrightarrow> file_at root h (index_path key) = Some b \<and> utf8_ok b" for b
    using rd by (auto simp: read_to_string_def io_call_def file_at_def
        split: option.splits node.splits if_splits)
  from rd assms f show "r = Ok res \<Longrightarrow> \<exists>i. res = AlreadyClaimed i \<and> owner L root h key = Some i"
    by (cases a) (auto simp: resolve_existing_def owner_def index_at_def split: option.splits if_splits)
  from rd assms f show "r = Err HashCollision \<Longrightarrow>
      \<exists>x. index_at L root h key = Some x \<and> ix_idempotency_key x \<noteq> key"
    by (cases a) (auto simp: resolve_existing_def index_at_def split: option.splits if_splits)
qed

lemma claim_file_cases:
  obtains (failed) e h' where "claim_file L root key b h = (Err e, h')"
      "\<And>q. q \<noteq> index_path key \<Longrightarrow> file_at root h' q = file_at root h q"
      "file_at root h (index_path key) \<noteq> None \<Longrightarrow> file_at root h' = file_at root h"
      "e = HashCollision \<Longrightarrow> \<exists>x. index_at L root h key = Some x \<and> ix_idempotency_key x \<noteq> key"
  | (fresh) h' where "claim_file L root key b h = (Ok Claimed, h')"
      "file_at root h (index_path key) = None"
      "file_at root h' = (file_at root h)(index_path key \<mapsto> b)"
  | (already) j h' where "claim_file L root key b h = (Ok (AlreadyClaimed j), h')"
      "owner L root h key = Some j" "file_at root h' = file_at root h"
proof (cases rule: create_new_cases[of root "index_path key" b h])
  case (created h')
  with fresh show ?thesis by (simp add: claim_file_def)
next
  case (fault e h')
  then have "claim_file L root key b h = (Err Index_Io, h')" by (simp add: claim_file_def)
  from failed[OF this fault(3,4)] show ?thesis by simp
next
  case ex: (exists h2)
  obtain d h3 where rs: "resolve_existing L root (index_path key) key h2 = (d, h3)" by fastforce
  note rc = resolve_existing_cases[OF rs]
  have f2: "file_at root h2 = file_at root h" using ex(2) by (rule file_at_cong)
  have f3: "file_at root h3 = file_at root h"
    using file_at_cong[OF rc(1), of root] f2 by simp
  have same: "owner L root h2 key = owner L root h key" "index_at L root h2 key = index_at L root h key"
    by (simp_all add: owner_def index_at_def f2)
  have cl: "claim_file L root key b h = (d, h3)" using ex(1) rs by (simp add: claim_file_def)
  show ?thesis
  proof (cases d)
    case (Inl e)
    from failed[OF cl[unfolded Inl]] rc(4) same(2) f3 Inl show ?thesis by simp
  next
    case (Inr res)
    with rc(3)[of res] obtain j where "res = AlreadyClaimed j" "owner L root h2 key = Some j" by auto
    with already[of j h3] cl Inr f3 same(1) show ?thesis by simp
  qed
qed

lemma claim_cases:
  obtains (failed) e h' where "claim L root key i h = (Err e, h')"
      "\<And>q. q \<noteq> index_path key \<Longrightarrow> file_at root h' q = file_at root h q"
      "file_at root h (index_path key) \<noteq> None \<Longrightarrow> file_at root h' = file_at root h"
      "e = HashCollision \<Longrightarrow> \<exists>x. index_at L root h key = Some x \<and> ix_idempotency_key x \<noteq> key"
  | (fresh) b h' h1 where "claim L root key i h = (Ok Claimed, h')"
      "file_at root h (index_path key) = None"
      "to_vec (cr_json L) IndexRecord_json (new_index_record key i h1) = Some b"
      "file_at root h' = (file_at root h)(index_path key \<mapsto> b)"
  | (already) j h' where "claim L root key i h = (Ok (AlreadyClaimed j), h')"
      "owner L root h key = Some j" "file_at root h' = file_at root h"
proof (cases "create_dir_all root idempotency_dir h")
  case (Pair a h1)
  then have f1: "file_at root h1 = file_at root h"
    using file_at_create_dir_all[of root root idempotency_dir h] by simp
  have same: "owner L root h1 key = owner L root h key" "index_at L root h1 key = index_at L root h key"
    by (simp_all add: owner_def index_at_def f1)
  show ?thesis
  proof (cases "a = Ok () \<and> to_vec (cr_json L) IndexRecord_json (new_index_record key i h1) \<noteq> None")
    case False
    then have "claim L root key i h = (Err Index_Io, h1)"
      using Pair by (cases a) (auto simp: claim_def)
    from failed[OF this] f1 show ?thesis by simp
  next
    case True
    then obtain b where b: "to_vec (cr_json L) IndexRecord_json (new_index_record key i h1) = Some b"
      and cl: "claim L root key i h = claim_file L root key b h1"
      using Pair by (auto simp: claim_def)
    show ?thesis
    proof (cases rule: claim_file_cases[of L root key b h1])
      case (failed e h')
      from that(1)[of e h'] cl failed same f1 show ?thesis by simp
    next
      case (fresh h')
      from that(2)[of h' h1 b] cl fresh b f1 show ?thesis by simp
    next
      case (already j h')
      from that(3)[of j h'] cl already same f1 show ?thesis by simp
    qed
  qed
qed

section \<open>The laws of the index\<close>

lemma new_index_owner:
  assumes "crates_ok L" and "uuid_wf i"
    and "to_vec (cr_json L) IndexRecord_json (new_index_record key i h1) = Some b"
    and "file_at root h (index_path key) = Some b"
  shows "owner L root h key = Some i"
  using decode_index_encoded[of L "new_index_record key i h1" b] assms
  by (simp add: owner_def index_at_def new_index_record_def)

lemma claim_Claimed:
  assumes "claim L root key i h = (Ok Claimed, h')" and "crates_ok L" and "uuid_wf i"
  shows "file_at root h (index_path key) = None" and "owner L root h' key = Some i"
    and "\<And>q. q \<noteq> index_path key \<Longrightarrow> file_at root h' q = file_at root h q"
  using assms new_index_owner[OF assms(2,3), of key _ _ root h']
  by (cases rule: claim_cases[of L root key i h]; force)+

lemma owner_file: "owner L root h key = Some j \<Longrightarrow> file_at root h (index_path key) \<noteq> None"
  by (cases "file_at root h (index_path key)") (auto simp: owner_def index_at_def)

lemma claim_owned:
  assumes "owner L root h key = Some j"
  shows "fst (claim L root key i h) \<in> {Ok (AlreadyClaimed j), Err Index_Io}"
    and "file_at root (snd (claim L root key i h)) = file_at root h"
proof -
  have ix: "index_at L root h key = Some x \<Longrightarrow> ix_idempotency_key x = key" for x
    using assms by (auto simp: owner_def split: option.splits if_splits)
  show "fst (claim L root key i h) \<in> {Ok (AlreadyClaimed j), Err Index_Io}"
  proof (cases rule: claim_cases[of L root key i h])
    case (failed e h')
    with ix show ?thesis by (cases e) auto
  qed (use assms owner_file[OF assms] in auto)
  show "file_at root (snd (claim L root key i h)) = file_at root h"
    using owner_file[OF assms] by (cases rule: claim_cases[of L root key i h]) auto
qed

lemma claim_AlreadyClaimed:
  assumes "claim L root key i h = (Ok (AlreadyClaimed j), h')"
  shows "owner L root h key = Some j" and "file_at root h' = file_at root h"
  using assms by (cases rule: claim_cases[of L root key i h]; simp)+

lemma claim_frame:
  "q \<noteq> index_path key \<Longrightarrow> file_at root (snd (claim L root key i h)) q = file_at root h q"
  by (cases rule: claim_cases[of L root key i h]) auto

text \<open>Two keys with the same hash: the second is refused, and the first keeps its claim.\<close>

lemma claim_collision:
  assumes "owner L root h key = Some j" and "key' \<noteq> key" and "fnv1a key' = fnv1a key"
  shows "fst (claim L root key' i h) \<in> {Err HashCollision, Err Index_Io}"
    and "owner L root (snd (claim L root key' i h)) key = Some j"
proof -
  have p: "index_path key' = index_path key" using assms(3) by (simp add: index_path_eq_iff)
  then have same: "index_at L root h key' = index_at L root h key" by (simp add: index_at_def)
  then have no: "owner L root h key' = None"
    using assms(1,2) by (auto simp: owner_def split: option.splits if_splits)
  show "fst (claim L root key' i h) \<in> {Err HashCollision, Err Index_Io}"
  proof (cases rule: claim_cases[of L root key' i h])
    case (failed e h')
    then show ?thesis by (cases e) auto
  qed (use no p owner_file[OF assms(1)] in auto)
  have "file_at root (snd (claim L root key' i h)) = file_at root h"
    using owner_file[OF assms(1)] p by (cases rule: claim_cases[of L root key' i h]) auto
  with assms(1) show "owner L root (snd (claim L root key' i h)) key = Some j"
    using owner_cong[of root "snd (claim L root key' i h)" key h L] by simp
qed

lemma reclaim_Ok:
  assumes "reclaim L root key i h = (Ok (), h')" and "crates_ok L" and "uuid_wf i"
  shows "owner L root h' key = Some i"
proof -
  from assms(1) obtain b where b: "to_vec (cr_json L) IndexRecord_json (new_index_record key i h) = Some b"
    and w: "write_atomic root (index_path key) b h = (Ok (), h')"
    by (cases "to_vec (cr_json L) IndexRecord_json (new_index_record key i h)")
       (auto simp: reclaim_def apfst_def map_prod_def split: prod.splits)
  from managed.replace_ok[OF _ w] b assms(2,3) show ?thesis by (auto intro: new_index_owner)
qed

text \<open>Reclaiming replaces the file atomically: at every failure the old claim is still readable.\<close>

lemma reclaim_atomic:
  assumes "crates_ok L" and "uuid_wf i"
  shows "owner L root (snd (reclaim L root key i h)) key \<in> {owner L root h key, Some i}"
proof (cases "to_vec (cr_json L) IndexRecord_json (new_index_record key i h)")
  case None
  then show ?thesis by (simp add: reclaim_def)
next
  case (Some b)
  let ?h' = "snd (write_atomic root (index_path key) b h)"
  from managed.replace_atomic[of "index_path key" root b h]
  consider "file_at root ?h' (index_path key) = file_at root h (index_path key)"
    | "file_at root ?h' (index_path key) = Some b" by auto
  then show ?thesis
    using Some new_index_owner[OF assms Some, of root ?h'] owner_cong[of root ?h' key h L]
    by cases (simp_all add: reclaim_def)
qed

lemma index_env [host_frame, simp]:
  "env (snd (resolve_existing L root p key h)) = env h"
  "env (snd (index_remove root key h)) = env h"
  "env (snd (reclaim L root key i h)) = env h"
proof -
  show "env (snd (resolve_existing L root p key h)) = env h"
    by (auto simp: resolve_existing_def intro!: try_io_keeps[where g = env] split: option.splits)
  obtain r h1 where "remove_file root (index_path key) h = (r, h1)" by fastforce
  moreover from this have "env h1 = env h" using env_calls(16)[of root "index_path key" h] by simp
  ultimately show "env (snd (index_remove root key h)) = env h"
    by (simp add: index_remove_def split: sum.splits)
  show "env (snd (reclaim L root key i h)) = env h"
    by (simp add: reclaim_def split: option.splits)
qed

lemma claim_file_env [host_frame, simp]: "env (snd (claim_file L root key b h)) = env h"
proof -
  obtain r h1 where c: "create_new root (index_path key) b h = (r, h1)" by fastforce
  then have "env h1 = env h" using env_composed(2)[of root "index_path key" b h] by simp
  with c show ?thesis by (simp add: claim_file_def split: sum.splits)
qed

lemma claim_env [host_frame, simp]: "env (snd (claim L root key i h)) = env h"
  by (auto simp: claim_def intro!: try_io_keeps[where g = env] split: option.splits)

lemma lookup_never_panics: "fst (index_lookup L root key h) \<noteq> Panics"
proof -
  obtain e h1 where x: "exists_path root (index_path key) h = (e, h1)" by fastforce
  obtain r h2 where rs: "resolve_existing L root (index_path key) key h1 = (r, h2)" by fastforce
  from resolve_existing_cases(3)[OF rs] x rs show ?thesis
    by (cases r; cases e) (auto simp: index_lookup_def)
qed

section \<open>The index as an interface\<close>

text \<open>
  What preflight relies on: a fresh claim is granted only to an unowned key and is then owned, a
  refused claim names the owner, and no claim moves an owned key. \<open>run_claims\<close> is a sequence of
  claims of one key by several requests.
\<close>

fun run_claims :: "('k \<Rightarrow> 'r \<Rightarrow> 'w \<Rightarrow> 'a \<times> 'w) \<Rightarrow> 'k \<Rightarrow> 'r list \<Rightarrow> 'w \<Rightarrow> 'a list \<times> 'w" where
  "run_claims clm k [] w = ([], w)"
| "run_claims clm k (i # is) w =
     (case clm k i w of (r, w) \<Rightarrow> apfst (Cons r) (run_claims clm k is w))"

locale claim_index =
  fixes own :: "'w \<Rightarrow> 'k \<Rightarrow> RequestId option"
    and clm :: "'k \<Rightarrow> RequestId \<Rightarrow> 'w \<Rightarrow> ('e + Resolution) \<times> 'w"
    and good :: "RequestId \<Rightarrow> bool"
  assumes clm_fresh: "good i \<Longrightarrow> clm k i w = (Ok Claimed, w') \<Longrightarrow> own w k = None \<and> own w' k = Some i"
    and clm_already: "clm k i w = (Ok (AlreadyClaimed j), w') \<Longrightarrow> own w k = Some j"
    and clm_keeps: "own w k = Some j \<Longrightarrow> own (snd (clm k i w)) k = Some j"
begin

lemma owned_result:
  assumes "own w k = Some j" and "good i"
  shows "fst (clm k i w) = Ok (AlreadyClaimed j) \<or> (\<exists>e. fst (clm k i w) = Err e)"
proof (cases "clm k i w")
  case (Pair r w')
  show ?thesis
  proof (cases r)
    case (Inr res)
    with Pair assms clm_fresh[of i k w w'] clm_already[of k i w _ w'] show ?thesis by (cases res) auto
  qed (use Pair in auto)
qed

lemma owned_run:
  assumes "own w k = Some j" and "list_all good is"
  shows "\<forall>r \<in> set (fst (run_claims clm k is w)). r = Ok (AlreadyClaimed j) \<or> (\<exists>e. r = Err e)"
  using assms
proof (induction "is" arbitrary: w)
  case (Cons i js)
  obtain r w' where c: "clm k i w = (r, w')" by fastforce
  with Cons.prems clm_keeps[of w k j i] have "own w' k = Some j" by simp
  with Cons c owned_result[of w k j i] show ?case by auto
qed simp

lemma single_winner:
  assumes "list_all good is" and "m < length is" and "fst (run_claims clm k is w) ! m = Ok Claimed"
    and "n < length is" and "n \<noteq> m"
  shows "(m < n \<and> fst (run_claims clm k is w) ! n = Ok (AlreadyClaimed (is ! m)))
    \<or> (\<exists>e. fst (run_claims clm k is w) ! n = Err e)"
  using assms
proof (induction "is" arbitrary: w m n)
  case (Cons i js)
  obtain r w' where c: "clm k i w = (r, w')" by fastforce
  have len: "length (fst (run_claims clm k js w')) = length js" for w'
    by (induction js arbitrary: w') (auto split: prod.splits)
  show ?case
  proof (cases m)
    case 0
    with Cons.prems c obtain n' where n: "n = Suc n'" "n' < length js" by (cases n) auto
    from 0 Cons.prems c clm_fresh[of i k w w'] have "own w' k = Some i" by simp
    with owned_run[of w' k i js] Cons.prems n len c 0 show ?thesis
      by (auto dest!: bspec[where x = "fst (run_claims clm k js w') ! n'"])
  next
    case (Suc m')
    show ?thesis
    proof (cases n)
      case 0
      have "\<not> (\<exists>res. r = Ok res)"
      proof
        assume "\<exists>res. r = Ok res"
        then obtain res where res: "r = Ok res" ..
        have "\<exists>j. own w' k = Some j"
          using c res Cons.prems(1) clm_fresh[of i k w w'] clm_already[of k i w _ w'] clm_keeps[of w k _ i]
          by (cases res) auto
        then obtain j where "own w' k = Some j" ..
        with owned_run[of w' k j js] Cons.prems Suc c len[of w'] show False
          by (auto dest!: bspec[where x = "Ok Claimed"] simp: in_set_conv_nth)
      qed
      with 0 c show ?thesis by (cases r) auto
    next
      case (Suc n')
      with Cons c \<open>m = Suc m'\<close> show ?thesis by auto
    qed
  qed
qed simp

end

interpretation site_index: claim_index "owner L root" "claim L root" "\<lambda>i. crates_ok L \<and> uuid_wf i"
  for L root
proof unfold_locales
  show "crates_ok L \<and> uuid_wf i \<Longrightarrow> claim L root k i w = (Ok Claimed, w') \<Longrightarrow>
      owner L root w k = None \<and> owner L root w' k = Some i" for i k w w'
    using claim_Claimed(1,2)[of L root k i w w'] owner_file[of L root w k]
    by (cases "owner L root w k") auto
  show "claim L root k i w = (Ok (AlreadyClaimed j), w') \<Longrightarrow> owner L root w k = Some j" for i j k w w'
    by (rule claim_AlreadyClaimed(1))
  show "owner L root w k = Some j \<Longrightarrow> owner L root (snd (claim L root k i w)) k = Some j" for i j k w
    using claim_owned(2)[of L root w k j i] owner_cong[of root "snd (claim L root k i w)" k w L] by simp
qed

section \<open>Properties\<close>

text \<open>
  (C12) Among any sequence of requests that claim one idempotency key, at most one is told that the
  key is its own; every later request is told that request's id or gets an error, and every earlier
  one got an error, whatever calls fail in between.
\<close>

theorem one_claim_wins:
  assumes "crates_ok L" and "list_all uuid_wf requests"
    and "m < length requests" and "n < length requests" and "n \<noteq> m"
    and "fst (run_claims (claim L root) key requests h) ! m = Ok Claimed"
  shows "(m < n \<and> fst (run_claims (claim L root) key requests h) ! n = Ok (AlreadyClaimed (requests ! m)))
    \<or> (\<exists>e. fst (run_claims (claim L root) key requests h) ! n = Err e)"
proof -
  have "list_all (\<lambda>i. crates_ok L \<and> uuid_wf i) requests" using assms(1,2) by (simp add: list_all_iff)
  from site_index.single_winner[OF this assms(3,6,4,5)] show ?thesis .
qed

definition example_key :: IdempotencyKey where "example_key = ''77kepQFQ8Kl''"
definition example_key' :: IdempotencyKey where "example_key' = ''!0IC=VloaY''"
definition example_id2 :: uuid where "example_id2 = ''0190163d-8694-739b-aea5-966c26f8ad92''"

lemma example_id2_wf [simp]: "uuid_wf example_id2"
  by code_simp

text \<open>The two printable keys have the same hash, so they meet at one path.\<close>

lemma example_keys_hash: "fnv1a example_key = 0" "fnv1a example_key' = 0"
  by code_simp+

definition example_index_crates :: crates where
  "example_index_crates = table_crates
     [IndexRecord_json (new_index_record example_key example_id (example_host [])),
      IndexRecord_json (new_index_record example_key example_id2 (example_host [])),
      IndexRecord_json (new_index_record example_key' example_id2 (example_host []))]"

theorem one_claim_wins_witness:
  "fst (run_claims (claim example_index_crates [''s'']) example_key [example_id, example_id2]
      (example_host [([''s''], Dir)])) ! 1 = Ok (AlreadyClaimed example_id)"
proof -
  let ?rs = "fst (run_claims (claim example_index_crates [''s'']) example_key [example_id, example_id2]
      (example_host [([''s''], Dir)]))"
  have first: "?rs ! 0 = Ok Claimed" and second: "is_ok (?rs ! 1)"
    by code_simp+
  have c: "crates_ok example_index_crates" by (simp add: example_index_crates_def)
  have "list_all uuid_wf [example_id, example_id2]" by simp
  from one_claim_wins[OF c this, of 0 1 "[''s'']" example_key "example_host [([''s''], Dir)]"] first second
  show ?thesis by (auto simp: is_ok_iff)
qed

text \<open>
  Two different keys with the same 64-bit hash never share a claim: the second is refused with
  an error and the claim of the first is still readable afterwards.
\<close>

theorem collision_is_refused:
  assumes "owner L root h key = Some j" and "key' \<noteq> key" and "fnv1a key' = fnv1a key"
  shows "fst (claim L root key' i h) \<in> {Err HashCollision, Err Index_Io}
    \<and> owner L root (snd (claim L root key' i h)) key = Some j"
  using claim_collision[OF assms] by blast

theorem collision_is_refused_witness:
  "let h = snd (claim example_index_crates [''s''] example_key example_id (example_host [([''s''], Dir)]))
   in owner example_index_crates [''s''] h example_key = Some example_id
     \<and> fst (claim example_index_crates [''s''] example_key' example_id2 h) \<in> {Err HashCollision, Err Index_Io}"
proof -
  let ?h = "snd (claim example_index_crates [''s''] example_key example_id (example_host [([''s''], Dir)]))"
  have 1: "owner example_index_crates [''s''] ?h example_key = Some example_id" by code_simp
  have 2: "example_key' \<noteq> example_key" by (simp add: example_key_def example_key'_def)
  have 3: "fnv1a example_key' = fnv1a example_key" by (simp add: example_keys_hash)
  from collision_is_refused[OF 1 2 3, of example_id2] 1 show ?thesis by (simp add: Let_def)
qed

end
