(* ===== verification/Prune.thy ===== *)
theory Prune
  imports Idempotency
begin

text \<open>
  The retention sweep (\<open>src/src/transaction/prune.rs\<close>) that every mutation attempt runs first:
  old finished transactions with what belongs to them, then old claims without a transaction.
\<close>

section \<open>Paths\<close>

text \<open>
  \<open>SiteRelativePath::parse(..).expect(..)\<close> and \<open>.unwrap()\<close>: the value for the panicking case is
  never used, because the texts given to it parse (\<open>expect_path_sibling\<close>).
\<close>

definition expect_path :: "string \<Rightarrow> path" where
  "expect_path s = (case SiteRelativePath_parse s of Inr p \<Rightarrow> p | Inl _ \<Rightarrow> [])"

definition transactions_dir :: path where
  "transactions_dir = [''transactions'']"

definition state_path :: "RequestId \<Rightarrow> path" where
  "state_path request_id = [''transactions'', request_id @ ''.json'']"

definition DEFAULT_COMPLETED_RETENTION :: u64 where
  "DEFAULT_COMPLETED_RETENTION = 7 * 24 * 60 * 60"

definition ORPHAN_CLAIM_GRACE :: u64 where
  "ORPHAN_CLAIM_GRACE = 60"

section \<open>Finished transactions\<close>

text \<open>\<open>if root.exists(p) { remove_file(p) }\<close>, with the result of the removal.\<close>

definition remove_if_exists :: "ManagedRoot \<Rightarrow> path \<Rightarrow> host \<Rightarrow> unit io" where
  "remove_if_exists root p h =
     (case exists_path root p h of
        (True, h) \<Rightarrow> remove_file root p h
      | (False, h) \<Rightarrow> (Ok (), h))"

text \<open>The removals for one transaction that is due, in the order of the source.\<close>

definition remove_transaction ::
  "ManagedRoot \<Rightarrow> string \<Rightarrow> path \<Rightarrow> IdempotencyKey option \<Rightarrow> host \<Rightarrow> host" where
  "remove_transaction root name p key h =
     (let h1 = (case key of Some k \<Rightarrow> snd (index_remove root k h) | None \<Rightarrow> h) in
      case remove_if_exists root (expect_path (''deployment-recovery/'' @ name)) h1 of
        (Inl _, h2) \<Rightarrow> h2
      | (Inr _, h2) \<Rightarrow>
          let h3 = snd (remove_if_exists root (expect_path (''plans/'' @ name)) h2);
              h4 = snd (remove_if_exists root (expect_path (''pending/'' @ name)) h3)
          in snd (remove_file root p h4))"

definition due :: "u64 \<Rightarrow> u64 \<Rightarrow> TransactionState \<Rightarrow> bool" where
  "due retain_for now t =
     (ts_status t \<noteq> InProgress \<and>
      (case ts_finished_at t of
         None \<Rightarrow> False
       | Some finished_at \<Rightarrow> \<not> saturating_sub now finished_at < retain_for))"

definition prune_one :: "crates \<Rightarrow> ManagedRoot \<Rightarrow> u64 \<Rightarrow> u64 \<Rightarrow> string \<Rightarrow> host \<Rightarrow> host" where
  "prune_one L root retain_for now name h =
     (if \<not> ends_with name ''.json'' then h
      else case SiteRelativePath_parse (''transactions/'' @ name) of
        Inl _ \<Rightarrow> h
      | Inr p \<Rightarrow>
          (case State_load L root p h of
             (Inl _, h) \<Rightarrow> h
           | (Inr t, h) \<Rightarrow>
               if due retain_for now t
               then remove_transaction root name p (ts_idempotency_key t) h else h))"

definition prune_finished_transactions :: "crates \<Rightarrow> ManagedRoot \<Rightarrow> u64 \<Rightarrow> host \<Rightarrow> host" where
  "prune_finished_transactions L root retain_for h =
     (case open_managed_dir root transactions_dir h of
        (Inl _, h) \<Rightarrow> h
      | (Inr dir, h) \<Rightarrow>
          (case file_names dir h of
             (Inl _, h) \<Rightarrow> h
           | (Inr names, h) \<Rightarrow> fold (prune_one L root retain_for (unix_now_secs h)) names h))"

section \<open>Orphaned claims\<close>

definition prune_claim :: "crates \<Rightarrow> ManagedRoot \<Rightarrow> u64 \<Rightarrow> u64 \<Rightarrow> ClaimEntry \<Rightarrow> host \<Rightarrow> host" where
  "prune_claim L root grace now entry h =
     (if saturating_sub now (ce_claimed_at entry) < grace then h
      else case SiteRelativePath_parse (''transactions/'' @ ce_request_id entry @ ''.json'') of
        Inl _ \<Rightarrow> h
      | Inr p \<Rightarrow>
          (case State_load L root p h of
             (Inl State_NotFound, h) \<Rightarrow> snd (remove_file root (ce_path entry) h)
           | (_, h) \<Rightarrow> h))"

definition prune_orphaned_claims :: "crates \<Rightarrow> ManagedRoot \<Rightarrow> u64 \<Rightarrow> host \<Rightarrow> host" where
  "prune_orphaned_claims L root grace h =
     (let now = unix_now_secs h in
      case index_list L root h of
        (entries, h) \<Rightarrow> fold (prune_claim L root grace now) entries h)"

definition prune_completed :: "crates \<Rightarrow> ManagedRoot \<Rightarrow> u64 \<Rightarrow> host \<Rightarrow> host" where
  "prune_completed L root retain_for h =
     (let h = prune_finished_transactions L root retain_for h;
          orphan_grace = (if retain_for = 0 then 0 else ORPHAN_CLAIM_GRACE)
      in prune_orphaned_claims L root orphan_grace h)"

section \<open>The formatted paths parse\<close>

lemma parse_under:
  assumes "safe_component d"
  shows "SiteRelativePath_parse (d @ slash # name) = Ok p \<longleftrightarrow>
    p = d # split_on slash name \<and> list_all safe_component (split_on slash name)"
proof -
  have "slash \<notin> set d" using assms by (simp add: safe_component_def)
  then have "split_on slash (d @ slash # name) = d # split_on slash name"
    by (simp add: split_on_append_sep split_on_no_sep)
  with assms show ?thesis by (auto simp: SiteRelativePath_parse_Ok)
qed

lemma safe_dirs [simp]:
  "safe_component ''deployment-recovery''" "safe_component ''plans''" "safe_component ''pending''"
  "safe_component ''locks''" "safe_component ''audit''" "safe_component ''sites''"
  by (simp_all add: safe_component_def)

lemma parse_transactions:
  "SiteRelativePath_parse (''transactions/'' @ name) = Ok p \<longleftrightarrow>
    p = ''transactions'' # split_on slash name \<and> list_all safe_component (split_on slash name)"
  using parse_under[of "''transactions''" name p] by simp

lemma expect_path_sibling:
  assumes "SiteRelativePath_parse (''transactions/'' @ name) = Ok p"
  shows "SiteRelativePath_parse (''deployment-recovery/'' @ name) = Ok (''deployment-recovery'' # tl p)"
    and "SiteRelativePath_parse (''plans/'' @ name) = Ok (''plans'' # tl p)"
    and "SiteRelativePath_parse (''pending/'' @ name) = Ok (''pending'' # tl p)"
proof -
  from assms have p: "tl p = split_on slash name" "list_all safe_component (split_on slash name)"
    by (simp_all only: parse_transactions list.sel)
  show "SiteRelativePath_parse (''deployment-recovery/'' @ name) = Ok (''deployment-recovery'' # tl p)"
    using parse_under[of "''deployment-recovery''" name "''deployment-recovery'' # tl p"] p by simp
  show "SiteRelativePath_parse (''plans/'' @ name) = Ok (''plans'' # tl p)"
    using parse_under[of "''plans''" name "''plans'' # tl p"] p by simp
  show "SiteRelativePath_parse (''pending/'' @ name) = Ok (''pending'' # tl p)"
    using parse_under[of "''pending''" name "''pending'' # tl p"] p by simp
qed

lemma state_path_parse:
  "uuid_wf i \<Longrightarrow> SiteRelativePath_parse (''transactions/'' @ i @ ''.json'') = Ok (state_path i)"
  using parse_two[of "''transactions''" "i @ ''.json''"] uuid_component[OF _ name_char_suffixes(1), of i]
  by (simp add: state_path_def)

section \<open>A sweep only removes\<close>

text \<open>From \<open>h\<close> to \<open>h'\<close> some entries whose paths satisfy \<open>Q\<close> are gone and nothing else changed.\<close>

definition only_removes :: "(path \<Rightarrow> bool) \<Rightarrow> host \<Rightarrow> host \<Rightarrow> bool" where
  "only_removes Q h h' \<longleftrightarrow> env h' = env h \<and>
     (\<forall>q. node_at h' q = node_at h q \<or> node_at h' q = None \<and> Q q)"

lemma only_removes_refl [simp]: "only_removes Q h h"
  by (simp add: only_removes_def)

lemma only_removes_trans:
  "only_removes Q h h' \<Longrightarrow> only_removes Q h' h'' \<Longrightarrow> only_removes Q h h''"
  unfolding only_removes_def by metis

lemma only_removes_mono: "only_removes Q h h' \<Longrightarrow> (\<And>q. Q q \<Longrightarrow> R q) \<Longrightarrow> only_removes R h h'"
  unfolding only_removes_def by blast

lemma only_removes_keeps: "only_removes Q h h' \<Longrightarrow> \<not> Q q \<Longrightarrow> node_at h' q = node_at h q"
  unfolding only_removes_def by blast

lemma only_removes_at: "only_removes Q h h' \<Longrightarrow> node_at h' q = node_at h q \<or> node_at h' q = None"
  by (auto simp: only_removes_def)

lemma only_removes_gone: "only_removes Q h h' \<Longrightarrow> node_at h q = None \<Longrightarrow> node_at h' q = None"
  unfolding only_removes_def by metis

lemma only_removes_fold:
  "(\<And>x h. x \<in> set xs \<Longrightarrow> only_removes Q h (f x h)) \<Longrightarrow> only_removes Q h (fold f xs h)"
proof (induction xs arbitrary: h)
  case (Cons x xs)
  then have "only_removes Q h (f x h)" and "only_removes Q (f x h) (fold f xs (f x h))" by auto
  then show ?case using only_removes_trans by simp
qed simp

lemma only_removes_remove_file: "only_removes (\<lambda>q. q = root @ p) h (snd (remove_file root p h))"
proof -
  have "node_at (snd (remove_file root p h)) q = node_at h q
      \<or> node_at (snd (remove_file root p h)) q = None \<and> q = root @ p" for q
    using remove_file_frame[of q root p h] remove_file_shrinks[of root p h]
    by (cases "q = root @ p") auto
  then show ?thesis by (simp add: only_removes_def)
qed

lemma only_removes_index: "only_removes (\<lambda>q. q = root @ index_path k) h (snd (index_remove root k h))"
proof -
  have "snd (index_remove root k h) = snd (remove_file root (index_path k) h)"
    by (cases "remove_file root (index_path k) h") (simp add: index_remove_def split: sum.splits)
  then show ?thesis by (simp add: only_removes_remove_file)
qed

lemma only_removes_if_exists: "only_removes (\<lambda>q. q = root @ p) h (snd (remove_if_exists root p h))"
proof -
  obtain b h1 where x: "exists_path root p h = (b, h1)" by fastforce
  then have "node_at h1 = node_at h" "env h1 = env h"
    using node_at_read_only(2)[of root p h] env_calls(2)[of root p h] by simp_all
  then have "only_removes (\<lambda>q. q = root @ p) h h1" by (simp add: only_removes_def)
  with x only_removes_trans[OF _ only_removes_remove_file] show ?thesis
    by (cases b) (simp_all add: remove_if_exists_def)
qed

text \<open>The entries that belong to the transaction file \<open>p\<close>, its claim aside.\<close>

definition belongs :: "ManagedRoot \<Rightarrow> path \<Rightarrow> path \<Rightarrow> bool" where
  "belongs root p q = (q \<in> {root @ p, root @ ''deployment-recovery'' # tl p,
     root @ ''plans'' # tl p, root @ ''pending'' # tl p})"

lemma remove_transaction_removes:
  assumes "SiteRelativePath_parse (''transactions/'' @ name) = Ok p"
  shows "only_removes (\<lambda>q. belongs root p q \<or> (\<exists>k. key = Some k \<and> q = root @ index_path k))
    h (remove_transaction root name p key h)"
proof -
  let ?Q = "\<lambda>q. belongs root p q \<or> (\<exists>k. key = Some k \<and> q = root @ index_path k)"
  note sib = expect_path_sibling[OF assms]
  have e: "expect_path (''deployment-recovery/'' @ name) = ''deployment-recovery'' # tl p"
    "expect_path (''plans/'' @ name) = ''plans'' # tl p"
    "expect_path (''pending/'' @ name) = ''pending'' # tl p"
    by (simp_all only: expect_path_def sib sum.case)
  have 1: "only_removes ?Q h (case key of Some k \<Rightarrow> snd (index_remove root k h) | None \<Rightarrow> h)"
    by (cases key) (auto intro!: only_removes_mono[OF only_removes_index])
  have r: "only_removes ?Q g (snd (remove_if_exists root x g))" if "belongs root p (root @ x)" for g x
    using only_removes_if_exists[of root x g] by (rule only_removes_mono) (simp add: that)
  have b: "belongs root p (root @ ''deployment-recovery'' # tl p)"
    "belongs root p (root @ ''plans'' # tl p)" "belongs root p (root @ ''pending'' # tl p)"
    by (simp_all add: belongs_def)
  have f: "only_removes ?Q g (snd (remove_file root p g))" for g
    using only_removes_remove_file[of root p g] by (rule only_removes_mono) (simp add: belongs_def)
  obtain h1 where h1: "h1 = (case key of Some k \<Rightarrow> snd (index_remove root k h) | None \<Rightarrow> h)" by simp
  obtain x h2 where h2: "remove_if_exists root (''deployment-recovery'' # tl p) h1 = (x, h2)" by fastforce
  have 2: "only_removes ?Q h h2" using only_removes_trans[OF 1 r[OF b(1)]] h1 h2 by (metis snd_conv)
  show ?thesis
  proof (cases x)
    case (Inl err)
    with 2 h1 h2 e show ?thesis by (simp add: remove_transaction_def Let_def)
  next
    case (Inr u)
    from only_removes_trans[OF only_removes_trans[OF only_removes_trans[OF 2 r[OF b(2)]] r[OF b(3)]] f]
    show ?thesis using h1 h2 e Inr by (simp add: remove_transaction_def Let_def)
  qed
qed

lemma prune_one_removes:
  "only_removes (\<lambda>q. \<exists>p t. p = ''transactions'' # split_on slash name \<and>
     stored L root h p = Some t \<and> due retain_for now t \<and>
     (belongs root p q \<or> (\<exists>k. ts_idempotency_key t = Some k \<and> q = root @ index_path k)))
   h (prune_one L root retain_for now name h)"
proof (cases "ends_with name ''.json'' \<and> is_ok (SiteRelativePath_parse (''transactions/'' @ name))")
  case False
  then show ?thesis by (auto simp: prune_one_def is_ok_def split: sum.splits)
next
  case True
  then obtain p where p: "SiteRelativePath_parse (''transactions/'' @ name) = Ok p"
    by (auto simp: is_ok_iff)
  obtain r h1 where l: "State_load L root p h = (r, h1)" by fastforce
  then have same: "only_removes Q h h1" for Q
    using node_at_State_load[of L root p h] State_env(3)[of L root p h] by (simp add: only_removes_def)
  show ?thesis
  proof (cases "\<exists>t. r = Ok t \<and> due retain_for now t")
    case False
    with l p True same show ?thesis by (auto simp: prune_one_def split: sum.splits)
  next
    case due: True
    then obtain t where t: "r = Ok t" "due retain_for now t" by blast
    with l have st: "stored L root h p = Some t" using State_load_Ok by blast
    from l t p True have eq: "prune_one L root retain_for now name h
        = remove_transaction root name p (ts_idempotency_key t) h1"
      by (simp add: prune_one_def)
    from only_removes_trans[OF same remove_transaction_removes[OF p]]
    have "only_removes (\<lambda>q. belongs root p q \<or> (\<exists>k. ts_idempotency_key t = Some k \<and> q = root @ index_path k))
        h (remove_transaction root name p (ts_idempotency_key t) h1)" .
    then show ?thesis unfolding eq by (rule only_removes_mono) (use st t(2) p in \<open>auto simp only: parse_transactions\<close>)
  qed
qed

section \<open>What a sweep keeps\<close>

text \<open>The record of request \<open>i\<close> is untouched by every sweep for which it is not due.\<close>

lemma state_path_no_belongs:
  assumes "belongs root p (root @ state_path i)" and "p \<noteq> state_path i"
  shows False
  using assms by (auto simp: belongs_def state_path_def)

lemma state_path_not_index [simp]: "state_path i \<noteq> index_path k"
  by (simp add: state_path_def index_path_def idempotency_dir_def)

lemma prune_one_keeps:
  assumes "\<And>t. stored L root h (state_path i) = Some t \<Longrightarrow> \<not> due retain_for now t"
  shows "node_at (prune_one L root retain_for now name h) (root @ state_path i)
    = node_at h (root @ state_path i)"
proof (rule only_removes_keeps[OF prune_one_removes])
  show "\<not> (\<exists>p t. p = ''transactions'' # split_on slash name \<and> stored L root h p = Some t \<and>
     due retain_for now t \<and> (belongs root p (root @ state_path i) \<or>
       (\<exists>k. ts_idempotency_key t = Some k \<and> root @ state_path i = root @ index_path k)))"
    using assms state_path_no_belongs by (metis same_append_eq state_path_not_index)
qed

lemma prune_fold_keeps:
  assumes "\<And>t. stored L root h (state_path i) = Some t \<Longrightarrow> \<not> due retain_for now t"
  shows "node_at (fold (prune_one L root retain_for now) names h) (root @ state_path i)
    = node_at h (root @ state_path i)"
  using assms
proof (induction names arbitrary: h)
  case (Cons name names)
  let ?h1 = "prune_one L root retain_for now name h"
  have n: "node_at ?h1 (root @ state_path i) = node_at h (root @ state_path i)"
    by (rule prune_one_keeps) (rule Cons.prems)
  then have "stored L root ?h1 (state_path i) = stored L root h (state_path i)" by (rule stored_node)
  with Cons.IH[of ?h1] Cons.prems n show ?case by simp
qed simp

lemma list_entries_same:
  "list_entries L root names h = (es, h') \<Longrightarrow> node_at h' = node_at h \<and> env h' = env h
     \<and> (\<forall>e \<in> set es. \<exists>x xs. ce_path e = ''transactions'' # ''idempotency'' # x # xs)"
proof (induction names arbitrary: es h)
  case (Cons name names)
  show ?case
  proof (cases "ends_with name ''.json''
      \<and> (\<exists>p. SiteRelativePath_parse (''transactions/idempotency/'' @ name) = Ok p)")
    case False
    with Cons.prems have "list_entries L root names h = (es, h')" by (auto split: sum.splits)
    then show ?thesis by (rule Cons.IH)
  next
    case True
    then obtain p where p: "SiteRelativePath_parse (''transactions/idempotency/'' @ name) = Ok p" by blast
    then have "p = split_on slash (''transactions/idempotency/'' @ name)"
      by (simp only: SiteRelativePath_parse_Ok)
    then obtain x xs where px: "p = ''transactions'' # ''idempotency'' # x # xs"
      by (cases "split_on slash name") auto
    obtain r h1 where rd: "read_to_string root p h = (r, h1)" by fastforce
    then have n: "node_at h1 = node_at h" "env h1 = env h"
      using node_at_read_only(1)[of root p h] env_calls(1)[of root p h] by simp_all
    show ?thesis
    proof (cases "\<exists>j x. r = Ok j \<and> decode_index L j = Some x")
      case False
      with Cons.prems p True rd have "list_entries L root names h1 = (es, h')"
        by (auto split: sum.splits option.splits)
      from Cons.IH[OF this] n show ?thesis by simp
    next
      case dec: True
      with Cons.prems p True rd obtain es' e where es': "list_entries L root names h1 = (es', h')"
        "es = e # es'" "ce_path e = p"
        by (cases "list_entries L root names h1") auto
      from Cons.IH[OF es'(1)] n es' px show ?thesis by auto
    qed
  qed
qed simp

lemma index_list_same:
  assumes "index_list L root h = (es, h')"
  shows "node_at h' = node_at h \<and> env h' = env h
     \<and> (\<forall>e \<in> set es. \<exists>x xs. ce_path e = ''transactions'' # ''idempotency'' # x # xs)"
proof -
  obtain r h1 where d: "open_managed_dir root idempotency_dir h = (r, h1)" by fastforce
  then have 1: "node_at h1 = node_at h" "env h1 = env h"
    using node_at_read_only(7)[of root idempotency_dir h] env_calls(7)[of root idempotency_dir h] by simp_all
  show ?thesis
  proof (cases r)
    case (Inl e)
    with d assms 1 show ?thesis by (simp add: index_list_def)
  next
    case dir: (Inr dir)
    obtain a h2 where f: "file_names dir h1 = (a, h2)" by fastforce
    then have 2: "node_at h2 = node_at h" "env h2 = env h"
      using 1 node_at_read_only(3)[of dir h1] env_calls(3)[of dir h1] by simp_all
    show ?thesis
    proof (cases a)
      case (Inl e)
      with d dir f assms 2 show ?thesis by (simp add: index_list_def)
    next
      case (Inr names)
      with d dir f assms have "list_entries L root names h2 = (es, h')" by (simp add: index_list_def)
      from list_entries_same[OF this] 2 show ?thesis by simp
    qed
  qed
qed

text \<open>An orphan is removed only when its request has no record at that moment.\<close>

lemma prune_claim_removes:
  "only_removes (\<lambda>q. q = root @ ce_path e \<and> \<not> saturating_sub now (ce_claimed_at e) < grace
     \<and> (\<exists>p. SiteRelativePath_parse (''transactions/'' @ ce_request_id e @ ''.json'') = Ok p
            \<and> node_at h (root @ p) = None))
   h (prune_claim L root grace now e h)"
proof (cases "\<not> saturating_sub now (ce_claimed_at e) < grace
    \<and> is_ok (SiteRelativePath_parse (''transactions/'' @ ce_request_id e @ ''.json''))")
  case False
  then show ?thesis by (auto simp: prune_claim_def is_ok_def split: sum.splits)
next
  case True
  then obtain p where p: "SiteRelativePath_parse (''transactions/'' @ ce_request_id e @ ''.json'') = Ok p"
    by (auto simp: is_ok_iff)
  obtain r h1 where l: "State_load L root p h = (r, h1)" by fastforce
  then have same: "only_removes Q h h1" for Q
    using node_at_State_load[of L root p h] State_env(3)[of L root p h] by (simp add: only_removes_def)
  show ?thesis
  proof (cases "r = Err State_NotFound")
    case False
    with l p True same show ?thesis
      by (auto simp: prune_claim_def split: sum.splits StateError.splits)
  next
    case nf: True
    with l have "node_at h (root @ p) = None" using State_load_NotFound by blast
    moreover have "prune_claim L root grace now e h = snd (remove_file root (ce_path e) h1)"
      using l nf p True by (simp add: prune_claim_def)
    moreover have "only_removes (\<lambda>q. q = root @ ce_path e) h (snd (remove_file root (ce_path e) h1))"
      by (rule only_removes_trans[OF same only_removes_remove_file])
    ultimately show ?thesis using p True by (auto elim!: only_removes_mono)
  qed
qed

definition names_ok :: "host \<Rightarrow> bool" where
  "names_ok h = list_all (\<lambda>kv. list_all (\<lambda>c. slash \<notin> set c) (fst kv)) (tree h)"

text \<open>The one reading of the clock a sweep makes, after it has opened and listed the directory.\<close>

definition sweep_time :: "host \<Rightarrow> u64" where
  "sweep_time h = clock h (tick h + 2)"

lemma prune_finished_cases:
  obtains (none) h' where "prune_finished_transactions L root rf h = h'" "node_at h' = node_at h"
      "env h' = env h"
  | (swept) h' names now where "prune_finished_transactions L root rf h = fold (prune_one L root rf now) names h'"
      "now = sweep_time h" "node_at h' = node_at h" "env h' = env h"
      "names_ok h \<Longrightarrow> list_all (\<lambda>n. slash \<notin> set n) names"
proof -
  obtain r h1 where d: "open_managed_dir root transactions_dir h = (r, h1)" by fastforce
  then have 1: "node_at h1 = node_at h" "env h1 = env h"
    using node_at_read_only(7)[of root transactions_dir h] env_calls(7)[of root transactions_dir h] by simp_all
  have t1: "tick h1 = tick h + 1"
    using d by (auto simp: open_managed_dir_def io_call_def next_tick_def split: if_splits option.splits node.splits)
  show thesis
  proof (cases r)
    case (Inl e)
    with d 1 none show ?thesis by (simp add: prune_finished_transactions_def)
  next
    case dir: (Inr dir)
    obtain a h2 where f: "file_names dir h1 = (a, h2)" by fastforce
    then have 2: "node_at h2 = node_at h" "env h2 = env h"
      using 1 node_at_read_only(3)[of dir h1] env_calls(3)[of dir h1] by simp_all
    have "tick h2 = tick h1 + 1"
      using f by (auto simp: file_names_def io_call_def next_tick_def split: if_splits)
    then have "unix_now_secs h2 = sweep_time h"
      using t1 2(2) by (simp add: unix_now_secs_def sweep_time_def env_def)
    moreover have "list_all (\<lambda>n. slash \<notin> set n) names" if "names_ok h" "a = Ok names" for names
    proof -
      have "tree h1 = tree h" using d tree_read_only(7)[of root transactions_dir h] by simp
      moreover have "p \<noteq> [] \<Longrightarrow> (p, x) \<in> set (tree h) \<Longrightarrow> slash \<notin> set (last p)" for p x
        using that(1) last_in_set[of p] by (fastforce simp: names_ok_def list_all_iff)
      ultimately show ?thesis
        using f that(2) by (auto simp: file_names_def io_call_def dir_entries_def list_all_iff split: if_splits)
    qed
    moreover note d dir f 2 none swept
    ultimately show ?thesis
      by (cases a) (simp_all add: prune_finished_transactions_def)
  qed
qed

lemma prune_finished_keeps:
  assumes "\<And>t. stored L root h (state_path i) = Some t \<Longrightarrow> \<not> due rf (sweep_time h) t"
  shows "node_at (prune_finished_transactions L root rf h) (root @ state_path i)
    = node_at h (root @ state_path i)"
proof (cases rule: prune_finished_cases[of L root rf h])
  case (swept h' names now)
  then have "stored L root h' = stored L root h" using stored_cong by blast
  with swept assms show ?thesis using prune_fold_keeps[of L root h' i rf now names] by simp
qed simp

lemma prune_orphaned_removes:
  "only_removes (\<lambda>q. \<exists>x xs. q = root @ ''transactions'' # ''idempotency'' # x # xs) h
     (prune_orphaned_claims L root grace h)"
proof -
  obtain es h1 where l: "index_list L root h = (es, h1)" by fastforce
  note same = index_list_same[OF l]
  let ?Q = "\<lambda>q. \<exists>x xs. q = root @ ''transactions'' # ''idempotency'' # x # xs"
  have "only_removes ?Q g (prune_claim L root grace now e g)" if "e \<in> set es" for e g now
    using prune_claim_removes by (rule only_removes_mono) (use that same in fastforce)
  then have "only_removes ?Q h1 (fold (prune_claim L root grace now) es h1)" for now
    by (rule only_removes_fold)
  moreover have "only_removes ?Q h h1" using same by (simp add: only_removes_def)
  ultimately have "only_removes ?Q h (fold (prune_claim L root grace now) es h1)" for now
    using only_removes_trans by blast
  with l show ?thesis by (simp add: prune_orphaned_claims_def Let_def)
qed

lemma prune_completed_keeps:
  assumes "\<And>t. stored L root h (state_path i) = Some t \<Longrightarrow> \<not> due rf (sweep_time h) t"
  shows "node_at (prune_completed L root rf h) (root @ state_path i) = node_at h (root @ state_path i)"
proof -
  have "node_at (prune_orphaned_claims L root g h1) (root @ state_path i) = node_at h1 (root @ state_path i)"
    for g h1
    by (rule only_removes_keeps[OF prune_orphaned_removes]) (simp add: state_path_def)
  then show ?thesis using prune_finished_keeps[OF assms] by (simp add: prune_completed_def Let_def)
qed

lemma in_progress_not_due: "ts_status t = InProgress \<Longrightarrow> \<not> due rf now t"
  by (simp add: due_def)

section \<open>Where a sweep works\<close>

definition sweep_area :: "ManagedRoot \<Rightarrow> path \<Rightarrow> bool" where
  "sweep_area root q = (\<exists>d xs. q = root @ d # xs \<and>
     d \<in> {''transactions'', ''deployment-recovery'', ''plans'', ''pending''})"

lemma prune_one_area: "only_removes (sweep_area root) h (prune_one L root rf now name h)"
proof (rule only_removes_mono[OF prune_one_removes])
  fix q
  assume "\<exists>p t. p = ''transactions'' # split_on slash name \<and> stored L root h p = Some t \<and> due rf now t \<and>
     (belongs root p q \<or> (\<exists>k. ts_idempotency_key t = Some k \<and> q = root @ index_path k))"
  then show "sweep_area root q"
    by (auto simp: belongs_def sweep_area_def index_path_def idempotency_dir_def)
qed

lemma prune_completed_area: "only_removes (sweep_area root) h (prune_completed L root rf h)"
proof -
  have 1: "only_removes (sweep_area root) h (prune_finished_transactions L root rf h)"
  proof (cases rule: prune_finished_cases[of L root rf h])
    case (none h')
    then show ?thesis by (simp add: only_removes_def)
  next
    case (swept h' names now)
    have "only_removes (sweep_area root) h' (fold (prune_one L root rf now) names h')"
      by (rule only_removes_fold) (rule prune_one_area)
    with swept show ?thesis by (simp add: only_removes_def)
  qed
  have "only_removes (sweep_area root) h1 (prune_orphaned_claims L root g h1)" for g h1
    by (rule only_removes_mono[OF prune_orphaned_removes]) (auto simp: sweep_area_def)
  with only_removes_trans[OF 1] show ?thesis by (simp add: prune_completed_def Let_def)
qed

lemma prune_completed_env [host_frame, simp]: "env (prune_completed L root rf h) = env h"
  using prune_completed_area by (simp add: only_removes_def)

section \<open>What a sweep removes\<close>

lemma remove_file_healthy:
  "healthy h \<Longrightarrow> node_at h (root @ p) \<noteq> Some Dir \<Longrightarrow>
     node_at (snd (remove_file root p h)) (root @ p) = None
     \<and> (fst (remove_file root p h) = Ok () \<or> node_at h (root @ p) = None)"
  by (auto simp: remove_file_def split: option.splits node.splits)

lemma exists_path_healthy:
  "healthy h \<Longrightarrow> exists_path root p h = (True, h1) \<Longrightarrow> node_at h (root @ p) \<noteq> None"
  by (auto simp: exists_path_def split: option.splits)

lemma remove_if_exists_healthy:
  assumes "healthy h" and "node_at h (root @ p) \<noteq> Some Dir"
  shows "fst (remove_if_exists root p h) = Ok ()"
proof -
  obtain b h1 where x: "exists_path root p h = (b, h1)" by fastforce
  then have n: "node_at h1 = node_at h" and "env h1 = env h"
    using node_at_read_only(2)[of root p h] env_calls(2)[of root p h] by simp_all
  then have "healthy h1" using assms(1) healthy_env by blast
  show ?thesis
  proof (cases b)
    case True
    with x exists_path_healthy[OF assms(1), of root p h1] have "node_at h (root @ p) \<noteq> None" by simp
    with remove_file_healthy[OF \<open>healthy h1\<close>, of root p] n assms(2) x True show ?thesis
      by (simp add: remove_if_exists_def)
  qed (use x in \<open>simp add: remove_if_exists_def\<close>)
qed

lemma healthy_only_removes: "only_removes Q h h' \<Longrightarrow> healthy h' = healthy h"
  using healthy_env[of h' h] by (simp add: only_removes_def)

lemma index_path_not_belongs: "index_path k \<noteq> ''deployment-recovery'' # xs"
  by (simp add: index_path_def idempotency_dir_def)

lemma remove_transaction_done:
  assumes p: "SiteRelativePath_parse (''transactions/'' @ name) = Ok p" and h: "healthy h"
    and nodir: "node_at h (root @ p) \<noteq> Some Dir" "node_at h (root @ ''deployment-recovery'' # tl p) \<noteq> Some Dir"
  shows "node_at (remove_transaction root name p key h) (root @ p) = None"
proof -
  have e: "expect_path (''deployment-recovery/'' @ name) = ''deployment-recovery'' # tl p"
    by (simp only: expect_path_def expect_path_sibling(1)[OF p] sum.case)
  obtain h1 where h1: "h1 = (case key of Some k \<Rightarrow> snd (index_remove root k h) | None \<Rightarrow> h)" by simp
  have r1: "only_removes (\<lambda>q. True) h h1"
    unfolding h1 by (cases key) (auto intro: only_removes_mono[OF only_removes_index])
  then have "healthy h1" using h healthy_only_removes by blast
  moreover have "node_at h1 (root @ ''deployment-recovery'' # tl p) \<noteq> Some Dir"
    using r1 nodir(2) unfolding only_removes_def by (metis option.distinct(1))
  ultimately obtain h2 where h2: "remove_if_exists root (''deployment-recovery'' # tl p) h1 = (Ok (), h2)"
    using remove_if_exists_healthy[of h1 root "''deployment-recovery'' # tl p"]
    by (metis prod.collapse)
  define h3 where "h3 = snd (remove_if_exists root (expect_path (''plans/'' @ name)) h2)"
  define h4 where "h4 = snd (remove_if_exists root (expect_path (''pending/'' @ name)) h3)"
  have m: "only_removes (\<lambda>q. True) g (snd (remove_if_exists root x g))" for g x
    by (rule only_removes_mono[OF only_removes_if_exists]) simp
  have "only_removes (\<lambda>q. True) h1 h2" using m[of h1] h2 by (metis snd_conv)
  with r1 have r2: "only_removes (\<lambda>q. True) h h2" using only_removes_trans by blast
  have r4: "only_removes (\<lambda>q. True) h h4"
    using only_removes_trans[OF only_removes_trans[OF r2 m] m] by (simp add: h3_def h4_def)
  then have "healthy h4" "node_at h4 (root @ p) \<noteq> Some Dir"
    using h nodir(1) healthy_only_removes unfolding only_removes_def by (blast, metis option.distinct(1))
  moreover have "remove_transaction root name p key h = snd (remove_file root p h4)"
    using h1 h2 e by (simp add: remove_transaction_def Let_def h3_def h4_def)
  ultimately show ?thesis using remove_file_healthy[of h4 root p] by simp
qed

lemma parse_transaction_name:
  "safe_component name \<Longrightarrow> SiteRelativePath_parse (''transactions/'' @ name) = Ok [''transactions'', name]"
  using parse_two[of "''transactions''" name] by simp

lemma stored_not_Dir: "stored L root h p = Some t \<Longrightarrow> \<exists>b. node_at h (root @ p) = Some (File b)"
  by (auto simp: stored_def file_at_def split: option.splits node.splits)

lemma State_load_healthy:
  assumes "healthy h" and "stored L root h p = Some t"
  shows "State_load L root p h = (Ok t, next_tick h)"
proof -
  obtain b where b: "node_at h (root @ p) = Some (File b)" using stored_not_Dir[OF assms(2)] by blast
  with assms(2) have "utf8_ok b" "State_decode L b = Ok t"
    by (simp_all add: stored_def file_at_def split: if_splits sum.splits)
  with b assms(1) show ?thesis by (simp add: State_load_def read_to_string_def)
qed

lemma prune_one_done:
  assumes "healthy h" and name: "safe_component name" "ends_with name ''.json''"
    and st: "stored L root h [''transactions'', name] = Some t" and "due rf now t"
    and "node_at h (root @ [''deployment-recovery'', name]) \<noteq> Some Dir"
  shows "node_at (prune_one L root rf now name h) (root @ [''transactions'', name]) = None"
proof -
  note p = parse_transaction_name[OF name(1)]
  have "prune_one L root rf now name h
      = remove_transaction root name [''transactions'', name] (ts_idempotency_key t) (next_tick h)"
    using p State_load_healthy[OF assms(1) st] assms(5) name(2) by (simp add: prune_one_def)
  moreover have "node_at (remove_transaction root name [''transactions'', name] (ts_idempotency_key t)
      (next_tick h)) (root @ [''transactions'', name]) = None"
    using assms(1,6) stored_not_Dir[OF st] by (intro remove_transaction_done[OF p]) auto
  ultimately show ?thesis by simp
qed

lemma prune_fold_done:
  assumes "name \<in> set names" and "healthy h" and name: "safe_component name" "ends_with name ''.json''"
    and "stored L root h [''transactions'', name] = Some t" and "due rf now t"
    and "node_at h (root @ [''deployment-recovery'', name]) \<noteq> Some Dir"
  shows "node_at (fold (prune_one L root rf now) names h) (root @ [''transactions'', name]) = None"
  using assms(1,2,5,7)
proof (induction names arbitrary: h)
  case (Cons n names)
  let ?x = "root @ [''transactions'', name]"
  let ?h1 = "prune_one L root rf now n h"
  note area = prune_one_area[of root h L rf now n]
  have rest: "node_at ?h1 ?x = None \<Longrightarrow> node_at (fold (prune_one L root rf now) names ?h1) ?x = None"
    by (rule only_removes_gone[OF only_removes_fold]) (rule prune_one_area)
  show ?case
  proof (cases "n = name \<or> node_at ?h1 ?x = None")
    case True
    then have "node_at ?h1 ?x = None"
    proof
      assume "n = name"
      then show ?thesis
        using prune_one_done[OF Cons.prems(2) name Cons.prems(3) assms(6) Cons.prems(4)] by simp
    qed
    from rest[OF this] show ?thesis by (simp only: fold.simps o_apply)
  next
    case False
    then have "node_at ?h1 ?x = node_at h ?x" using only_removes_at[OF area, of ?x] by argo
    then have "stored L root ?h1 [''transactions'', name] = Some t"
      using Cons.prems(3) stored_node[of ?h1 root "[''transactions'', name]" h L] by simp
    moreover have "node_at ?h1 (root @ [''deployment-recovery'', name]) \<noteq> Some Dir"
      using only_removes_at[OF area, of "root @ [''deployment-recovery'', name]"] Cons.prems(4) by auto
    moreover have "healthy ?h1" using healthy_only_removes[OF area] Cons.prems(2) by simp
    moreover have "name \<in> set names" using Cons.prems(1) False by auto
    ultimately have "node_at (fold (prune_one L root rf now) names ?h1) ?x = None"
      by (intro Cons.IH)
    then show ?thesis by (simp only: fold.simps o_apply)
  qed
qed simp

lemma listed_name:
  assumes "node_at h (root @ [d, name]) = Some (File b)" and "utf8_ok name"
  shows "name \<in> set (filter utf8_ok (map (\<lambda>(p, n). last p)
    (filter (\<lambda>(p, n). is_file_node n) (dir_entries h (root @ [d])))))"
proof -
  from assms(1) have "(root @ [d, name], File b) \<in> set (tree h)"
    by (simp add: node_at_def map_of_SomeD)
  then have "(root @ [d, name], File b) \<in> set (filter (\<lambda>(p, n). is_file_node n) (dir_entries h (root @ [d])))"
    by (auto simp: dir_entries_def is_file_node_def butlast_append)
  from imageI[OF this, of "\<lambda>(p, n). last p"] assms(2) show ?thesis by auto
qed

lemma prune_finished_done:
  assumes "healthy h" and dir: "node_at h (root @ [''transactions'']) = Some Dir"
    and name: "safe_component name" "ends_with name ''.json''" "utf8_ok name"
    and st: "stored L root h [''transactions'', name] = Some t" and due: "\<And>k. due rf (clock h k) t"
    and cp: "node_at h (root @ [''deployment-recovery'', name]) \<noteq> Some Dir"
  shows "node_at (prune_finished_transactions L root rf h) (root @ [''transactions'', name]) = None"
proof -
  obtain b where b: "node_at h (root @ [''transactions'', name]) = Some (File b)"
    using stored_not_Dir[OF st] by blast
  let ?h2 = "next_tick (next_tick h)"
  let ?names = "filter utf8_ok (map (\<lambda>(p, n). last p)
    (filter (\<lambda>(p, n). is_file_node n) (dir_entries ?h2 (root @ [''transactions'']))))"
  have sweep: "prune_finished_transactions L root rf h
      = fold (prune_one L root rf (unix_now_secs ?h2)) ?names ?h2"
    using assms(1) dir
    by (simp add: prune_finished_transactions_def open_managed_dir_def file_names_def transactions_dir_def)
  have "name \<in> set ?names" using listed_name[of ?h2 root "''transactions''" name b] b name(3) by simp
  moreover have "stored L root ?h2 [''transactions'', name] = Some t"
    using st stored_node[of ?h2 root _ h] by simp
  ultimately show ?thesis
    unfolding sweep using assms(1) name(1,2) due cp
    by (intro prune_fold_done[of name]) (auto simp: unix_now_secs_def)
qed

lemma prune_completed_done:
  assumes "healthy h" and "node_at h (root @ [''transactions'']) = Some Dir"
    and "safe_component name" "ends_with name ''.json''" "utf8_ok name"
    and "stored L root h [''transactions'', name] = Some t" and "\<And>k. due rf (clock h k) t"
    and "node_at h (root @ [''deployment-recovery'', name]) \<noteq> Some Dir"
  shows "node_at (prune_completed L root rf h) (root @ [''transactions'', name]) = None"
  using prune_finished_done[OF assms] only_removes_gone[OF prune_orphaned_removes]
  by (simp add: prune_completed_def Let_def)

section \<open>Claims of recorded requests survive\<close>

text \<open>Names in a real directory hold no separator.\<close>

lemma stored_after: "only_removes Q h h' \<Longrightarrow> stored L root h' p = Some t \<Longrightarrow> stored L root h p = Some t"
  using only_removes_at[of Q h h' "root @ p"] stored_node[of h' root p h L]
    stored_not_Dir[of L root h' p t] by auto

lemma owner_after: "only_removes Q h h' \<Longrightarrow> owner L root h' k = Some j \<Longrightarrow> owner L root h k = Some j"
proof -
  assume rm: "only_removes Q h h'" and o: "owner L root h' k = Some j"
  then have "node_at h' (root @ index_path k) \<noteq> None" by (cases "node_at h' (root @ index_path k)") (simp_all add: owner_def index_at_def file_at_def)
  with only_removes_at[OF rm, of "root @ index_path k"] have "file_at root h' (index_path k) = file_at root h (index_path k)"
    by (simp add: file_at_def)
  with o show ?thesis using owner_cong by metis
qed

text \<open>No transaction that is due at \<open>now\<close> owns a key that shares the slot of \<open>k\<close>.\<close>

definition slot_safe :: "crates \<Rightarrow> ManagedRoot \<Rightarrow> u64 \<Rightarrow> u64 \<Rightarrow> IdempotencyKey \<Rightarrow> host \<Rightarrow> bool" where
  "slot_safe L root rf now k h = (\<forall>p t k'. stored L root h p = Some t \<longrightarrow> ts_idempotency_key t = Some k' \<longrightarrow>
     fnv1a k' = fnv1a k \<longrightarrow> \<not> due rf now t)"

lemma prune_one_keeps_claim:
  assumes "slot_safe L root rf now k h" and "slash \<notin> set name"
  shows "node_at (prune_one L root rf now name h) (root @ index_path k) = node_at h (root @ index_path k)"
proof (rule only_removes_keeps[OF prune_one_removes])
  have "split_on slash name = [name]" using assms(2) by (rule split_on_no_sep)
  then show "\<not> (\<exists>p t. p = ''transactions'' # split_on slash name \<and> stored L root h p = Some t \<and>
     due rf now t \<and> (belongs root p (root @ index_path k) \<or>
       (\<exists>k'. ts_idempotency_key t = Some k' \<and> root @ index_path k = root @ index_path k')))"
    using assms(1) by (auto simp: slot_safe_def index_path_eq_iff)
      (auto simp: belongs_def index_path_def idempotency_dir_def)
qed

lemma prune_fold_keeps_claim:
  assumes "slot_safe L root rf now k h" and "list_all (\<lambda>n. slash \<notin> set n) names"
  shows "node_at (fold (prune_one L root rf now) names h) (root @ index_path k) = node_at h (root @ index_path k)"
  using assms
proof (induction names arbitrary: h)
  case (Cons n names)
  have "slot_safe L root rf now k (prune_one L root rf now n h)"
    unfolding slot_safe_def
  proof (intro allI impI)
    fix p t k'
    assume "stored L root (prune_one L root rf now n h) p = Some t"
      and k': "ts_idempotency_key t = Some k'" "fnv1a k' = fnv1a k"
    then have "stored L root h p = Some t" using stored_after[OF prune_one_area] by blast
    with k' Cons.prems(1) show "\<not> due rf now t" unfolding slot_safe_def by blast
  qed
  with Cons prune_one_keeps_claim[of L root rf now k h n] show ?case by simp
qed simp

lemma prune_finished_keeps_claim:
  assumes "slot_safe L root rf (sweep_time h) k h" and "names_ok h"
  shows "node_at (prune_finished_transactions L root rf h) (root @ index_path k) = node_at h (root @ index_path k)"
proof (cases rule: prune_finished_cases[of L root rf h])
  case (swept h' names now)
  then have "slot_safe L root rf now k h'"
    using assms(1) stored_cong[of h' h] by (simp add: slot_safe_def)
  with swept assms(2) show ?thesis using prune_fold_keeps_claim[of L root rf now k h' names] by simp
qed simp

lemma list_entries_decoded:
  "list_entries L root names h = (es, h') \<Longrightarrow> e \<in> set es \<Longrightarrow>
     \<exists>b r. file_at root h (ce_path e) = Some b \<and> decode_index L b = Some r \<and> ix_request_id r = ce_request_id e"
proof (induction names arbitrary: es h)
  case (Cons name names)
  show ?case
  proof (cases "ends_with name ''.json''
      \<and> (\<exists>p. SiteRelativePath_parse (''transactions/idempotency/'' @ name) = Ok p)")
    case False
    with Cons.prems have "list_entries L root names h = (es, h')" by (auto split: sum.splits)
    with Cons show ?thesis by blast
  next
    case True
    then obtain p where p: "SiteRelativePath_parse (''transactions/idempotency/'' @ name) = Ok p" by blast
    obtain r h1 where rd: "read_to_string root p h = (r, h1)" by fastforce
    then have n: "node_at h1 = node_at h" using node_at_read_only(1)[of root p h] by simp
    have same: "file_at root h1 = file_at root h" using n by (rule file_at_cong)
    show ?thesis
    proof (cases "\<exists>j x. r = Ok j \<and> decode_index L j = Some x")
      case False
      with Cons.prems p True rd have "list_entries L root names h1 = (es, h')"
        by (auto split: sum.splits option.splits)
      from Cons.IH[OF this Cons.prems(2)] same show ?thesis by simp
    next
      case dec: True
      then obtain j x where jx: "r = Ok j" "decode_index L j = Some x" by blast
      obtain es' h2 where es': "list_entries L root names h1 = (es', h2)" by fastforce
      have es: "es = \<lparr> ce_path = p, ce_request_id = ix_request_id x, ce_claimed_at = ix_claimed_at x \<rparr> # es'"
        "h2 = h'"
        using Cons.prems(1) p True rd jx es' by auto
      have "file_at root h p = Some j" using managed.fetch_ok rd jx by blast
      with es jx Cons.IH[OF es'[unfolded es(2)]] Cons.prems(2) same show ?thesis by auto
    qed
  qed
qed simp

lemma index_list_decoded:
  assumes "index_list L root h = (es, h')" and "e \<in> set es"
  shows "\<exists>b r. file_at root h (ce_path e) = Some b \<and> decode_index L b = Some r \<and> ix_request_id r = ce_request_id e"
proof -
  obtain r h1 where d: "open_managed_dir root idempotency_dir h = (r, h1)" by fastforce
  with assms obtain dir where dir: "r = Ok dir" by (cases r) (auto simp: index_list_def)
  obtain a h2 where f: "file_names dir h1 = (a, h2)" by fastforce
  with assms d dir obtain names where names: "a = Ok names" by (cases a) (auto simp: index_list_def)
  have "node_at h2 = node_at h1" "node_at h1 = node_at h"
    using d f node_at_read_only(7)[of root idempotency_dir h] node_at_read_only(3)[of dir h1] by simp_all
  then have "file_at root h2 = file_at root h" using file_at_cong by metis
  moreover have "list_entries L root names h2 = (es, h')" using assms(1) d dir f names by (simp add: index_list_def)
  ultimately show ?thesis using list_entries_decoded[OF _ assms(2)] by metis
qed

lemma decode_index_uuid: "crates_ok L \<Longrightarrow> decode_index L b = Some r \<Longrightarrow> uuid_wf (ix_request_id r)"
  by (auto simp: decode_index_def from_slice_def IndexRecord_of_json_def uuid_of_json_def
      crates_ok_def uuid_parse_ok_def bind_eq_Some_conv dest!: req_SomeD)

text \<open>The sweep of orphans never removes the claim of a request that has a record.\<close>

lemma prune_orphaned_keeps_claim:
  assumes L: "crates_ok L" and ow: "owner L root h k = Some j"
    and st: "node_at h (root @ state_path j) = Some n"
  shows "node_at (prune_orphaned_claims L root grace h) (root @ index_path k) = node_at h (root @ index_path k)"
proof -
  obtain es h1 where l: "index_list L root h = (es, h1)" by fastforce
  note same = index_list_same[OF l]
  have keep: "node_at (prune_claim L root grace now e g) (root @ index_path k) = node_at g (root @ index_path k)
      \<and> node_at (prune_claim L root grace now e g) (root @ state_path j) = node_at g (root @ state_path j)"
    if e: "e \<in> set es" and g: "node_at g (root @ state_path j) = Some n" for e g now
  proof -
    note rm = prune_claim_removes[of root e now grace g L]
    have j: "ce_path e = index_path k \<Longrightarrow> ce_request_id e = j \<and> uuid_wf j"
      using index_list_decoded[OF l e] ow decode_index_uuid[OF L]
      by (auto simp: owner_def index_at_def split: option.splits if_splits)
    have 1: "node_at (prune_claim L root grace now e g) (root @ index_path k) = node_at g (root @ index_path k)"
      by (rule only_removes_keeps[OF rm]) (use j g state_path_parse[of j] in auto)
    have "ce_path e \<noteq> state_path j" using same e by (auto simp: state_path_def)
    then have "node_at (prune_claim L root grace now e g) (root @ state_path j) = node_at g (root @ state_path j)"
      by (intro only_removes_keeps[OF rm]) auto
    with 1 show ?thesis ..
  qed
  have "node_at (fold (prune_claim L root grace now) xs g) (root @ index_path k) = node_at g (root @ index_path k)"
    if "set xs \<subseteq> set es" "node_at g (root @ state_path j) = Some n" for xs g now
    using that
  proof (induction xs arbitrary: g)
    case (Cons e xs)
    with keep[of e g now] Cons.IH[of "prune_claim L root grace now e g"] show ?case by simp
  qed simp
  with same l st show ?thesis by (simp add: prune_orphaned_claims_def Let_def)
qed

lemma prune_completed_keeps_claim:
  assumes "crates_ok L" and "owner L root h k = Some j" and st: "stored L root h (state_path j) = Some t"
    and nd: "\<not> due rf (sweep_time h) t" and "slot_safe L root rf (sweep_time h) k h" and "names_ok h"
  shows "owner L root (prune_completed L root rf h) k = Some j"
    and "stored L root (prune_completed L root rf h) (state_path j) = Some t"
proof -
  let ?h1 = "prune_finished_transactions L root rf h"
  have i1: "node_at ?h1 (root @ index_path k) = node_at h (root @ index_path k)"
    by (rule prune_finished_keeps_claim[OF assms(5,6)])
  have s1: "node_at ?h1 (root @ state_path j) = node_at h (root @ state_path j)"
    by (rule prune_finished_keeps) (use st nd in auto)
  have "owner L root ?h1 k = Some j"
    using assms(2) owner_cong[of root ?h1 k h L] i1 by (simp add: file_at_def)
  moreover obtain b where "node_at ?h1 (root @ state_path j) = Some (File b)"
    using stored_not_Dir[OF st] s1 by auto
  ultimately have i2: "node_at (prune_completed L root rf h) (root @ index_path k) = node_at h (root @ index_path k)"
    using prune_orphaned_keeps_claim[OF assms(1)] i1 by (simp add: prune_completed_def Let_def)
  then show "owner L root (prune_completed L root rf h) k = Some j"
    using assms(2) owner_cong[of root "prune_completed L root rf h" k h L] by (simp add: file_at_def)
  have "node_at (prune_completed L root rf h) (root @ state_path j) = node_at h (root @ state_path j)"
    by (rule prune_completed_keeps) (use st nd in auto)
  then show "stored L root (prune_completed L root rf h) (state_path j) = Some t"
    using st stored_node[of "prune_completed L root rf h" root "state_path j" h L] by simp
qed

section \<open>Properties\<close>

text \<open>
  (C13) The retention sweep never touches unfinished work: the record of a transaction that is still
  in progress is the same after the sweep, for every retention period and every failure of a call.
\<close>

theorem sweep_keeps_in_progress:
  assumes "stored L root h (state_path i) = Some t" and "ts_status t = InProgress"
  shows "stored L root (prune_completed L root retain_for h) (state_path i) = Some t"
proof -
  have "node_at (prune_completed L root retain_for h) (root @ state_path i) = node_at h (root @ state_path i)"
    by (rule prune_completed_keeps) (use assms in_progress_not_due in auto)
  with assms(1) stored_node[of "prune_completed L root retain_for h" root "state_path i" h L]
  show ?thesis by simp
qed

definition example_running :: TransactionState where
  "example_running = TransactionState_start (example_host []) example_id (Some example_key) ''site.deploy''"

definition example_failed :: TransactionState where
  "example_failed = example_running\<lparr>ts_status := Failed, ts_finished_at := Some 0, ts_outcome := Some
     \<lparr> oc_ok = False, oc_result = None, oc_error_code = Some Timeout, oc_error_message = Some ''late'' \<rparr>\<rparr>"

definition example_state_crates :: crates where
  "example_state_crates = table_crates [TransactionState_json example_running, TransactionState_json example_failed]"

text \<open>A site state directory with one transaction file, its text one of the two above.\<close>

definition example_store :: "string \<Rightarrow> host" where
  "example_store text = example_host [([''s''], Dir), ([''s'', ''transactions''], Dir),
     ([''s'', ''transactions'', example_id @ ''.json''], File text)]"

theorem sweep_keeps_in_progress_witness:
  "stored example_state_crates [''s''] (prune_completed example_state_crates [''s''] 0 (example_store []))
     (state_path example_id) = Some example_running"
proof -
  have "stored example_state_crates [''s''] (example_store []) (state_path example_id) = Some example_running"
    and "ts_status example_running = InProgress"
    by code_simp+
  then show ?thesis by (rule sweep_keeps_in_progress)
qed

text \<open>
  (C14) The sweep does its work: when no call fails, a finished transaction that is due (finished at
  least the retention period ago by every reading of the clock) is gone after it.
\<close>

theorem sweep_removes_due:
  assumes "healthy h" and "node_at h (root @ [''transactions'']) = Some Dir"
    and "safe_component name" and "ends_with name ''.json''" and "utf8_ok name"
    and "stored L root h [''transactions'', name] = Some t" and "\<And>k. due retain_for (clock h k) t"
    and "node_at h (root @ [''deployment-recovery'', name]) \<noteq> Some Dir"
  shows "node_at (prune_completed L root retain_for h) (root @ [''transactions'', name]) = None"
  using assms by (rule prune_completed_done)

theorem sweep_removes_due_witness:
  "node_at (prune_completed example_state_crates [''s''] 0 (example_store ''a''))
     [''s'', ''transactions'', example_id @ ''.json''] = None"
proof -
  have h: "healthy (example_store ''a'')" by (simp add: healthy_def example_store_def example_host_def)
  have 1: "node_at (example_store ''a'') ([''s''] @ [''transactions'']) = Some Dir"
    "safe_component (example_id @ ''.json'')" "ends_with (example_id @ ''.json'') ''.json''"
    "utf8_ok (example_id @ ''.json'')"
    "stored example_state_crates [''s''] (example_store ''a'') [''transactions'', example_id @ ''.json'']
       = Some example_failed"
    "node_at (example_store ''a'') ([''s''] @ [''deployment-recovery'', example_id @ ''.json'']) \<noteq> Some Dir"
    by code_simp+
  have d: "due 0 (clock (example_store ''a'') k) example_failed" for k
    by (simp add: due_def example_failed_def)
  from sweep_removes_due[OF h 1(1-5) d 1(6)] show ?thesis by simp
qed

end
