(* ===== verification/AuditLog.thy ===== *)
theory AuditLog
  imports TxState
begin

text \<open>
  The audit log (\<open>src/src/transaction/audit.rs\<close>): one JSON Lines entry per lifecycle fact,
  appended and flushed, and the progress statuses of \<open>src/src/protocol/progress.rs\<close>.
\<close>

section \<open>Events\<close>

definition AUDIT_SCHEMA_VERSION :: u32 where "AUDIT_SCHEMA_VERSION = 1"

datatype ProgressStatus = Progress_Start | Progress_Ok | Progress_Failed

definition ProgressStatus_json :: "ProgressStatus \<Rightarrow> json" where
  "ProgressStatus_json s = JStr (case s of
     Progress_Start \<Rightarrow> ''start'' | Progress_Ok \<Rightarrow> ''ok'' | Progress_Failed \<Rightarrow> ''failed'')"

datatype AuditEvent =
    MutationStart RequestId "IdempotencyKey option" string
  | Progress RequestId string ProgressStatus
  | AuditResult RequestId bool "ErrorCode option"
  | LockRecovered RequestId RequestId u64

record AuditRecord =
  ar_schema_version :: u32
  ar_recorded_at :: u64
  ar_event :: AuditEvent

definition AuditRecord_new :: "host \<Rightarrow> AuditEvent \<Rightarrow> AuditRecord" where
  "AuditRecord_new h event =
     \<lparr> ar_schema_version = AUDIT_SCHEMA_VERSION, ar_recorded_at = unix_now_secs h, ar_event = event \<rparr>"

definition audit_mutation_start ::
  "host \<Rightarrow> RequestId \<Rightarrow> IdempotencyKey option \<Rightarrow> string \<Rightarrow> AuditRecord" where
  "audit_mutation_start h request_id key operation = AuditRecord_new h (MutationStart request_id key operation)"

definition audit_progress :: "host \<Rightarrow> RequestId \<Rightarrow> string \<Rightarrow> ProgressStatus \<Rightarrow> AuditRecord" where
  "audit_progress h request_id step status = AuditRecord_new h (Progress request_id step status)"

definition audit_result :: "host \<Rightarrow> RequestId \<Rightarrow> bool \<Rightarrow> ErrorCode option \<Rightarrow> AuditRecord" where
  "audit_result h request_id ok error_code = AuditRecord_new h (AuditResult request_id ok error_code)"

definition audit_lock_recovered :: "host \<Rightarrow> RequestId \<Rightarrow> RequestId \<Rightarrow> u64 \<Rightarrow> AuditRecord" where
  "audit_lock_recovered h request_id previous_holder held_for =
     AuditRecord_new h (LockRecovered request_id previous_holder held_for)"

text \<open>The event is tagged by \<open>event\<close> and flattened into the record.\<close>

fun AuditEvent_fields :: "AuditEvent \<Rightarrow> (string \<times> json) list" where
  "AuditEvent_fields (MutationStart i k oper) =
     [(''event'', JStr ''MUTATION_START''), (''requestId'', JStr i),
      (''idempotencyKey'', opt_json JStr k), (''operation'', JStr oper)]"
| "AuditEvent_fields (Progress i step status) =
     [(''event'', JStr ''PROGRESS''), (''requestId'', JStr i), (''step'', JStr step),
      (''status'', ProgressStatus_json status)]"
| "AuditEvent_fields (AuditResult i k code) =
     [(''event'', JStr ''RESULT''), (''requestId'', JStr i), (''ok'', JBool k),
      (''errorCode'', opt_json ErrorCode_json code)]"
| "AuditEvent_fields (LockRecovered i prev secs) =
     [(''event'', JStr ''LOCK_RECOVERED''), (''requestId'', JStr i),
      (''previousHolder'', JStr prev), (''heldForSecs'', json_u64 secs)]"

definition AuditRecord_json :: "AuditRecord \<Rightarrow> json" where
  "AuditRecord_json r = JObj
     ([(''schemaVersion'', json_u32 (ar_schema_version r)),
       (''recordedAtUnixSecs'', json_u64 (ar_recorded_at r))] @ AuditEvent_fields (ar_event r))"

section \<open>Appending\<close>

datatype AuditError = Audit_Serialization | Audit_Io

definition newline :: char where "newline = char_of (10 :: nat)"

definition audit_append ::
  "crates \<Rightarrow> ManagedRoot \<Rightarrow> path \<Rightarrow> AuditRecord \<Rightarrow> host \<Rightarrow> (AuditError + unit) \<times> host" where
  "audit_append L root p record h =
     (case to_vec (cr_json L) AuditRecord_json record of
        None \<Rightarrow> (Err Audit_Serialization, h)
      | Some json \<Rightarrow> apfst (map_err (\<lambda>_. Audit_Io)) (append_file root p (json @ [newline]) h))"

lemma audit_append_frame [host_frame]:
  "q \<noteq> root @ p \<Longrightarrow> node_at (snd (audit_append L root p r h)) q = node_at h q"
  by (simp add: audit_append_def append_file_frame split: option.splits)

lemma audit_append_env [host_frame, simp]: "env (snd (audit_append L root p r h)) = env h"
  by (simp add: audit_append_def split: option.splits)

lemma audit_append_extends:
  assumes "file_at root h p = Some b"
  shows "\<exists>t. file_at root (snd (audit_append L root p r h)) p = Some (b @ t)"
proof (cases "to_vec (cr_json L) AuditRecord_json r")
  case None
  with assms show ?thesis by (simp add: audit_append_def)
next
  case (Some j)
  from assms have "node_at h (root @ p) = Some (File b)"
    by (simp add: file_at_def split: option.splits node.splits)
  from append_file_extends[OF this, of "j @ [newline]"] Some show ?thesis
    by (auto simp: audit_append_def file_at_def)
qed

lemma audit_append_Ok:
  assumes "audit_append L root p r h = (Ok (), h')"
  shows "\<exists>j. to_vec (cr_json L) AuditRecord_json r = Some j \<and>
    file_at root h' p = Some ((case file_at root h p of None \<Rightarrow> [] | Some b \<Rightarrow> b) @ j @ [newline])"
proof (cases "to_vec (cr_json L) AuditRecord_json r")
  case None
  with assms show ?thesis by (simp add: audit_append_def)
next
  case (Some j)
  with assms have "append_file root p (j @ [newline]) h = (Ok (), h')"
    by (cases "append_file root p (j @ [newline]) h") (auto simp: audit_append_def)
  from append_file_Ok[OF this] Some show ?thesis by (simp add: file_at_def)
qed

end
