(* ===== verification/Preflight.thy ===== *)
theory Preflight
  imports Prune AuditLog
begin

text \<open>
  The admission sequence of every mutation (\<open>src/src/mutation/preflight.rs\<close>): retention sweep,
  idempotency key, site lock, transaction record, audit event.
\<close>

section \<open>Paths and results\<close>

definition lock_path :: path where
  "lock_path = [''locks'', ''mutation.lock'']"

definition audit_path :: path where
  "audit_path = [''audit'', ''events.jsonl'']"

record Admitted =
  ad_lock :: path
  ad_state :: TransactionState

datatype Outcome = Proceed Admitted | Replay RequestId

datatype PreflightError =
    Pf_Idempotency IndexError
  | Pf_Lock LockError
  | Pf_State StateError
  | Pf_Audit AuditError

section \<open>The sequence\<close>

text \<open>What the idempotency key resolves to: the recorded request, or new work together with the
  key whose orphaned claim has to be taken over under the lock.\<close>

datatype KeyResolution = KeyReplay RequestId | KeyNew "IdempotencyKey option"

definition resolve_key ::
  "crates \<Rightarrow> ManagedRoot \<Rightarrow> RequestId \<Rightarrow> IdempotencyKey option \<Rightarrow> host \<Rightarrow>
     (PreflightError + KeyResolution) \<times> host" where
  "resolve_key L site_state request_id idempotency_key h =
     (case idempotency_key of
        None \<Rightarrow> (Ok (KeyNew None), h)
      | Some key \<Rightarrow>
          try_io (claim L site_state key request_id h) Pf_Idempotency (\<lambda>res h.
            (case res of
               Claimed \<Rightarrow> (Ok (KeyNew None), h)
             | AlreadyClaimed existing \<Rightarrow>
                 (case State_load L site_state (state_path existing) h of
                    (Inr _, h) \<Rightarrow> (Ok (KeyReplay existing), h)
                  | (Inl State_NotFound, h) \<Rightarrow> (Ok (KeyNew (Some key)), h)
                  | (Inl other, h) \<Rightarrow> (Err (Pf_State other), h)))))"

text \<open>The statements that run with the lock held.\<close>

definition open_transaction ::
  "crates \<Rightarrow> ManagedRoot \<Rightarrow> RequestId \<Rightarrow> IdempotencyKey option \<Rightarrow> string \<Rightarrow> IdempotencyKey option \<Rightarrow>
     host \<Rightarrow> (PreflightError + TransactionState) \<times> host" where
  "open_transaction L site_state request_id idempotency_key operation reclaim_key h =
     try_io (case reclaim_key of None \<Rightarrow> (Ok (), h) | Some key \<Rightarrow> reclaim L site_state key request_id h)
       Pf_Idempotency (\<lambda>_ h.
     let transaction_state = TransactionState_start h request_id idempotency_key operation in
     try_io (State_create L site_state (state_path request_id) transaction_state h) Pf_State (\<lambda>_ h.
     try_io (audit_append L site_state audit_path
               (audit_mutation_start h request_id idempotency_key operation) h) Pf_Audit (\<lambda>_ h.
       (Ok transaction_state, h))))"

definition preflight_run ::
  "crates \<Rightarrow> ManagedRoot \<Rightarrow> RequestId \<Rightarrow> IdempotencyKey option \<Rightarrow> string \<Rightarrow> host \<Rightarrow>
     (PreflightError + Outcome) \<times> host" where
  "preflight_run L site_state request_id idempotency_key operation h =
     (let h = prune_completed L site_state DEFAULT_COMPLETED_RETENTION h in
      try_io (resolve_key L site_state request_id idempotency_key h) id (\<lambda>resolution h.
        (case resolution of
           KeyReplay existing \<Rightarrow> (Ok (Replay existing), h)
         | KeyNew reclaim_key \<Rightarrow>
             try_io (lock_acquire L site_state lock_path request_id h) Pf_Lock (\<lambda>lock h.
               (case open_transaction L site_state request_id idempotency_key operation reclaim_key h of
                  (Inl e, h) \<Rightarrow> (Err e, release lock h)
                | (Inr state, h) \<Rightarrow> (Ok (Proceed \<lparr> ad_lock = lock, ad_state = state \<rparr>), h))))))"

definition open_site_state :: "ManagedRoot \<Rightarrow> SiteId \<Rightarrow> host \<Rightarrow> ManagedRoot io" where
  "open_site_state engine_state site_id h =
     (let relative = expect_path (''sites/'' @ site_id) in
      try_io (create_dir_all engine_state relative h) id (\<lambda>_ h.
      try_io (open_managed_dir engine_state relative h) id (\<lambda>site_state h.
      try_io (create_dir_all site_state (expect_path ''locks'') h) id (\<lambda>_ h.
      try_io (create_dir_all site_state (expect_path ''transactions'') h) id (\<lambda>_ h.
      try_io (create_dir_all site_state (expect_path ''audit'') h) id (\<lambda>_ h.
        (Ok site_state, h)))))))"

section \<open>The formatted paths parse\<close>

lemma preflight_paths_parse:
  "SiteRelativePath_parse ''locks/mutation.lock'' = Ok lock_path"
  "SiteRelativePath_parse ''audit/events.jsonl'' = Ok audit_path"
  by (simp_all add: SiteRelativePath_parse_Ok lock_path_def audit_path_def safe_component_def)

lemma site_path_parse:
  "uuid_wf s \<Longrightarrow> SiteRelativePath_parse (''sites/'' @ s) = Ok [''sites'', s]"
  using parse_two[of "''sites''" s] uuid_component_self[of s] by simp

section \<open>Where preflight works\<close>

definition preflight_area :: "ManagedRoot \<Rightarrow> path \<Rightarrow> bool" where
  "preflight_area root q = (\<exists>d xs. q = root @ d # xs \<and>
     d \<in> {''transactions'', ''deployment-recovery'', ''plans'', ''pending'', ''locks'', ''audit''})"

definition same_outside :: "(path \<Rightarrow> bool) \<Rightarrow> host \<Rightarrow> host \<Rightarrow> bool" where
  "same_outside A h h' = (env' h' = env' h \<and> (\<forall>q. \<not> A q \<longrightarrow> node_at h' q = node_at h q))"

lemma same_outside_refl [simp]: "same_outside A h h"
  by (simp add: same_outside_def)

lemma same_outside_trans: "same_outside A h h' \<Longrightarrow> same_outside A h' h'' \<Longrightarrow> same_outside A h h''"
  by (simp add: same_outside_def)

lemma same_outside_try_io:
  assumes "same_outside A h (snd r)" and "\<And>x w. r = (Ok x, w) \<Longrightarrow> same_outside A w (snd (k x w))"
  shows "same_outside A h (snd (try_io r f k))"
  using assms(1) assms(2)[of _ "snd r"] same_outside_trans
  by (cases rule: try_io_cases[of r f k]) (fastforce simp: same_outside_def)+

lemma area_simps [simp]:
  "preflight_area root (root @ state_path i)" "preflight_area root (root @ lock_path)"
  "preflight_area root (root @ audit_path)" "preflight_area root (root @ index_path k)"
  "preflight_area root (root @ butlast (index_path k) @ [last (index_path k) @ ''.tmp''])"
  by (simp_all add: preflight_area_def state_path_def lock_path_def audit_path_def index_path_def
      idempotency_dir_def)

lemma same_outside_prune: "same_outside (preflight_area root) h (prune_completed L root rf h)"
  unfolding same_outside_def
proof (intro conjI allI impI)
  fix q assume "\<not> preflight_area root q"
  then have "\<not> sweep_area root q" by (auto simp: preflight_area_def sweep_area_def)
  then show "node_at (prune_completed L root rf h) q = node_at h q"
    by (rule only_removes_keeps[OF prune_completed_area])
qed (simp add: env'_def)

lemma same_outside_node:
  assumes "env (snd r) = env h" and "\<And>q. \<not> A q \<Longrightarrow> node_at (snd r) q = node_at h q"
  shows "same_outside A h (snd r)"
  using assms by (simp add: same_outside_def env'_def)

lemma same_outside_read:
  "node_at (snd r) = node_at h \<Longrightarrow> env (snd r) = env h \<Longrightarrow> same_outside A h (snd r)"
  by (simp add: same_outside_def env'_def)

lemma same_outside_claim: "same_outside (preflight_area root) h (snd (claim L root key i h))"
  unfolding claim_def
proof (rule same_outside_try_io)
  show "same_outside (preflight_area root) h (snd (create_dir_all root idempotency_dir h))"
  proof (rule same_outside_node)
    fix q assume "\<not> preflight_area root q"
    then show "node_at (snd (create_dir_all root idempotency_dir h)) q = node_at h q"
      by (intro create_dir_all_frame) (auto simp: idempotency_dir_def preflight_area_def Cons_eq_append_conv)
  qed simp
next
  fix x w
  have "same_outside (preflight_area root) w (snd (claim_file L root key b w))" for b
  proof (rule same_outside_node)
    fix q assume q: "\<not> preflight_area root q"
    obtain r h1 where c: "create_new root (index_path key) b w = (r, h1)" by fastforce
    have "q \<noteq> root @ index_path key" using q by auto
    from create_new_frame[OF this, of b w] c have n: "node_at h1 q = node_at w q" by simp
    have "node_at (snd (resolve_existing L root (index_path key) key h1)) = node_at h1"
      using resolve_existing_cases(1)[of L root key h1] by (metis prod.collapse)
    with c n show "node_at (snd (claim_file L root key b w)) q = node_at w q"
      by (simp add: claim_file_def split: sum.splits)
  qed simp
  then show "same_outside (preflight_area root) w (snd
      (case to_vec (cr_json L) IndexRecord_json (new_index_record key i w) of
         None \<Rightarrow> (Err Index_Io, w) | Some b \<Rightarrow> claim_file L root key b w))"
    by (simp split: option.splits)
qed

lemma same_outside_resolve: "same_outside (preflight_area root) h (snd (resolve_key L root i key h))"
proof (cases key)
  case None
  then show ?thesis by (simp add: resolve_key_def)
next
  case (Some k)
  have "same_outside (preflight_area root) w (snd (State_load L root p w))" for p w
    by (rule same_outside_read) simp_all
  then have load: "State_load L root p w = (r, w') \<Longrightarrow> same_outside (preflight_area root) w w'" for p w r w'
    by (metis snd_conv)
  show ?thesis
    unfolding resolve_key_def Some option.case
    by (rule same_outside_try_io)
       (auto simp: same_outside_claim split: Resolution.splits prod.splits sum.splits StateError.splits
         dest: load)
qed

lemma same_outside_lock: "same_outside (preflight_area root) h (snd (lock_acquire L root lock_path i h))"
  unfolding same_outside_def
proof (intro conjI allI impI)
  fix q assume "\<not> preflight_area root q"
  then have "q \<noteq> root @ lock_path" by auto
  then show "node_at (snd (lock_acquire L root lock_path i h)) q = node_at h q" by (rule lock_acquire_frame)
qed simp

lemma same_outside_reclaim: "same_outside (preflight_area root) h (snd (reclaim L root key i h))"
proof (rule same_outside_node)
  fix q assume "\<not> preflight_area root q"
  then have "q \<noteq> root @ index_path key" "q \<noteq> root @ butlast (index_path key) @ [last (index_path key) @ ''.tmp'']"
    by auto
  then show "node_at (snd (reclaim L root key i h)) q = node_at h q"
    by (simp add: reclaim_def write_atomic_frame split: option.splits)
qed simp

lemma same_outside_open:
  "same_outside (preflight_area root) h (snd (open_transaction L root i key oper rk h))"
proof -
  have create: "same_outside (preflight_area root) w (snd (State_create L root (state_path i) s w))" for s w
    by (rule same_outside_node, simp, rule State_create_frame) auto
  have audit: "same_outside (preflight_area root) w (snd (audit_append L root audit_path r w))" for r w
    by (rule same_outside_node, simp, rule audit_append_frame) auto
  show ?thesis
    unfolding open_transaction_def Let_def
    by (intro same_outside_try_io) (auto simp: create audit same_outside_reclaim split: option.splits)
qed

lemma same_outside_release [simp]: "same_outside A h (release p h') = same_outside A h h'"
  by (simp add: same_outside_def)

lemma same_outside_run:
  "same_outside (preflight_area root) h (snd (preflight_run L root i key oper h))"
proof -
  have opened: "open_transaction L root i key oper rk w = (r, w') \<Longrightarrow> same_outside (preflight_area root) w w'"
    for rk w r w' using same_outside_open[of root w L i key oper rk] by simp
  let ?h = "prune_completed L root DEFAULT_COMPLETED_RETENTION h"
  have "same_outside (preflight_area root) ?h (snd (preflight_run L root i key oper h))"
    unfolding preflight_run_def Let_def
    by (intro same_outside_try_io)
       (auto simp: same_outside_resolve same_outside_lock intro!: same_outside_try_io
         split: KeyResolution.splits prod.splits sum.splits dest: opened)
  with same_outside_prune show ?thesis using same_outside_trans by blast
qed

section \<open>What each outcome means\<close>

lemma resolve_key_env [host_frame, simp]: "env (snd (resolve_key L root i key h)) = env h"
proof (cases key)
  case (Some k)
  have load: "State_load L root p w = (r, w') \<Longrightarrow> env w' = env w" for p w r w'
    using State_env(3)[of L root p w] by simp
  show ?thesis
    unfolding resolve_key_def Some option.case
    by (rule try_io_keeps[where g = env])
       (auto split: Resolution.splits prod.splits sum.splits StateError.splits dest: load)
qed (simp add: resolve_key_def)

lemma open_transaction_env [host_frame, simp]:
  "env (snd (open_transaction L root i key oper rk h)) = env h"
  unfolding open_transaction_def Let_def
  by (intro try_io_keeps[where g = env]) (simp_all split: option.splits)

text \<open>The way a run goes, with the intermediate hosts named.\<close>

lemma preflight_run_cases:
  fixes L root i key oper h
  defines "h0 \<equiv> prune_completed L root DEFAULT_COMPLETED_RETENTION h"
  obtains (unresolved) e h' where "preflight_run L root i key oper h = (Err e, h')"
      "resolve_key L root i key h0 = (Err e, h')" "flocked h' = flocked h"
  | (replay) j h' where "preflight_run L root i key oper h = (Ok (Replay j), h')"
      "resolve_key L root i key h0 = (Ok (KeyReplay j), h')" "flocked h' = flocked h"
  | (busy) rk e h1 h' where "preflight_run L root i key oper h = (Err (Pf_Lock e), h')"
      "resolve_key L root i key h0 = (Ok (KeyNew rk), h1)"
      "lock_acquire L root lock_path i h1 = (Err e, h')" "flocked h' = flocked h"
  | (aborted) rk e h1 h2 h3 where "preflight_run L root i key oper h = (Err e, release (root @ lock_path) h3)"
      "resolve_key L root i key h0 = (Ok (KeyNew rk), h1)"
      "lock_acquire L root lock_path i h1 = (Ok (root @ lock_path), h2)"
      "open_transaction L root i key oper rk h2 = (Err e, h3)"
      "\<not> flocked h (root @ lock_path)" "flocked h3 = (flocked h)(root @ lock_path := True)"
  | (admitted) rk h1 h2 h3 s where
      "preflight_run L root i key oper h = (Ok (Proceed \<lparr> ad_lock = root @ lock_path, ad_state = s \<rparr>), h3)"
      "resolve_key L root i key h0 = (Ok (KeyNew rk), h1)"
      "lock_acquire L root lock_path i h1 = (Ok (root @ lock_path), h2)"
      "open_transaction L root i key oper rk h2 = (Ok s, h3)"
      "\<not> flocked h (root @ lock_path)" "flocked h3 = (flocked h)(root @ lock_path := True)"
proof -
  obtain r h1 where rs: "resolve_key L root i key h0 = (r, h1)" by fastforce
  have "env h0 = env h" by (simp add: h0_def)
  moreover have "env h1 = env h0" using resolve_key_env[of L root i key h0] rs by simp
  ultimately have f1: "flocked h1 = flocked h" by (intro flocked_env) simp
  have run: "preflight_run L root i key oper h = try_io (r, h1) id (\<lambda>resolution h.
        (case resolution of
           KeyReplay existing \<Rightarrow> (Ok (Replay existing), h)
         | KeyNew reclaim_key \<Rightarrow>
             try_io (lock_acquire L root lock_path i h) Pf_Lock (\<lambda>lock h.
               (case open_transaction L root i key oper reclaim_key h of
                  (Inl e, h) \<Rightarrow> (Err e, release lock h)
                | (Inr state, h) \<Rightarrow> (Ok (Proceed \<lparr> ad_lock = lock, ad_state = state \<rparr>), h)))))"
    by (simp add: preflight_run_def Let_def h0_def[symmetric] rs)
  consider e where "r = Err e" | j where "r = Ok (KeyReplay j)" | rk where "r = Ok (KeyNew rk)"
    by (cases r; metis KeyResolution.exhaust)
  then show thesis
  proof cases
    case 1
    with unresolved[of e h1] rs run f1 show ?thesis by simp
  next
    case 2
    with replay[of j h1] rs run f1 show ?thesis by simp
  next
    case 3
    show ?thesis
    proof (cases rule: lock_acquire_cases[of L root lock_path i h1])
      case (refused e h')
      with busy[of e h' rk h1] 3 rs run f1 show ?thesis by simp
    next
      case (granted h2)
      obtain x h3 where op: "open_transaction L root i key oper rk h2 = (x, h3)" by fastforce
      then have "flocked h3 = flocked h2"
        using flocked_env[OF open_transaction_env[of L root i key oper rk h2]] by simp
      with granted f1 have f3: "flocked h3 = (flocked h)(root @ lock_path := True)" by simp
      show ?thesis
      proof (cases x)
        case (Inl e)
        with aborted[of e h3 rk h1 h2] 3 rs run granted op f1 f3 show ?thesis by simp
      next
        case (Inr s)
        with admitted[of s h3 rk h1 h2] 3 rs run granted op f1 f3 show ?thesis by simp
      qed
    qed
  qed
qed

text \<open>The lock table after a run: the site lock is held exactly when the request was admitted.\<close>

lemma preflight_run_flocked:
  assumes "preflight_run L root i key oper h = (r, h')"
  shows "case r of Inr (Proceed a) \<Rightarrow> ad_lock a = root @ lock_path \<and> \<not> flocked h (root @ lock_path)
           \<and> flocked h' = (flocked h)(root @ lock_path := True)
         | _ \<Rightarrow> flocked h' = flocked h"
  using assms by (cases rule: preflight_run_cases[of L root i key oper h]) (auto simp: fun_eq_iff)

lemma distinct_paths [simp]:
  "state_path i \<noteq> audit_path" "audit_path \<noteq> state_path i" "index_path k \<noteq> audit_path"
  "index_path k \<noteq> state_path i" "lock_path \<noteq> state_path i" "state_path i \<noteq> lock_path"
  "index_path k \<noteq> lock_path" "audit_path \<noteq> index_path k" "audit_path \<noteq> lock_path" "state_path i \<noteq> []"
  "state_path i \<noteq> butlast (index_path k) @ [last (index_path k) @ ''.tmp'']"
  "audit_path \<noteq> butlast (index_path k) @ [last (index_path k) @ ''.tmp'']"
  by (simp_all add: state_path_def audit_path_def index_path_def idempotency_dir_def lock_path_def)

lemma reclaim_frame:
  assumes "q \<noteq> index_path k" and "q \<noteq> butlast (index_path k) @ [last (index_path k) @ ''.tmp'']"
  shows "file_at root (snd (reclaim L root k i h)) q = file_at root h q"
  using assms managed.replace_frame[of "index_path k" q root]
  by (simp add: reclaim_def split: option.splits)

lemma open_transaction_Ok:
  assumes run: "open_transaction L root i key oper rk h = (Ok s, h')" and L: "crates_ok L" and i: "uuid_wf i"
  shows "ts_status s = InProgress" and "ts_request_id s = i" and "ts_idempotency_key s = key"
    and "ts_operation s = oper"
    and "stored L root h' (state_path i) = Some s" and "file_at root h (state_path i) = None"
    and "\<And>k. rk = Some k \<Longrightarrow> owner L root h' k = Some i"
    and "\<And>k. rk = None \<Longrightarrow> owner L root h' k = owner L root h k"
    and "\<exists>hm j t. to_vec (cr_json L) AuditRecord_json (audit_mutation_start hm i key oper) = Some j
        \<and> file_at root h' audit_path = Some (t @ j @ [newline])
        \<and> t = (case file_at root h audit_path of None \<Rightarrow> [] | Some b \<Rightarrow> b)"
proof -
  let ?r = "case rk of None \<Rightarrow> (Ok (), h) | Some key \<Rightarrow> reclaim L root key i h"
  from run obtain h1 h2 where r1: "?r = (Ok (), h1)" and s: "s = TransactionState_start h1 i key oper"
    and c: "State_create L root (state_path i) s h1 = (Ok (), h2)"
    and a: "audit_append L root audit_path (audit_mutation_start h2 i key oper) h2 = (Ok (), h')"
    by (auto simp: open_transaction_def Let_def try_io_Ok_iff)
  show "ts_status s = InProgress" "ts_request_id s = i" "ts_idempotency_key s = key" "ts_operation s = oper"
    by (simp_all add: s TransactionState_start_def)
  have v: "state_valid s" using i by (simp add: s start_valid)
  note cr = State_create_Ok[OF c L v]
  have fa: "file_at root h' q = file_at root h2 q" if "q \<noteq> audit_path" for q
    using audit_append_frame[of "root @ q" root audit_path L] a that by (simp add: file_at_def) (metis snd_conv)
  have f1: "file_at root h1 q = file_at root h q"
    if "\<And>k. q \<noteq> index_path k" "\<And>k. q \<noteq> butlast (index_path k) @ [last (index_path k) @ ''.tmp'']" for q
    using r1 reclaim_frame[of q _ root L i h] that by (cases rk) (auto, metis snd_conv)
  show "stored L root h' (state_path i) = Some s"
    using cr(2) fa[of "state_path i"] by (simp add: stored_def)
  show "file_at root h (state_path i) = None" using cr(1) f1[of "state_path i"] by simp
  have ow: "owner L root h' k = owner L root h1 k" for k
    using fa[of "index_path k"] cr(3)[of "index_path k"] by (intro owner_cong) simp
  show "\<And>k. rk = Some k \<Longrightarrow> owner L root h' k = Some i"
    using r1 reclaim_Ok[of L root _ i h h1] L i ow by simp
  show "\<And>k. rk = None \<Longrightarrow> owner L root h' k = owner L root h k" using r1 ow by simp
  have "file_at root h2 audit_path = file_at root h audit_path"
    using cr(3)[of audit_path] f1[of audit_path] by simp
  with audit_append_Ok[OF a] show "\<exists>hm j t. to_vec (cr_json L) AuditRecord_json (audit_mutation_start hm i key oper) = Some j
        \<and> file_at root h' audit_path = Some (t @ j @ [newline])
        \<and> t = (case file_at root h audit_path of None \<Rightarrow> [] | Some b \<Rightarrow> b)"
    by (metis (no_types))
qed

lemma lock_acquire_files:
  "lock_acquire L root lock_path i h = (r, h') \<Longrightarrow> q \<noteq> lock_path \<Longrightarrow> file_at root h' q = file_at root h q"
  using lock_acquire_frame[of "root @ q" root lock_path L i h] by (simp add: file_at_def)

lemma resolve_key_new:
  assumes "resolve_key L root i (Some k) h = (Ok (KeyNew rk), h')" and "crates_ok L" and "uuid_wf i"
  shows "rk = None \<and> owner L root h' k = Some i
    \<or> rk = Some k \<and> (\<exists>j. owner L root h k = Some j \<and> file_at root h (state_path j) = None)"
proof -
  from assms(1) obtain res h1 where c: "claim L root k i h = (Ok res, h1)"
    and rest: "(case res of
               Claimed \<Rightarrow> (Ok (KeyNew None), h1)
             | AlreadyClaimed existing \<Rightarrow>
                 (case State_load L root (state_path existing) h1 of
                    (Inr _, h) \<Rightarrow> (Ok (KeyReplay existing), h)
                  | (Inl State_NotFound, h) \<Rightarrow> (Ok (KeyNew (Some k)), h)
                  | (Inl other, h) \<Rightarrow> (Err (Pf_State other), h))) = (Ok (KeyNew rk), h')"
    by (auto simp: resolve_key_def try_io_Ok_iff)
  show ?thesis
  proof (cases res)
    case Claimed
    with rest c claim_Claimed(2)[of L root k i h h1] assms(2,3) show ?thesis by simp
  next
    case (AlreadyClaimed j)
    with rest have "State_load L root (state_path j) h1 = (Err State_NotFound, h')" and "rk = Some k"
      by (auto split: prod.splits sum.splits StateError.splits)
    moreover from this have "file_at root h1 (state_path j) = None"
      using State_load_NotFound by (fastforce simp: file_at_def)
    moreover note claim_AlreadyClaimed[of L root k i h j h1]
    ultimately show ?thesis using c AlreadyClaimed by simp
  qed
qed

lemma resolve_key_replay:
  assumes "resolve_key L root i key h = (Ok (KeyReplay j), h')"
  shows "\<exists>k t. key = Some k \<and> owner L root h k = Some j \<and> stored L root h (state_path j) = Some t
    \<and> file_at root h' = file_at root h"
proof -
  obtain k where k: "key = Some k" using assms by (cases key) (simp_all add: resolve_key_def)
  obtain res h1 where cl: "claim L root k i h = (Ok res, h1)"
    using assms k by (auto simp: resolve_key_def try_io_Ok_iff)
  with assms k obtain x where x: "res = AlreadyClaimed x" by (cases res) (simp_all add: resolve_key_def)
  obtain r h2 where ld: "State_load L root (state_path x) h1 = (r, h2)" by fastforce
  with assms k cl x obtain t where "r = Ok t" "x = j" "h2 = h'"
    by (cases r) (auto simp: resolve_key_def split: StateError.splits)
  with k cl x ld have c: "key = Some k" "claim L root k i h = (Ok (AlreadyClaimed j), h1)"
    "State_load L root (state_path j) h1 = (Ok t, h')" by simp_all
  note cl = claim_AlreadyClaimed[OF c(2)]
  have "stored L root h1 (state_path j) = Some t" using State_load_Ok[OF c(3)] .
  then have "stored L root h (state_path j) = Some t" by (simp add: stored_def cl(2))
  moreover have "node_at h' = node_at h1" using c(3) node_at_State_load[of L root "state_path j" h1] by simp
  then have "file_at root h' = file_at root h" using file_at_cong cl(2) by metis
  ultimately show ?thesis using c(1) cl(1) by blast
qed

text \<open>
  The request that is replayed: on the host as it was before the run, the key resolved to it and its
  record was readable; the record is still there after the run.
\<close>

lemma preflight_replay_recorded:
  assumes "preflight_run L root i key oper h = (Ok (Replay j), h')"
  obtains k t where "key = Some k" and "owner L root h k = Some j"
    and "stored L root h (state_path j) = Some t" and "stored L root h' (state_path j) = Some t"
proof -
  let ?h0 = "prune_completed L root DEFAULT_COMPLETED_RETENTION h"
  from assms have "resolve_key L root i key ?h0 = (Ok (KeyReplay j), h')"
    by (cases rule: preflight_run_cases[of L root i key oper h]) auto
  from resolve_key_replay[OF this] obtain k t where k: "key = Some k" "owner L root ?h0 k = Some j"
    and t: "stored L root ?h0 (state_path j) = Some t" and f: "file_at root h' = file_at root ?h0" by blast
  note rm = prune_completed_area[of root h L DEFAULT_COMPLETED_RETENTION]
  have "owner L root h k = Some j" using k(2) owner_after[OF rm] by blast
  moreover have "stored L root h (state_path j) = Some t" using stored_after[OF rm t] .
  moreover have "stored L root h' (state_path j) = Some t" using t f by (simp add: stored_def)
  ultimately show thesis using that k(1) by blast
qed

text \<open>The promise of admission.\<close>

lemma admitted_promise:
  assumes run: "preflight_run L root i key oper h = (Ok (Proceed a), h')" and L: "crates_ok L" and i: "uuid_wf i"
  shows "ad_lock a = root @ lock_path" and "\<not> flocked h (ad_lock a)" and "flocked h' (ad_lock a)"
    and "stored L root h' (state_path i) = Some (ad_state a)"
    and "ts_status (ad_state a) = InProgress" and "ts_request_id (ad_state a) = i"
    and "ts_idempotency_key (ad_state a) = key" and "ts_operation (ad_state a) = oper"
    and "\<And>k. key = Some k \<Longrightarrow> owner L root h' k = Some i"
    and "\<exists>hm j t. to_vec (cr_json L) AuditRecord_json (audit_mutation_start hm i key oper) = Some j
        \<and> file_at root h' audit_path = Some (t @ j @ [newline])"
proof -
  from run obtain rk h1 h2 s where a: "a = \<lparr> ad_lock = root @ lock_path, ad_state = s \<rparr>"
    and rs: "resolve_key L root i key (prune_completed L root DEFAULT_COMPLETED_RETENTION h) = (Ok (KeyNew rk), h1)"
    and lk: "lock_acquire L root lock_path i h1 = (Ok (root @ lock_path), h2)"
    and op: "open_transaction L root i key oper rk h2 = (Ok s, h')"
    and f: "\<not> flocked h (root @ lock_path)" "flocked h' = (flocked h)(root @ lock_path := True)"
    by (cases rule: preflight_run_cases[of L root i key oper h]) auto
  note opn = open_transaction_Ok[OF op L i]
  show "ad_lock a = root @ lock_path" "\<not> flocked h (ad_lock a)" "flocked h' (ad_lock a)"
    using a f by simp_all
  show "stored L root h' (state_path i) = Some (ad_state a)" "ts_status (ad_state a) = InProgress"
    "ts_request_id (ad_state a) = i" "ts_idempotency_key (ad_state a) = key" "ts_operation (ad_state a) = oper"
    using opn(1-5) a by simp_all
  show "\<exists>hm j t. to_vec (cr_json L) AuditRecord_json (audit_mutation_start hm i key oper) = Some j
        \<and> file_at root h' audit_path = Some (t @ j @ [newline])"
    using opn(9) by metis
  fix k assume k: "key = Some k"
  have "owner L root h2 k = owner L root h1 k"
    using lock_acquire_files[OF lk, of "index_path k"] by (intro owner_cong) simp
  with resolve_key_new[OF rs[unfolded k] L i] opn(7,8) show "owner L root h' k = Some i" by auto
qed

section \<open>Retries\<close>

lemma resolve_key_recorded:
  assumes "owner L root h k = Some j" and "stored L root h (state_path j) = Some t"
  shows "fst (resolve_key L root i (Some k) h) = Ok (KeyReplay j)
    \<or> (\<exists>e. fst (resolve_key L root i (Some k) h) = Err e)"
proof -
  obtain r h1 where c: "claim L root k i h = (r, h1)" by fastforce
  with claim_owned[OF assms(1), of i] have r: "r \<in> {Ok (AlreadyClaimed j), Err Index_Io}"
    and f: "file_at root h1 = file_at root h" by simp_all
  obtain x h2 where l: "State_load L root (state_path j) h1 = (x, h2)" by fastforce
  have "stored L root h1 (state_path j) = Some t" using assms(2) f by (simp add: stored_def)
  with State_load_stored[of L root h1 "state_path j" t] l have "x \<in> {Ok t, Err State_Io}" by simp
  with r c l show ?thesis by (auto simp: resolve_key_def)
qed

lemma retry_never_proceeds:
  assumes L: "crates_ok L" and ow: "owner L root h k = Some j"
    and st: "stored L root h (state_path j) = Some t"
    and nd: "\<not> due DEFAULT_COMPLETED_RETENTION (sweep_time h) t"
    and sl: "slot_safe L root DEFAULT_COMPLETED_RETENTION (sweep_time h) k h" and nm: "names_ok h"
  shows "fst (preflight_run L root i (Some k) oper h) = Ok (Replay j)
    \<or> (\<exists>e. fst (preflight_run L root i (Some k) oper h) = Err e)"
proof -
  let ?h0 = "prune_completed L root DEFAULT_COMPLETED_RETENTION h"
  note kept = prune_completed_keeps_claim[OF L ow st nd sl nm]
  from resolve_key_recorded[OF kept, of i] show ?thesis
    by (cases rule: preflight_run_cases[of L root i "Some k" oper h]) auto
qed

section \<open>Closed examples\<close>

definition example_preflight_crates :: crates where
  "example_preflight_crates = table_crates
     [TransactionState_json example_running,
      IndexRecord_json (new_index_record example_key example_id (example_host [])),
      LockRecord_json \<lparr> lr_schema_version = LOCK_SCHEMA_VERSION, lr_holder = example_id, lr_acquired_at = 0 \<rparr>,
      AuditRecord_json (audit_mutation_start (example_host []) example_id (Some example_key) ''site.deploy''),
      IndexRecord_json (new_index_record example_key example_id2 (example_host []))]"

definition example_site :: host where
  "example_site = example_host [([''s''], Dir), ([''s'', ''transactions''], Dir),
     ([''s'', ''locks''], Dir), ([''s'', ''audit''], Dir)]"

definition example_admission :: "(PreflightError + Outcome) \<times> host" where
  "example_admission = preflight_run example_preflight_crates [''s''] example_id (Some example_key)
     ''site.deploy'' example_site"

definition is_proceed :: "PreflightError + Outcome \<Rightarrow> bool" where
  "is_proceed r = (case r of Inr (Proceed _) \<Rightarrow> True | _ \<Rightarrow> False)"

lemma is_proceedD: "is_proceed (fst x) \<Longrightarrow> \<exists>a h'. x = (Ok (Proceed a), h')"
  by (cases x) (auto simp: is_proceed_def split: sum.splits Outcome.splits)

lemma example_admitted: "is_proceed (fst example_admission)"
  by code_simp

section \<open>Properties\<close>

text \<open>
  (C8) Admission. When preflight lets a request proceed, the request holds the site lock, which was
  free before; its own in-progress record with its id, key and operation is on disk; its idempotency
  key resolves to it; and the last line of the audit log is its start event.
\<close>

theorem admission_establishes:
  assumes "preflight_run L root i key operation h = (Ok (Proceed a), h')" and "crates_ok L" and "uuid_wf i"
  shows "ad_lock a = root @ lock_path \<and> \<not> flocked h (root @ lock_path) \<and> flocked h' (root @ lock_path)
    \<and> stored L root h' (state_path i) = Some (ad_state a)
    \<and> ts_status (ad_state a) = InProgress \<and> ts_request_id (ad_state a) = i
    \<and> ts_idempotency_key (ad_state a) = key \<and> ts_operation (ad_state a) = operation
    \<and> (\<forall>k. key = Some k \<longrightarrow> owner L root h' k = Some i)
    \<and> (\<exists>now line earlier. to_vec (cr_json L) AuditRecord_json
          (audit_mutation_start now i key operation) = Some line
        \<and> file_at root h' audit_path = Some (earlier @ line @ [newline]))"
proof -
  note p = admitted_promise[OF assms]
  show ?thesis using p(1) p(2,3)[unfolded p(1)] p(4-10) by blast
qed

theorem admission_establishes_witness:
  "\<exists>a h'. example_admission = (Ok (Proceed a), h') \<and> flocked h' [''s'', ''locks'', ''mutation.lock'']
     \<and> owner example_preflight_crates [''s''] h' example_key = Some example_id"
proof -
  obtain a h' where run: "example_admission = (Ok (Proceed a), h')"
    using is_proceedD[OF example_admitted] by blast
  have "crates_ok example_preflight_crates" by (simp add: example_preflight_crates_def)
  note est = admission_establishes[OF run[unfolded example_admission_def] this example_id_wf]
  then have "flocked h' [''s'', ''locks'', ''mutation.lock'']"
    and "owner example_preflight_crates [''s''] h' example_key = Some example_id"
    by (simp_all add: lock_path_def)
  with run show ?thesis by blast
qed

text \<open>
  (C9) No path through preflight leaks or steals the site lock: it is held afterwards, newly, exactly
  when the request was admitted; a replay and every error, at whichever step, leave every lock of
  the host as it was.
\<close>

theorem preflight_lock_discipline:
  "case preflight_run L root i key operation h of
     (Inr (Proceed a), h') \<Rightarrow> ad_lock a = root @ lock_path \<and> \<not> flocked h (root @ lock_path)
        \<and> flocked h' = (flocked h)(root @ lock_path := True)
   | (Inr (Replay j), h') \<Rightarrow> flocked h' = flocked h
   | (Inl e, h') \<Rightarrow> flocked h' = flocked h"
  using preflight_run_flocked[of L root i key operation h]
  by (cases "preflight_run L root i key operation h") (auto split: sum.splits Outcome.splits)

text \<open>
  Preflight changes nothing but its own bookkeeping: an entry that is not below one of the six
  directories it works in under the site's state root, a release or the link to the current one for
  instance, is the same afterwards, whatever the outcome.
\<close>

theorem preflight_touches_only_bookkeeping:
  assumes "\<not> preflight_area root q"
  shows "node_at (snd (preflight_run L root i key operation h)) q = node_at h q"
  using same_outside_run[of root h L i key operation] assms by (simp add: same_outside_def)

theorem preflight_touches_only_bookkeeping_witness:
  "node_at (snd example_admission) [''s'', ''current''] = node_at example_site [''s'', ''current'']"
proof -
  have "\<not> preflight_area [''s''] [''s'', ''current'']" by (simp add: preflight_area_def)
  from preflight_touches_only_bookkeeping[OF this] show ?thesis by (simp add: example_admission_def)
qed

text \<open>
  (C10) A retry does no new work. While the key is owned by an earlier request whose record, finished
  or not, is on disk and is not due for removal at the time the sweep of this run reads, a run of
  preflight with the same key never proceeds: it asks for the replay of that request or reports an
  error. (No transaction due at that time may share the key's slot; see the finding on the sweep.)
\<close>

theorem retry_replays_recorded_request:
  assumes "crates_ok L" and "owner L root h k = Some j" and "stored L root h (state_path j) = Some t"
    and "\<not> due DEFAULT_COMPLETED_RETENTION (sweep_time h) t"
    and "slot_safe L root DEFAULT_COMPLETED_RETENTION (sweep_time h) k h" and "names_ok h"
  shows "fst (preflight_run L root i (Some k) operation h) = Ok (Replay j)
    \<or> (\<exists>e. fst (preflight_run L root i (Some k) operation h) = Err e)"
  using assms by (rule retry_never_proceeds)

text \<open>A site on which a request has committed, a minute before the retry.\<close>

definition example_done :: TransactionState where
  "example_done = example_running\<lparr>ts_status := Committed, ts_finished_at := Some 100, ts_outcome := Some
     \<lparr> oc_ok = True, oc_result = Some (JStr ''done''), oc_error_code = None, oc_error_message = None \<rparr>\<rparr>"

definition example_done_crates :: crates where
  "example_done_crates = table_crates
     [TransactionState_json example_done,
      IndexRecord_json (new_index_record example_key example_id (example_host [])),
      IndexRecord_json (new_index_record example_key example_id2 ((example_host [])\<lparr>clock := \<lambda>_. 160\<rparr>))]"

definition example_done_host :: host where
  "example_done_host = (example_host [([''s''], Dir), ([''s'', ''transactions''], Dir),
     ([''s'', ''transactions'', ''idempotency''], Dir), ([''s''] @ index_path example_key, File ''a''),
     ([''s''] @ state_path example_id, File [])])\<lparr>clock := \<lambda>_. 160\<rparr>"

lemma stored_decoded: "stored L root h p = Some t \<Longrightarrow> \<exists>b. State_decode L b = Ok t"
  by (auto simp: stored_def bind_eq_Some_conv split: if_split_asm sum.split_asm)

text \<open>What every record that the example library of JSON texts can decode satisfies.\<close>

lemma table_decode:
  assumes "State_decode (table_crates xs) b = Ok t"
    and "list_all (\<lambda>n. case State_decode (table_crates xs) (replicate n CHR ''a'') of
      Inr t \<Rightarrow> Q t | Inl _ \<Rightarrow> True) [0..<length xs]"
  shows "Q t"
proof -
  from assms(1) have "b = replicate (length b) CHR ''a''" and "length b < length xs"
    by (auto simp: State_decode_def from_slice_def table_crates_def table_text_def split: option.splits if_splits)
  then have "case State_decode (table_crates xs) b of Inr t \<Rightarrow> Q t | Inl _ \<Rightarrow> True"
    using assms(2) unfolding list_all_iff by (metis atLeastLessThan_iff atLeast_upt le0 lessThan_iff set_upt)
  with assms(1) show ?thesis by simp
qed

lemma example_done_decode:
  assumes "State_decode example_done_crates b = Ok t"
  shows "t = example_done"
  by (rule table_decode[OF assms[unfolded example_done_crates_def]]) code_simp

theorem retry_replays_recorded_request_witness:
  "fst (preflight_run example_done_crates [''s''] example_id2 (Some example_key) ''site.deploy'' example_done_host)
     = Ok (Replay example_id) \<and> ts_status example_done = Committed"
proof -
  let ?L = example_done_crates
  let ?h = example_done_host
  have L: "crates_ok ?L" by (simp add: example_done_crates_def)
  have ow: "owner ?L [''s''] ?h example_key = Some example_id"
    and st: "stored ?L [''s''] ?h (state_path example_id) = Some example_done" and nm: "names_ok ?h"
    and nd: "\<not> due DEFAULT_COMPLETED_RETENTION (sweep_time ?h) example_done"
    and fin: "ts_status example_done = Committed"
    by code_simp+
  have ok: "is_ok (fst (preflight_run ?L [''s''] example_id2 (Some example_key) ''site.deploy'' ?h))"
    by code_simp
  have sl: "slot_safe ?L [''s''] DEFAULT_COMPLETED_RETENTION (sweep_time ?h) example_key ?h"
    using nd example_done_decode by (auto simp: slot_safe_def dest!: stored_decoded)
  from retry_replays_recorded_request[OF L ow st nd sl nm, of example_id2 "''site.deploy''"] ok fin
  show ?thesis by (auto simp: is_ok_iff)
qed

end
