(* ===== verification/PreflightRace.thy ===== *)
theory PreflightRace
  imports Preflight
begin

text \<open>
  Concurrent requests against one site. Each request is a process that runs the statements of
  \<open>mutation::preflight::run\<close> one call at a time on a shared host; between any two calls another
  process may run, and a process may be killed at any point, which closes its descriptors. The
  sequential \<open>preflight_run\<close> is the case where one process runs alone (\<open>drive_is_run\<close>).
\<close>

section \<open>Systems of steps\<close>

locale step_system =
  fixes initial :: "'s \<Rightarrow> bool"
    and step :: "'s \<Rightarrow> 's \<Rightarrow> bool"
    and good :: "'s \<Rightarrow> bool"
  assumes good_initial: "initial s \<Longrightarrow> good s"
    and good_step: "good s \<Longrightarrow> step s s' \<Longrightarrow> good s'"
begin

lemma good_reachable:
  assumes "initial s" and "step\<^sup>*\<^sup>* s s'"
  shows "good s'"
  using assms(2,1) by (induction rule: rtranclp_induct) (auto intro: good_initial good_step)

end

section \<open>Processes\<close>

record request =
  rq_id :: RequestId
  rq_key :: "IdempotencyKey option"
  rq_operation :: string

datatype pc =
    Begin
  | Sweeping
  | Loading IdempotencyKey RequestId
  | Locking "IdempotencyKey option"
  | Opening "IdempotencyKey option"
  | Running TransactionState
  | Replaying RequestId
  | Refused PreflightError
  | Ended

text \<open>One call of a process. The last two arms are the caller's: an admitted request does its work
  and drops the guard.\<close>

fun advance :: "crates \<Rightarrow> ManagedRoot \<Rightarrow> request \<Rightarrow> pc \<Rightarrow> host \<Rightarrow> pc \<times> host" where
  "advance L root q Begin h = (Sweeping, prune_completed L root DEFAULT_COMPLETED_RETENTION h)"
| "advance L root q Sweeping h =
     (case rq_key q of
        None \<Rightarrow> (Locking None, h)
      | Some key \<Rightarrow>
          (case claim L root key (rq_id q) h of
             (Inl e, h) \<Rightarrow> (Refused (Pf_Idempotency e), h)
           | (Inr Claimed, h) \<Rightarrow> (Locking None, h)
           | (Inr (AlreadyClaimed existing), h) \<Rightarrow> (Loading key existing, h)))"
| "advance L root q (Loading key existing) h =
     (case State_load L root (state_path existing) h of
        (Inr _, h) \<Rightarrow> (Replaying existing, h)
      | (Inl State_NotFound, h) \<Rightarrow> (Locking (Some key), h)
      | (Inl other, h) \<Rightarrow> (Refused (Pf_State other), h))"
| "advance L root q (Locking rk) h =
     (case lock_acquire L root lock_path (rq_id q) h of
        (Inl e, h) \<Rightarrow> (Refused (Pf_Lock e), h)
      | (Inr _, h) \<Rightarrow> (Opening rk, h))"
| "advance L root q (Opening rk) h =
     (case open_transaction L root (rq_id q) (rq_key q) (rq_operation q) rk h of
        (Inl e, h) \<Rightarrow> (Refused e, release (root @ lock_path) h)
      | (Inr s, h) \<Rightarrow> (Running s, h))"
| "advance L root q (Running s) h = (Ended, release (root @ lock_path) h)"
| "advance L root q pc h = (pc, h)"

definition holds_lock :: "pc \<Rightarrow> bool" where
  "holds_lock pc = (case pc of Opening _ \<Rightarrow> True | Running _ \<Rightarrow> True | _ \<Rightarrow> False)"

type_synonym system = "host \<times> (nat \<Rightarrow> pc)"

inductive race_step :: "crates \<Rightarrow> ManagedRoot \<Rightarrow> (nat \<Rightarrow> request) \<Rightarrow> system \<Rightarrow> system \<Rightarrow> bool"
  for L root Q where
  call: "advance L root (Q n) (pcs n) h = (pc', h') \<Longrightarrow> race_step L root Q (h, pcs) (h', pcs(n := pc'))"
| killed: "race_step L root Q (h, pcs)
     (if holds_lock (pcs n) then release (root @ lock_path) h else h, pcs(n := Ended))"

inductive_cases race_stepE: "race_step L root Q s s'"

definition race_initial :: "ManagedRoot \<Rightarrow> system \<Rightarrow> bool" where
  "race_initial root s = (\<not> flocked (fst s) (root @ lock_path) \<and> snd s = (\<lambda>_. Begin))"

section \<open>One process alone runs preflight\<close>

fun drive :: "nat \<Rightarrow> crates \<Rightarrow> ManagedRoot \<Rightarrow> request \<Rightarrow> pc \<Rightarrow> host \<Rightarrow> pc \<times> host" where
  "drive 0 L root q pc h = (pc, h)"
| "drive (Suc n) L root q pc h = (case advance L root q pc h of (pc, h) \<Rightarrow>
     (case pc of Running _ \<Rightarrow> (pc, h) | _ \<Rightarrow> drive n L root q pc h))"

definition result_of :: "ManagedRoot \<Rightarrow> pc \<Rightarrow> (PreflightError + Outcome) option" where
  "result_of root pc = (case pc of
     Running s \<Rightarrow> Some (Ok (Proceed \<lparr> ad_lock = root @ lock_path, ad_state = s \<rparr>))
   | Replaying j \<Rightarrow> Some (Ok (Replay j))
   | Refused e \<Rightarrow> Some (Err e)
   | _ \<Rightarrow> None)"

lemma drive_final [simp]:
  "drive n L root q (Replaying j) h = (Replaying j, h)"
  "drive n L root q (Refused e) h = (Refused e, h)"
  by (induction n) auto

lemma drive_locking:
  "drive (Suc (Suc n)) L root q (Locking rk) h = (pc, h') \<Longrightarrow>
   try_io (lock_acquire L root lock_path (rq_id q) h) Pf_Lock (\<lambda>lock h.
       (case open_transaction L root (rq_id q) (rq_key q) (rq_operation q) rk h of
          (Inl e, h) \<Rightarrow> (Err e, release lock h)
        | (Inr state, h) \<Rightarrow> (Ok (Proceed \<lparr> ad_lock = lock, ad_state = state \<rparr>), h)))
     = (r, h'') \<Longrightarrow> result_of root pc = Some r \<and> h'' = h'"
  by (cases rule: lock_acquire_cases[of L root lock_path "rq_id q" h])
     (auto simp: result_of_def split: prod.splits sum.splits)

text \<open>What preflight does once the key is resolved.\<close>

definition after_key ::
  "crates \<Rightarrow> ManagedRoot \<Rightarrow> request \<Rightarrow> KeyResolution \<Rightarrow> host \<Rightarrow> (PreflightError + Outcome) \<times> host" where
  "after_key L root q resolution h = (case resolution of
     KeyReplay existing \<Rightarrow> (Ok (Replay existing), h)
   | KeyNew rk \<Rightarrow> try_io (lock_acquire L root lock_path (rq_id q) h) Pf_Lock (\<lambda>lock h.
       (case open_transaction L root (rq_id q) (rq_key q) (rq_operation q) rk h of
          (Inl e, h) \<Rightarrow> (Err e, release lock h)
        | (Inr state, h) \<Rightarrow> (Ok (Proceed \<lparr> ad_lock = lock, ad_state = state \<rparr>), h))))"

lemma drive_locking_after:
  assumes "after_key L root q (KeyNew rk) h = (r, h')"
  shows "\<exists>pc. drive (Suc (Suc n)) L root q (Locking rk) h = (pc, h') \<and> result_of root pc = Some r"
proof -
  obtain pc h2 where "drive (Suc (Suc n)) L root q (Locking rk) h = (pc, h2)" by fastforce
  with drive_locking[OF this, of r h'] assms show ?thesis by (simp add: after_key_def)
qed

lemma drive_loading_after:
  assumes "State_load L root (state_path j) h = (x, h1)"
  shows "drive (Suc n) L root q (Loading k j) h = (case x of
     Inr _ \<Rightarrow> (Replaying j, h1)
   | Inl e \<Rightarrow> (if e = State_NotFound then drive n L root q (Locking (Some k)) h1
              else (Refused (Pf_State e), h1)))"
  using assms by (cases x) (auto split: StateError.splits)

lemma drive_sweeping_after:
  assumes "try_io (resolve_key L root (rq_id q) (rq_key q) h) id (after_key L root q) = (r, h')"
  shows "\<exists>pc. drive 4 L root q Sweeping h = (pc, h') \<and> result_of root pc = Some r"
proof (cases "rq_key q")
  case None
  then have "drive 4 L root q Sweeping h = drive (Suc (Suc 1)) L root q (Locking None) h"
    by (simp add: eval_nat_numeral)
  with drive_locking_after[of L root q None h r h' 1] assms None show ?thesis
    by (simp add: resolve_key_def)
next
  case (Some k)
  obtain c h1 where c: "claim L root k (rq_id q) h = (c, h1)" by fastforce
  consider e where "c = Err e" | "c = Ok Claimed" | j where "c = Ok (AlreadyClaimed j)"
    by (cases c; metis Resolution.exhaust)
  then show ?thesis
  proof cases
    case 1
    with c Some assms show ?thesis by (simp add: resolve_key_def result_of_def eval_nat_numeral)
  next
    case 2
    with c Some have "drive 4 L root q Sweeping h = drive (Suc (Suc 1)) L root q (Locking None) h1"
      by (simp add: eval_nat_numeral)
    with drive_locking_after[of L root q None h1 r h' 1] assms c Some 2 show ?thesis
      by (simp add: resolve_key_def)
  next
    case 3
    obtain x h2 where x: "State_load L root (state_path j) h1 = (x, h2)" by fastforce
    have d: "drive 4 L root q Sweeping h = drive (Suc (Suc (Suc 0))) L root q (Loading k j) h1"
      using c Some 3 by (simp add: eval_nat_numeral)
    show ?thesis
    proof (cases "x = Err State_NotFound")
      case True
      with d x have "drive 4 L root q Sweeping h = drive (Suc (Suc 0)) L root q (Locking (Some k)) h2"
        by (simp only: drive_loading_after sum.case if_True refl)
      with drive_locking_after[of L root q "Some k" h2 r h' 0] assms c Some 3 x True show ?thesis
        by (simp add: resolve_key_def)
    next
      case False
      with d x assms c Some 3 show ?thesis
        by (cases x) (auto simp: drive_loading_after resolve_key_def after_key_def result_of_def
            split: StateError.splits)
    qed
  qed
qed

text \<open>Five calls are enough for a request to be admitted, told to replay, or refused.\<close>

lemma drive_is_run:
  assumes "preflight_run L root (rq_id q) (rq_key q) (rq_operation q) h = (r, h')"
  shows "\<exists>pc. drive 5 L root q Begin h = (pc, h') \<and> result_of root pc = Some r"
proof -
  have "drive 5 L root q Begin h = drive 4 L root q Sweeping (prune_completed L root DEFAULT_COMPLETED_RETENTION h)"
    by (simp add: eval_nat_numeral)
  moreover have "try_io (resolve_key L root (rq_id q) (rq_key q) (prune_completed L root DEFAULT_COMPLETED_RETENTION h))
      id (after_key L root q) = (r, h')"
    using assms by (simp add: preflight_run_def Let_def after_key_def[abs_def])
  ultimately show ?thesis using drive_sweeping_after by simp
qed

section \<open>Mutual exclusion\<close>

lemma advance_lock:
  assumes "advance L root q pc h = (pc', h')"
  shows "if holds_lock pc then (flocked h (root @ lock_path) \<longrightarrow> flocked h' (root @ lock_path) = holds_lock pc')
    else if holds_lock pc' then \<not> flocked h (root @ lock_path) \<and> flocked h' (root @ lock_path)
    else flocked h' (root @ lock_path) = flocked h (root @ lock_path)"
proof (cases pc)
  case Begin
  then show ?thesis using assms flocked_env[OF prune_completed_env] by (auto simp: holds_lock_def)
next
  case Sweeping
  have "claim L root k i h = (r, h1) \<Longrightarrow> flocked h1 = flocked h" for k i r h1
    using flocked_env[OF claim_env[of L root k i h]] by simp
  with Sweeping assms show ?thesis
    by (fastforce simp: holds_lock_def split: option.splits prod.splits sum.splits Resolution.splits)
next
  case (Loading k j)
  obtain r h1 where ld: "State_load L root (state_path j) h = (r, h1)" by fastforce
  then have "flocked h1 = flocked h" using flocked_env[OF State_env(3)[of L root "state_path j" h]] by simp
  with ld Loading assms show ?thesis
    by (auto simp: holds_lock_def split: sum.splits StateError.splits)
next
  case (Locking rk)
  then show ?thesis
    using assms by (cases rule: lock_acquire_cases[of L root lock_path "rq_id q" h]) (auto simp: holds_lock_def)
next
  case (Opening rk)
  obtain r h1 where op: "open_transaction L root (rq_id q) (rq_key q) (rq_operation q) rk h = (r, h1)" by fastforce
  then have "flocked h1 = flocked h" using flocked_env[OF open_transaction_env[of L root]] by (metis snd_conv)
  with op Opening assms show ?thesis by (auto simp: holds_lock_def split: sum.splits)
qed (use assms in \<open>auto simp: holds_lock_def\<close>)

definition exclusion :: "ManagedRoot \<Rightarrow> system \<Rightarrow> bool" where
  "exclusion root s = ((\<forall>n m. holds_lock (snd s n) \<longrightarrow> holds_lock (snd s m) \<longrightarrow> n = m)
     \<and> (flocked (fst s) (root @ lock_path) \<longleftrightarrow> (\<exists>n. holds_lock (snd s n))))"

lemma exclusion_call:
  assumes "exclusion root (h, pcs)" and "advance L root q (pcs n) h = (pc', h')"
  shows "exclusion root (h', pcs(n := pc'))"
  using advance_lock[OF assms(2)] assms(1)
  by (auto simp: exclusion_def split: if_splits)

lemma exclusion_killed:
  assumes "exclusion root (h, pcs)"
  shows "exclusion root (if holds_lock (pcs n) then release (root @ lock_path) h else h, pcs(n := Ended))"
proof -
  have "\<not> holds_lock Ended" by (simp add: holds_lock_def)
  with assms show ?thesis by (auto simp: exclusion_def)
qed

interpretation race: step_system "race_initial root" "race_step L root Q" "exclusion root" for L root Q
proof unfold_locales
  show "race_initial root s \<Longrightarrow> exclusion root s" for s
    by (simp add: race_initial_def exclusion_def holds_lock_def)
  show "exclusion root s \<Longrightarrow> race_step L root Q s s' \<Longrightarrow> exclusion root s'" for s s'
    by (auto elim!: race_stepE intro: exclusion_call exclusion_killed)
qed

section \<open>Schedules\<close>

fun run_schedule :: "crates \<Rightarrow> ManagedRoot \<Rightarrow> (nat \<Rightarrow> request) \<Rightarrow> nat list \<Rightarrow> system \<Rightarrow> system" where
  "run_schedule L root Q [] s = s"
| "run_schedule L root Q (n # ns) (h, pcs) =
     (case advance L root (Q n) (pcs n) h of (pc', h') \<Rightarrow> run_schedule L root Q ns (h', pcs(n := pc')))"

lemma run_schedule_reachable: "(race_step L root Q)\<^sup>*\<^sup>* s (run_schedule L root Q ns s)"
proof (induction ns arbitrary: s)
  case (Cons n ns)
  obtain h pcs where s: "s = (h, pcs)" by fastforce
  obtain pc' h' where a: "advance L root (Q n) (pcs n) h = (pc', h')" by fastforce
  have "race_step L root Q s (h', pcs(n := pc'))" unfolding s using a by (rule race_step.call)
  with Cons.IH[of "(h', pcs(n := pc'))"] s a show ?case
    by (simp add: converse_rtranclp_into_rtranclp)
qed simp

section \<open>Properties\<close>

text \<open>
  (C28) Mutual exclusion over every interleaving. In every state that any number of concurrent
  requests can reach, with kills at any point, at most one request is between acquiring the site
  lock and dropping it, and the kernel lock is taken exactly when there is one.
\<close>

theorem one_admitted_request_at_a_time:
  assumes "\<not> flocked h (root @ lock_path)"
    and "(race_step L root Q)\<^sup>*\<^sup>* (h, \<lambda>_. Begin) (h', pcs)"
  shows "(holds_lock (pcs n) \<and> holds_lock (pcs m) \<longrightarrow> n = m)
    \<and> (flocked h' (root @ lock_path) \<longleftrightarrow> (\<exists>n. holds_lock (pcs n)))"
proof -
  have "race_initial root (h, \<lambda>_. Begin)" using assms(1) by (simp add: race_initial_def)
  from race.good_reachable[OF this assms(2)] show ?thesis by (auto simp: exclusion_def)
qed

definition example_requests :: "nat \<Rightarrow> request" where
  "example_requests n = (if n = 0
     then \<lparr> rq_id = example_id, rq_key = Some example_key, rq_operation = ''site.deploy'' \<rparr>
     else \<lparr> rq_id = example_id2, rq_key = Some example_key, rq_operation = ''site.deploy'' \<rparr>)"

definition example_race_crates :: crates where
  "example_race_crates = table_crates (concat (map (\<lambda>i.
     [TransactionState_json (TransactionState_start (example_host []) i (Some example_key) ''site.deploy''),
      IndexRecord_json (new_index_record example_key i (example_host [])),
      LockRecord_json \<lparr> lr_schema_version = LOCK_SCHEMA_VERSION, lr_holder = i, lr_acquired_at = 0 \<rparr>,
      AuditRecord_json (audit_mutation_start (example_host []) i (Some example_key) ''site.deploy'')])
     [example_id, example_id2]))"

definition example_race :: "nat list \<Rightarrow> system" where
  "example_race ns = run_schedule example_race_crates [''s''] example_requests ns (example_site, \<lambda>_. Begin)"

theorem one_admitted_request_at_a_time_witness:
  "holds_lock (snd (example_race [0, 0, 0, 0]) 0) \<and> \<not> holds_lock (snd (example_race [0, 0, 0, 0]) 1)"
proof -
  have held: "holds_lock (snd (example_race [0, 0, 0, 0]) 0)" by code_simp
  have free: "\<not> flocked example_site ([''s''] @ lock_path)" by code_simp
  have "(race_step example_race_crates [''s''] example_requests)\<^sup>*\<^sup>* (example_site, \<lambda>_. Begin)
      (fst (example_race [0, 0, 0, 0]), snd (example_race [0, 0, 0, 0]))"
    unfolding prod.collapse example_race_def by (rule run_schedule_reachable)
  from one_admitted_request_at_a_time[OF free this, of 0 1] held show ?thesis by auto
qed

text \<open>
  (C29) The idempotency key does not make concurrent retries idempotent. Two requests with the same key
  can both be admitted, one after the other: the second finds the first one's claim before the
  first has written its record, takes the claim for orphaned, and checks neither the claim nor the
  record again once it has the lock, so it overwrites the claim of a request that has meanwhile
  done its work.
\<close>

theorem same_key_admitted_twice:
  "\<exists>s1 s2 t1 t2. (race_step example_race_crates [''s''] example_requests)\<^sup>*\<^sup>* (example_site, \<lambda>_. Begin) s1
     \<and> snd s1 0 = Running t1
     \<and> (race_step example_race_crates [''s''] example_requests)\<^sup>*\<^sup>* s1 s2 \<and> snd s2 1 = Running t2
     \<and> ts_idempotency_key t1 = Some example_key \<and> ts_idempotency_key t2 = Some example_key
     \<and> ts_request_id t1 \<noteq> ts_request_id t2"
proof -
  let ?t = "\<lambda>i. TransactionState_start (example_host []) i (Some example_key) ''site.deploy''"
  have 1: "snd (example_race [0, 0, 1, 1, 1, 0, 0]) 0 = Running (?t example_id)" by code_simp
  have 2: "snd (run_schedule example_race_crates [''s''] example_requests [0, 1, 1]
      (example_race [0, 0, 1, 1, 1, 0, 0])) 1 = Running (?t example_id2)" by code_simp
  have ne: "ts_request_id (?t example_id) \<noteq> ts_request_id (?t example_id2)" by code_simp
  have k: "ts_idempotency_key (?t i) = Some example_key" for i by (simp add: TransactionState_start_def)
  have "(race_step example_race_crates [''s''] example_requests)\<^sup>*\<^sup>* (example_site, \<lambda>_. Begin)
      (example_race [0, 0, 1, 1, 1, 0, 0])"
    unfolding example_race_def by (rule run_schedule_reachable)
  moreover have "(race_step example_race_crates [''s''] example_requests)\<^sup>*\<^sup>* (example_race [0, 0, 1, 1, 1, 0, 0])
      (run_schedule example_race_crates [''s''] example_requests [0, 1, 1] (example_race [0, 0, 1, 1, 1, 0, 0]))"
    by (rule run_schedule_reachable)
  ultimately show ?thesis using 1 2 ne k by blast
qed

end
