(* ===== verification/ResourceLock.thy ===== *)
theory ResourceLock
  imports SiteLock Idempotency
begin

text \<open>
  Locks keyed by the path of the resource (\<open>src/src/transaction/resource_lock.rs\<close>). SHA-256 is a
  parameter, \<open>sha256\<close>, from the path's bytes to the bytes of the digest. A path is its byte string.
\<close>

section \<open>Definitions\<close>

type_synonym sha256 = "bytes \<Rightarrow> u8 list"

definition locks_dir :: path where
  "locks_dir = [''resource-locks'']"

definition canonical_hash :: "sha256 \<Rightarrow> bytes \<Rightarrow> string" where
  "canonical_hash sha root = concat (map (\<lambda>byte. hex_fixed 2 (unat byte)) (sha root))"

definition resource_acquire ::
  "crates \<Rightarrow> sha256 \<Rightarrow> ManagedRoot \<Rightarrow> RequestId \<Rightarrow> bytes \<Rightarrow> host \<Rightarrow> (LockError + path) \<times> host" where
  "resource_acquire L sha engine_state holder root h =
     try_io (create_dir_all engine_state locks_dir h) (\<lambda>_. Lock_Io) (\<lambda>_ h.
       (case SiteRelativePath_parse (''resource-locks/'' @ canonical_hash sha root @ ''.lock'') of
          Inl _ \<Rightarrow> (Err Lock_Io, h)
        | Inr p \<Rightarrow> lock_acquire L engine_state p holder h))"

definition acquire_pair ::
  "crates \<Rightarrow> sha256 \<Rightarrow> ManagedRoot \<Rightarrow> bytes \<Rightarrow> bytes \<Rightarrow> RequestId \<Rightarrow> host \<Rightarrow>
     (LockError + path \<times> path option) \<times> host" where
  "acquire_pair L sha engine_state first second holder h =
     (let first_hash = canonical_hash sha first; second_hash = canonical_hash sha second in
      if first_hash = second_hash
      then try_io (resource_acquire L sha engine_state holder first h) id (\<lambda>g h. (Ok (g, None), h))
      else let (lower, higher) = (if first_hash < second_hash then (first, second) else (second, first)) in
        try_io (resource_acquire L sha engine_state holder lower h) id (\<lambda>lower_guard h.
          (case resource_acquire L sha engine_state holder higher h of
             (Inl e, h) \<Rightarrow> (Err e, release lower_guard h)
           | (Inr higher_guard, h) \<Rightarrow> (Ok (lower_guard, Some higher_guard), h))))"

text \<open>The first root of every hash, in the order given.\<close>

definition dedup_roots :: "sha256 \<Rightarrow> bytes list \<Rightarrow> (string \<times> bytes) list" where
  "dedup_roots sha roots = fold (\<lambda>root hashed.
     let hash = canonical_hash sha root in
     if list_ex (\<lambda>(existing, _). existing = hash) hashed then hashed else hashed @ [(hash, root)]) roots []"

definition acquire_many ::
  "crates \<Rightarrow> sha256 \<Rightarrow> ManagedRoot \<Rightarrow> bytes list \<Rightarrow> RequestId \<Rightarrow> host \<Rightarrow> (LockError + path list) \<times> host" where
  "acquire_many L sha engine_state roots holder h =
     acquire_each (resource_acquire L sha engine_state holder) release
       (map snd (sort_key fst (dedup_roots sha roots))) [] h"

section \<open>Paths\<close>

definition resource_path :: "sha256 \<Rightarrow> bytes \<Rightarrow> path" where
  "resource_path sha root = [''resource-locks'', canonical_hash sha root @ ''.lock'']"

lemma canonical_hash_name_chars: "list_all name_char (canonical_hash sha root)"
  by (induction "sha root" arbitrary: root)
     (auto simp: canonical_hash_def list_all_iff dest: hex_fixed_name_chars[of 2, unfolded list_all_iff, rule_format])

lemma resource_path_parse:
  "SiteRelativePath_parse (''resource-locks/'' @ canonical_hash sha root @ ''.lock'') = Ok (resource_path sha root)"
proof -
  have "safe_component (canonical_hash sha root @ ''.lock'')"
    by (rule safe_component_append) (simp_all add: canonical_hash_name_chars name_char_def)
  moreover have "safe_component ''resource-locks''" by (simp add: safe_component_def)
  ultimately show ?thesis
    using parse_two[of "''resource-locks''" "canonical_hash sha root @ ''.lock''"] by (simp add: resource_path_def)
qed

lemma resource_path_eq_iff:
  "resource_path sha a = resource_path sha b \<longleftrightarrow> canonical_hash sha a = canonical_hash sha b"
  by (simp add: resource_path_def)

lemma resource_acquire_eq:
  "resource_acquire L sha es i root h = try_io (create_dir_all es locks_dir h) (\<lambda>_. Lock_Io)
     (\<lambda>_ h. lock_acquire L es (resource_path sha root) i h)"
  by (simp only: resource_acquire_def resource_path_parse sum.case)

lemma resource_acquire_hash:
  "canonical_hash sha a = canonical_hash sha b \<Longrightarrow> resource_acquire L sha es i a = resource_acquire L sha es i b"
  by (simp add: resource_acquire_eq fun_eq_iff resource_path_def)

section \<open>Resource locks are exclusive locks\<close>

interpretation resource_lock: exclusive_lock flocked "resource_acquire L sha es i" release
  "\<lambda>root. es @ resource_path sha root" for L sha es i
proof unfold_locales
  have dir: "create_dir_all es locks_dir w = (r, w1) \<Longrightarrow> flocked w1 = flocked w" for w r w1
    using flocked_env[OF env_composed(1)[of es locks_dir w]] by simp
  show "resource_acquire L sha es i root w = (Ok g, w') \<Longrightarrow> g = es @ resource_path sha root
      \<and> \<not> flocked w g \<and> flocked w' = (flocked w)(g := True)" for root w g w'
    using dir site_lock.acq_ok[of L es "resource_path sha root" i]
    by (fastforce simp: resource_acquire_eq try_io_Ok_iff)
  show "flocked w' = flocked w" if "resource_acquire L sha es i root w = (Err e, w')" for root w e w'
  proof -
    obtain r w1 where c: "create_dir_all es locks_dir w = (r, w1)" by fastforce
    show ?thesis
    proof (cases r)
      case (Inl x)
      with that c dir[OF c] show ?thesis by (simp add: resource_acquire_eq)
    next
      case (Inr x)
      with that c have "lock_acquire L es (resource_path sha root) i w1 = (Err e, w')"
        by (simp add: resource_acquire_eq)
      from site_lock.acq_err[OF this] dir[OF c] show ?thesis by simp
    qed
  qed
qed simp

section \<open>The order of acquisition\<close>

lemma dedup_roots_snoc:
  "dedup_roots sha (roots @ [r]) = (if canonical_hash sha r \<in> fst ` set (dedup_roots sha roots)
     then dedup_roots sha roots else dedup_roots sha roots @ [(canonical_hash sha r, r)])"
  by (force simp: dedup_roots_def Let_def list_ex_iff)

lemma dedup_roots_inv:
  "distinct (map fst (dedup_roots sha roots)) \<and> fst ` set (dedup_roots sha roots) = canonical_hash sha ` set roots
     \<and> (\<forall>(x, r) \<in> set (dedup_roots sha roots). x = canonical_hash sha r \<and> r \<in> set roots)"
proof (induction roots rule: rev_induct)
  case Nil
  then show ?case by (simp add: dedup_roots_def Let_def)
next
  case (snoc r roots)
  then show ?case by (auto simp: dedup_roots_snoc)
qed

text \<open>The hashes of the roots, each once and in ascending order.\<close>

definition lock_order :: "sha256 \<Rightarrow> bytes list \<Rightarrow> string list" where
  "lock_order sha roots = sorted_list_of_set (canonical_hash sha ` set roots)"

lemma sorted_roots_hashes:
  "map (canonical_hash sha) (map snd (sort_key fst (dedup_roots sha roots))) = lock_order sha roots"
proof -
  let ?d = "sort_key fst (dedup_roots sha roots)"
  have "map (canonical_hash sha) (map snd ?d) = map fst ?d"
    using dedup_roots_inv[of sha roots] by (auto simp: case_prod_beta)
  moreover have "sorted (map fst ?d)" by simp
  moreover have "distinct (map fst (dedup_roots sha roots))" using dedup_roots_inv by blast
  then have "distinct (map fst ?d)" by (simp add: distinct_map)
  moreover have "set (map fst ?d) = canonical_hash sha ` set roots" using dedup_roots_inv by simp
  ultimately show ?thesis
    unfolding lock_order_def by (metis sorted_list_of_set.idem_if_sorted_distinct)
qed

lemma sorted_roots_paths:
  "map (\<lambda>root. es @ resource_path sha root) (map snd (sort_key fst (dedup_roots sha roots)))
     = map (\<lambda>hash. es @ [''resource-locks'', hash @ ''.lock'']) (lock_order sha roots)"
  by (simp add: sorted_roots_hashes[symmetric] resource_path_def)

lemma acquire_each_cong:
  assumes "map k xs = map k ys" and "\<And>x y. k x = k y \<Longrightarrow> acq x = acq y"
  shows "acquire_each acq rel xs gs w = acquire_each acq rel ys gs w"
  using assms(1)
proof (induction xs arbitrary: ys gs w)
  case (Cons x xs)
  then obtain y ys' where "ys = y # ys'" "k x = k y" "map k xs = map k ys'" by (cases ys) auto
  with Cons.IH assms(2)[of x y] show ?case by (simp split: prod.splits sum.splits)
qed simp

section \<open>Properties\<close>

text \<open>
  (C30) Taking several resource locks is all or nothing. On success the locks of all the roots, one per
  distinct hash and in ascending hash order, were free and are now held, and no other lock of the
  host changed; on any error every lock is as it was before the call.
\<close>

theorem acquire_many_all_or_nothing:
  "case acquire_many L sha es roots holder h of
     (Inr guards, h') \<Rightarrow>
       guards = map (\<lambda>hash. es @ [''resource-locks'', hash @ ''.lock'']) (lock_order sha roots)
       \<and> list_all (\<lambda>g. \<not> flocked h g) guards
       \<and> flocked h' = (\<lambda>g. flocked h g \<or> g \<in> set guards)
   | (Inl e, h') \<Rightarrow> flocked h' = flocked h"
proof -
  let ?rs = "map snd (sort_key fst (dedup_roots sha roots))"
  let ?lock = "\<lambda>root. es @ resource_path sha root"
  have held: "case acquire_many L sha es roots holder h of
     (Inr out, h') \<Rightarrow> out = [] @ map ?lock ?rs \<and> distinct (map ?lock ?rs)
        \<and> (\<forall>r \<in> set ?rs. \<not> flocked h (?lock r)) \<and> flocked h' = (\<lambda>g. flocked h g \<or> g \<in> ?lock ` set ?rs)
   | (Inl e, h') \<Rightarrow> flocked h' = (\<lambda>g. flocked h g \<and> g \<notin> set [])"
    unfolding acquire_many_def by (rule resource_lock.acquire_each_held)
  show ?thesis
  proof (cases "acquire_many L sha es roots holder h")
    case (Pair r h')
    show ?thesis
    proof (cases r)
      case (Inl e)
      with Pair held show ?thesis by simp
    next
      case (Inr guards)
      with Pair held have g: "guards = map ?lock ?rs"
        and free: "\<forall>r \<in> set ?rs. \<not> flocked h (?lock r)"
        and now: "flocked h' = (\<lambda>g. flocked h g \<or> g \<in> ?lock ` set ?rs)"
        by simp_all
      from g have "set guards = ?lock ` set ?rs" by (simp only: set_map)
      with free now have "list_all (\<lambda>g. \<not> flocked h g) guards" "flocked h' = (\<lambda>g. flocked h g \<or> g \<in> set guards)"
        by (simp_all only: list_all_iff ball_simps)
      with g Pair Inr show ?thesis by (simp only: sorted_roots_paths prod.case sum.case)
    qed
  qed
qed

text \<open>
  The order in which roots are named does not matter: two calls whose roots have the same set of
  hashes attempt the same locks in the same order and end in the same way, so operations that
  need the same resources meet at the first common one.
\<close>

theorem acquire_many_order_independent:
  assumes "canonical_hash sha ` set roots = canonical_hash sha ` set roots'"
  shows "acquire_many L sha es roots holder h = acquire_many L sha es roots' holder h"
proof -
  have "lock_order sha roots = lock_order sha roots'" using assms by (simp add: lock_order_def)
  then show ?thesis
    unfolding acquire_many_def
    by (intro acquire_each_cong[where k = "canonical_hash sha"])
       (simp only: sorted_roots_hashes, rule resource_acquire_hash)
qed

text \<open>A digest of one byte, enough to tell short paths apart.\<close>

definition example_sha :: sha256 where
  "example_sha s = [of_nat (length s)]"

theorem acquire_many_order_independent_witness:
  "acquire_many (table_crates []) example_sha [''st''] [''/a'', ''/bcd'', ''/x''] example_id (example_host [])
     = acquire_many (table_crates []) example_sha [''st''] [''/bcd'', ''/x''] example_id (example_host [])"
proof (rule acquire_many_order_independent)
  show "canonical_hash example_sha ` set [''/a'', ''/bcd'', ''/x''] = canonical_hash example_sha ` set [''/bcd'', ''/x'']"
    by (auto simp: canonical_hash_def example_sha_def)
qed

text \<open>
  \<open>acquire_pair\<close> is the two-root case of \<open>acquire_many\<close>: same locks, same order, same result and
  the same effect on the host, with the second guard absent when both roots are one resource.
\<close>

theorem acquire_pair_is_acquire_many:
  "acquire_many L sha es [a, b] holder h =
     apfst (map_ok (\<lambda>(g, g'). g # (case g' of None \<Rightarrow> [] | Some x \<Rightarrow> [x])))
       (acquire_pair L sha es a b holder h)"
proof -
  let ?acq = "resource_acquire L sha es holder"
  consider "canonical_hash sha a = canonical_hash sha b" | "canonical_hash sha a < canonical_hash sha b"
    | "canonical_hash sha b < canonical_hash sha a" by fastforce
  then show ?thesis
  proof cases
    case 1
    then have "map snd (sort_key fst (dedup_roots sha [a, b])) = [a]" by (simp add: dedup_roots_def Let_def)
    with 1 show ?thesis
      by (cases "?acq a h") (auto simp: acquire_many_def acquire_pair_def Let_def split: sum.splits)
  next
    case 2
    then have "map snd (sort_key fst (dedup_roots sha [a, b])) = [a, b]" by (auto simp: dedup_roots_def Let_def)
    with 2 show ?thesis
      by (cases "?acq a h") (auto simp: acquire_many_def acquire_pair_def Let_def split: sum.splits prod.splits)
  next
    case 3
    then have "map snd (sort_key fst (dedup_roots sha [a, b])) = [b, a]" by (auto simp: dedup_roots_def Let_def)
    with 3 show ?thesis
      by (cases "?acq b h") (auto simp: acquire_many_def acquire_pair_def Let_def split: sum.splits prod.splits)
  qed
qed

end
