(* ===== verification/RustText.thy ===== *)
theory RustText
  imports Prelude
begin

text \<open>
  The text functions of the standard library that the engine applies to the output of programs
  and to configuration text: \<open>String::from_utf8_lossy\<close>, \<open>str::lines\<close>, \<open>str::trim\<close>,
  \<open>str::split_once\<close>, \<open>str::parse::<u32>\<close> and \<open>char::is_control\<close>, on strings represented by their
  UTF-8 bytes.
\<close>

section \<open>Lossy decoding\<close>

text \<open>
  One step of the decoder on a non-empty input: whether a whole character was read, and how many
  bytes were looked at. The bytes of a failed step, a maximal prefix of some character, are
  replaced by one U+FFFD.
\<close>

definition cont_at :: "bytes \<Rightarrow> nat \<Rightarrow> bool" where
  "cont_at s i = (i < length s \<and> cont_byte (s ! i))"

definition second_ok :: "nat \<Rightarrow> bytes \<Rightarrow> bool" where
  "second_ok b s = (cont_at s 1
     \<and> (b = 224 \<longrightarrow> 160 \<le> byte_of (s ! 1)) \<and> (b = 237 \<longrightarrow> byte_of (s ! 1) \<le> 159)
     \<and> (b = 240 \<longrightarrow> 144 \<le> byte_of (s ! 1)) \<and> (b = 244 \<longrightarrow> byte_of (s ! 1) \<le> 143))"

definition char_step :: "bytes \<Rightarrow> bool \<times> nat" where
  "char_step s =
     (let b = byte_of (hd s) in
      if b \<le> 127 then (True, 1)
      else if 194 \<le> b \<and> b \<le> 223 then (if cont_at s 1 then (True, 2) else (False, 1))
      else if 224 \<le> b \<and> b \<le> 239 then
        (if \<not> second_ok b s then (False, 1) else if cont_at s 2 then (True, 3) else (False, 2))
      else if 240 \<le> b \<and> b \<le> 244 then
        (if \<not> second_ok b s then (False, 1)
         else if \<not> cont_at s 2 then (False, 2)
         else if cont_at s 3 then (True, 4) else (False, 3))
      else (False, 1))"

lemma char_step_progress: "0 < snd (char_step s)"
  by (simp add: char_step_def Let_def)

definition replacement :: bytes where
  "replacement = [CHR 0xEF, CHR 0xBF, CHR 0xBD]"

function from_utf8_lossy :: "bytes \<Rightarrow> string" where
  "from_utf8_lossy s =
     (if s = [] then []
      else (if fst (char_step s) then take (snd (char_step s)) s else replacement)
           @ from_utf8_lossy (drop (snd (char_step s)) s))"
  by pat_completeness auto
termination
  by (relation "measure length") (auto simp: char_step_progress)

declare from_utf8_lossy.simps [simp del]

section \<open>Lines, trimming and numbers\<close>

abbreviation line_feed :: char where "line_feed \<equiv> CHR 0x0A"
abbreviation carriage_return :: char where "carriage_return \<equiv> CHR 0x0D"
abbreviation tab :: char where "tab \<equiv> CHR 0x09"

definition strip_cr :: "string \<Rightarrow> string" where
  "strip_cr l = (if l \<noteq> [] \<and> last l = carriage_return then butlast l else l)"

text \<open>A line ends with a line feed, with an optional carriage return before it; what follows
  the last line feed is a line when it is not empty.\<close>

definition lines :: "string \<Rightarrow> string list" where
  "lines s =
     (let ps = split_on line_feed s
      in map strip_cr (butlast ps) @ (if last ps = [] then [] else [last ps]))"

text \<open>The number of bytes of the White\_Space character a string starts with, or 0.\<close>

definition ws3 :: "char \<Rightarrow> char \<Rightarrow> char \<Rightarrow> bool" where
  "ws3 a b c =
     (let x = byte_of a; y = byte_of b; z = byte_of c in
      x = 225 \<and> y = 154 \<and> z = 128
      \<or> x = 226 \<and> y = 128 \<and> (128 \<le> z \<and> z \<le> 138 \<or> z \<in> {168, 169, 175})
      \<or> x = 226 \<and> y = 129 \<and> z = 159
      \<or> x = 227 \<and> y = 128 \<and> z = 128)"

definition ws1 :: "char \<Rightarrow> bool" where
  "ws1 a = (9 \<le> byte_of a \<and> byte_of a \<le> 13 \<or> byte_of a = 32)"

definition ws2 :: "char \<Rightarrow> char \<Rightarrow> bool" where
  "ws2 a b = (byte_of a = 194 \<and> byte_of b \<in> {133, 160})"

function trim_start :: "string \<Rightarrow> string" where
  "trim_start s =
     (case s of
        [] \<Rightarrow> []
      | a # s1 \<Rightarrow>
          if ws1 a then trim_start s1
          else (case s1 of
            [] \<Rightarrow> s
          | b # s2 \<Rightarrow>
              if ws2 a b then trim_start s2
              else (case s2 of [] \<Rightarrow> s | c # s3 \<Rightarrow> if ws3 a b c then trim_start s3 else s)))"
  by pat_completeness auto
termination by (relation "measure length") auto

declare trim_start.simps [simp del]

text \<open>\<open>trim_end\<close>, on the reversed string.\<close>

function trim_rev :: "string \<Rightarrow> string" where
  "trim_rev s =
     (case s of
        [] \<Rightarrow> []
      | a # s1 \<Rightarrow>
          if ws1 a then trim_rev s1
          else (case s1 of
            [] \<Rightarrow> s
          | b # s2 \<Rightarrow>
              if ws2 b a then trim_rev s2
              else (case s2 of [] \<Rightarrow> s | c # s3 \<Rightarrow> if ws3 c b a then trim_rev s3 else s)))"
  by pat_completeness auto
termination by (relation "measure length") auto

declare trim_rev.simps [simp del]

definition trim_end :: "string \<Rightarrow> string" where
  "trim_end s = rev (trim_rev (rev s))"

definition trim :: "string \<Rightarrow> string" where
  "trim s = trim_end (trim_start s)"

fun split_once :: "char \<Rightarrow> string \<Rightarrow> (string \<times> string) option" where
  "split_once c [] = None"
| "split_once c (x # xs) =
     (if x = c then Some ([], xs) else map_option (\<lambda>(a, b). (x # a, b)) (split_once c xs))"

definition digits_value :: "string \<Rightarrow> nat" where
  "digits_value ds = foldl (\<lambda>n c. 10 * n + (byte_of c - 48)) 0 ds"

definition parse_u32 :: "string \<Rightarrow> u32 option" where
  "parse_u32 s =
     (let ds = (case s of CHR ''+'' # r \<Rightarrow> r | _ \<Rightarrow> s)
      in if ds = [] \<or> \<not> list_all is_ascii_digit ds then None
         else if digits_value ds < 2 ^ 32 then Some (word_of_nat (digits_value ds)) else None)"

text \<open>A character of the Unicode class Cc.\<close>

fun has_control :: "string \<Rightarrow> bool" where
  "has_control [] = False"
| "has_control [a] = (byte_of a < 32 \<or> byte_of a = 127)"
| "has_control (a # b # s) =
     (byte_of a < 32 \<or> byte_of a = 127 \<or> byte_of a = 194 \<and> 128 \<le> byte_of b \<and> byte_of b \<le> 159
      \<or> has_control (b # s))"

section \<open>Facts\<close>

lemma split_once_SomeD: "split_once c s = Some (a, b) \<Longrightarrow> s = a @ c # b \<and> c \<notin> set a"
  by (induction s arbitrary: a b) (auto split: if_splits)

lemma split_once_append: "c \<notin> set a \<Longrightarrow> split_once c (a @ c # b) = Some (a, b)"
  by (induction a) auto

lemma from_utf8_lossy_Nil [simp]: "from_utf8_lossy [] = []"
  by (simp add: from_utf8_lossy.simps)

lemma from_utf8_lossy_step:
  "s \<noteq> [] \<Longrightarrow> char_step s = (True, n) \<Longrightarrow> from_utf8_lossy s = take n s @ from_utf8_lossy (drop n s)"
  by (subst from_utf8_lossy.simps) simp

text \<open>Well-formed text is decoded to itself.\<close>

lemma from_utf8_lossy_ascii: "list_all (\<lambda>c. byte_of c \<le> 127) s \<Longrightarrow> from_utf8_lossy s = s"
proof (induction s)
  case (Cons a s)
  then have "char_step (a # s) = (True, 1)" by (simp add: char_step_def)
  then show ?case using Cons from_utf8_lossy_step[of "a # s" 1] by simp
qed simp

lemma from_utf8_lossy_id: "utf8_ok s \<Longrightarrow> from_utf8_lossy s = s"
proof (induction s rule: utf8_ok.induct)
  case (2 a)
  then show ?case using from_utf8_lossy_step[of "[a]" 1] by (simp add: char_step_def)
next
  case (3 a b)
  show ?case
  proof (cases "byte_of a \<le> 127")
    case True
    with 3 show ?thesis using from_utf8_lossy_step[of "[a, b]" 1] by (simp add: char_step_def)
  next
    case False
    with 3 show ?thesis using from_utf8_lossy_step[of "[a, b]" 2] by (simp add: char_step_def cont_at_def)
  qed
next
  case (4 a b c)
  consider "byte_of a \<le> 127" | "127 < byte_of a" "byte_of a \<le> 223" | "223 < byte_of a" by linarith
  then show ?case
  proof cases
    case 1
    with 4 show ?thesis using from_utf8_lossy_step[of "[a, b, c]" 1] by (simp add: char_step_def)
  next
    case 2
    with 4 show ?thesis using from_utf8_lossy_step[of "[a, b, c]" 2] by (simp add: char_step_def cont_at_def)
  next
    case 3
    with 4 have "char_step [a, b, c] = (True, 3)"
      by (simp add: char_step_def cont_at_def second_ok_def three_byte_def)
    with 3 4 show ?thesis using from_utf8_lossy_step[of "[a, b, c]" 3] by simp
  qed
next
  case (5 a b c d s)
  let ?s = "a # b # c # d # s"
  consider "byte_of a \<le> 127" | "127 < byte_of a" "byte_of a \<le> 223"
    | "223 < byte_of a" "byte_of a \<le> 239" | "239 < byte_of a" by linarith
  then show ?case
  proof cases
    case 1
    with 5 show ?thesis using from_utf8_lossy_step[of ?s 1] by (simp add: char_step_def)
  next
    case 2
    with 5 show ?thesis using from_utf8_lossy_step[of ?s 2] by (simp add: char_step_def cont_at_def)
  next
    case 3
    with 5 have "char_step ?s = (True, 3)"
      by (simp add: char_step_def cont_at_def second_ok_def three_byte_def)
    with 3 5 show ?thesis using from_utf8_lossy_step[of ?s 3] by simp
  next
    case 4
    with 5 have "char_step ?s = (True, 4)"
      by (simp add: char_step_def cont_at_def second_ok_def four_byte_def numeral_3_eq_3 numeral_2_eq_2)
    with 4 5 show ?thesis using from_utf8_lossy_step[of ?s 4] by simp
  qed
qed simp

text \<open>A line of printable text between line feeds is found by \<open>lines\<close>.\<close>

lemma lines_append: "line_feed \<notin> set l \<Longrightarrow> l \<noteq> [] \<Longrightarrow> last l \<noteq> carriage_return \<Longrightarrow>
    lines (l @ line_feed # rest) = l # lines rest"
  by (simp add: lines_def split_on_append_sep split_on_no_sep strip_cr_def butlast_append Let_def)

lemma lines_Nil [simp]: "lines [] = []"
  by (simp add: lines_def)

lemma graphic_not_ws:
  assumes "is_ascii_graphic a"
  shows "\<not> ws1 a" "\<not> ws2 a b" "\<not> ws2 b a" "\<not> ws3 a b c" "\<not> ws3 c b a"
  using assms by (auto simp: is_ascii_graphic_def ws1_def ws2_def ws3_def Let_def)

lemma trim_id:
  assumes "s = [] \<or> is_ascii_graphic (hd s)"
  shows "trim_start s = s" and "trim_rev s = s"
proof -
  have "trim_start (a # r) = a # r \<and> trim_rev (a # r) = a # r" if "is_ascii_graphic a" for a r
    using graphic_not_ws[OF that]
    by (subst trim_start.simps, subst trim_rev.simps) (simp split: list.splits)
  with assms show "trim_start s = s" and "trim_rev s = s"
    by (cases s; auto simp: trim_start.simps trim_rev.simps)+
qed

lemma trim_end_newline: "trim_end (s @ [line_feed]) = trim_end s"
  by (simp add: trim_end_def) (subst trim_rev.simps, simp add: ws1_def byte_of_def)

text \<open>Printable text followed by a line feed, the usual output of a query, is trimmed to itself.\<close>

lemma trim_printed:
  assumes "s \<noteq> []" and "list_all is_ascii_graphic s"
  shows "trim (s @ [line_feed]) = s"
proof -
  have "is_ascii_graphic (hd s)" "is_ascii_graphic (last s)"
    using assms by (auto simp: list_all_iff)
  then have "trim_start (s @ [line_feed]) = s @ [line_feed]" and "trim_rev (rev s) = rev s"
    using assms(1) by (auto simp: hd_rev intro!: trim_id)
  then show ?thesis by (simp add: trim_def trim_end_newline) (simp add: trim_end_def)
qed

end
