(* ===== verification/Release.thy ===== *)
theory Release
  imports Preflight RustText "HOL-Library.Multiset"
begin

text \<open>
  Releases of a site below a content root: the identifiers (\<open>src/src/deploy/mod.rs\<close>), the atomic
  switch of the \<open>current\<close> link (\<open>src/src/deploy/activate.rs\<close>), retention of old releases
  (\<open>src/src/deploy/cleanup.rs\<close>) and \<open>TrustedRoot::resolve_existing\<close> (\<open>src/src/site.rs\<close>).

  A site's releases are the directories \<open>sites/<siteId>/releases/<releaseId>\<close>; the one being served
  is named by the relative link \<open>sites/<siteId>/current\<close>. \<open>canonicalize\<close> answers from the
  \<open>realpath\<close> of the host.
\<close>

section \<open>Release identifiers\<close>

type_synonym ReleaseId = uuid

definition ReleaseId_parse :: "(string \<Rightarrow> uuid option) \<Rightarrow> string \<Rightarrow> IdentifierError + ReleaseId" where
  "ReleaseId_parse parse_str value = RequestId_parse parse_str value"

definition ReleaseId_from :: "RequestId \<Rightarrow> ReleaseId" where
  "ReleaseId_from request_id = request_id"

section \<open>Resolving a path that exists\<close>

definition canonicalize :: "path \<Rightarrow> host \<Rightarrow> path io" where
  "canonicalize p h = io_call h (\<lambda>h.
     if node_at h p = None then (Err IoNotFound, h)
     else case realpath h p of None \<Rightarrow> (Err IoOther, h) | Some q \<Rightarrow> (Ok q, h))"

definition resolve_existing_path :: "path \<Rightarrow> path \<Rightarrow> host \<Rightarrow> (ValidationError + path) \<times> host" where
  "resolve_existing_path root relative h =
     try_io (canonicalize root h) (\<lambda>_. PathResolutionFailed) (\<lambda>canonical_root h.
     try_io (canonicalize (TrustedRoot_join root relative) h) (\<lambda>_. PathResolutionFailed) (\<lambda>candidate h.
       if \<not> path_starts_with candidate canonical_root then (Err PathEscapesTrustedRoot, h)
       else (Ok candidate, h)))"

section \<open>The current release\<close>

datatype ActivateError = Act_Io io_error | Act_UnrecognizedCurrentTarget

definition current_path :: "SiteId \<Rightarrow> path" where
  "current_path site_id = expect_path (''sites/'' @ site_id @ ''/current'')"

definition parse_release_symlink_target :: "(string \<Rightarrow> uuid option) \<Rightarrow> string \<Rightarrow> ReleaseId option" where
  "parse_release_symlink_target parse_str target =
     (case path_components target of
        [Normal first, Normal second] \<Rightarrow>
          if first = ''releases'' \<and> utf8_ok second then
            (case ReleaseId_parse parse_str second of Inl _ \<Rightarrow> None | Inr r \<Rightarrow> Some r)
          else None
      | _ \<Rightarrow> None)"

definition read_previous_release ::
  "crates \<Rightarrow> ManagedRoot \<Rightarrow> path \<Rightarrow> host \<Rightarrow> (ActivateError + ReleaseId option) \<times> host" where
  "read_previous_release L managed current h =
     (case read_link managed current h of
        (Inl e, h) \<Rightarrow> (if e = IoNotFound then Ok None else Err (Act_Io e), h)
      | (Inr target, h) \<Rightarrow>
          (case parse_release_symlink_target (cr_uuid L) target of
             None \<Rightarrow> Err Act_UnrecognizedCurrentTarget
           | Some r \<Rightarrow> Ok (Some r), h))"

definition current_release ::
  "crates \<Rightarrow> path \<Rightarrow> SiteId \<Rightarrow> host \<Rightarrow> (ActivateError + ReleaseId option) \<times> host" where
  "current_release L content_root site_id h =
     try_io (ManagedRoot_open content_root h) Act_Io (\<lambda>managed h.
       read_previous_release L managed (current_path site_id) h)"

section \<open>The switch\<close>

definition release_target :: "ReleaseId \<Rightarrow> path" where
  "release_target release_id = expect_path (''releases/'' @ release_id)"

definition temp_link_path :: "SiteId \<Rightarrow> ReleaseId \<Rightarrow> path" where
  "temp_link_path site_id release_id =
     expect_path (''sites/'' @ site_id @ ''/.current.tmp-'' @ release_id)"

definition site_path :: "SiteId \<Rightarrow> path" where
  "site_path site_id = expect_path (''sites/'' @ site_id)"

definition activate ::
  "crates \<Rightarrow> path \<Rightarrow> SiteId \<Rightarrow> ReleaseId \<Rightarrow> host \<Rightarrow> (ActivateError + ReleaseId option) \<times> host" where
  "activate L content_root site_id release_id h =
     try_io (ManagedRoot_open content_root h) Act_Io (\<lambda>managed h.
     try_io (create_dir_all managed (site_path site_id) h) Act_Io (\<lambda>_ h.
     try_io (read_previous_release L managed (current_path site_id) h) id (\<lambda>previous h.
     try_io (symlink managed (temp_link_path site_id release_id) (release_target release_id) h) Act_Io (\<lambda>_ h.
     try_io (rename managed (temp_link_path site_id release_id) (current_path site_id) h) Act_Io (\<lambda>_ h.
       (Ok previous, h))))))"

section \<open>Retention\<close>

definition DEFAULT_RETAIN_COUNT :: nat where "DEFAULT_RETAIN_COUNT = 5"

definition release_path :: "SiteId \<Rightarrow> ReleaseId \<Rightarrow> path" where
  "release_path site_id release_id = expect_path (''sites/'' @ site_id @ ''/releases/'' @ release_id)"

definition releases_path :: "SiteId \<Rightarrow> path" where
  "releases_path site_id = expect_path (''sites/'' @ site_id @ ''/releases'')"

text \<open>A modification time that cannot be read counts as the epoch.\<close>

definition modified :: "path \<Rightarrow> host \<Rightarrow> nat \<times> host" where
  "modified p h =
     (if fails h (tick h) then 0 else (case mtime h p of None \<Rightarrow> 0 | Some m \<Rightarrow> m), next_tick h)"

fun release_candidates ::
  "(string \<Rightarrow> uuid option) \<Rightarrow> path list \<Rightarrow> host \<Rightarrow> (ReleaseId \<times> nat) list io" where
  "release_candidates parse_str [] h = (Ok [], h)"
| "release_candidates parse_str (p # ps) h =
     try_io (io_call h (\<lambda>h. (Ok (last p), h))) id (\<lambda>name h.
       if \<not> utf8_ok name then release_candidates parse_str ps h
       else (case ReleaseId_parse parse_str name of
          Inl _ \<Rightarrow> release_candidates parse_str ps h
        | Inr release_id \<Rightarrow>
            let (m, h) = modified p h
            in try_io (release_candidates parse_str ps h) id (\<lambda>rest h. (Ok ((release_id, m) # rest), h))))"

fun remove_beyond ::
  "ManagedRoot \<Rightarrow> SiteId \<Rightarrow> ReleaseId \<Rightarrow> nat \<Rightarrow> nat \<Rightarrow> (ReleaseId \<times> nat) list \<Rightarrow> host \<Rightarrow> ReleaseId list \<times> host" where
  "remove_beyond managed site_id active retain index [] h = ([], h)"
| "remove_beyond managed site_id active retain index ((release_id, m) # rest) h =
     (if release_id = active \<or> index < retain
      then remove_beyond managed site_id active retain (Suc index) rest h
      else (case remove_dir_all managed (release_path site_id release_id) h of
          (Inl _, h) \<Rightarrow> remove_beyond managed site_id active retain (Suc index) rest h
        | (Inr _, h) \<Rightarrow> apfst (Cons release_id) (remove_beyond managed site_id active retain (Suc index) rest h)))"

text \<open>\<open>sort_by_key\<close> is stable, as \<open>sort_key\<close> is; \<open>Reverse\<close> turns the order around.\<close>

definition newest_first :: "(ReleaseId \<times> nat) list \<Rightarrow> (ReleaseId \<times> nat) list" where
  "newest_first candidates = sort_key (\<lambda>c. - int (snd c)) candidates"

definition prune_old_releases ::
  "crates \<Rightarrow> path \<Rightarrow> SiteId \<Rightarrow> ReleaseId \<Rightarrow> nat \<Rightarrow> host \<Rightarrow> ReleaseId list io" where
  "prune_old_releases L content_root site_id active retain h =
     try_io (ManagedRoot_open content_root h) id (\<lambda>managed h.
       (case open_managed_dir managed (releases_path site_id) h of
          (Inl e, h) \<Rightarrow> (if e = IoNotFound then Ok [] else Err e, h)
        | (Inr releases_dir, h) \<Rightarrow>
            try_io (io_call h (\<lambda>h. (Ok (map fst (dir_entries h releases_dir)), h))) id (\<lambda>entries h.
            try_io (release_candidates (cr_uuid L) entries h) id (\<lambda>candidates h.
              apfst Ok (remove_beyond managed site_id active retain 0 (newest_first candidates) h)))))"

section \<open>The formatted paths parse\<close>

lemma expect_path_join:
  assumes "ps \<noteq> []" and "list_all safe_component ps"
  shows "expect_path (join_with slash ps) = ps"
  using SiteRelativePath_parse_join[OF assms] by (simp add: expect_path_def)

lemma safe_release_names [simp]:
  "safe_component ''current''" "safe_component ''releases''"
  by (simp_all add: safe_component_def)

lemma safe_temp_link: "uuid_wf r \<Longrightarrow> safe_component (''.current.tmp-'' @ r)"
  using uuid_component_self[of r] by (auto simp: safe_component_def)

lemma release_paths:
  assumes "uuid_wf s" and "uuid_wf r"
  shows "current_path s = [''sites'', s, ''current'']" and "release_target r = [''releases'', r]"
    and "temp_link_path s r = [''sites'', s, ''.current.tmp-'' @ r]"
    and "release_path s r = [''sites'', s, ''releases'', r]"
    and "releases_path s = [''sites'', s, ''releases'']"
    and "site_path s = [''sites'', s]"
  using assms expect_path_join[of "[''sites'', s, ''current'']"] expect_path_join[of "[''releases'', r]"]
    expect_path_join[of "[''sites'', s, ''.current.tmp-'' @ r]"] safe_temp_link[of r]
    expect_path_join[of "[''sites'', s, ''releases'', r]"] expect_path_join[of "[''sites'', s, ''releases'']"]
    expect_path_join[of "[''sites'', s]"]
  by (simp_all add: current_path_def release_target_def temp_link_path_def release_path_def
      releases_path_def site_path_def uuid_component_self)

section \<open>Reading the link back\<close>

lemma ReleaseId_parse_wf: "uuid_parse_ok ps \<Longrightarrow> uuid_wf r \<Longrightarrow> r \<noteq> nil_uuid \<Longrightarrow> ReleaseId_parse ps r = Ok r"
  by (simp add: ReleaseId_parse_def RequestId_parse_def uuid_parse_ok_def)

lemma utf8_ok_uuid: "uuid_wf u \<Longrightarrow> utf8_ok u"
proof (rule utf8_ok_ascii)
  fix c assume u: "uuid_wf u" and c: "c \<in> set u"
  have "c = CHR ''-'' \<or> (\<exists>p \<in> set (split_on CHR ''-'' u). c \<in> set p)"
  proof -
    have "set (join_with CHR ''-'' ps) \<subseteq> insert CHR ''-'' (\<Union> (set ` set ps))" for ps
      by (induction "CHR ''-''" ps rule: join_with.induct) auto
    from this[of "split_on CHR ''-'' u"] show ?thesis using c by auto
  qed
  moreover have "lower_hex c" if "p \<in> set (split_on CHR ''-'' u)" "c \<in> set p" for p
  proof -
    have "list_all (list_all lower_hex) (split_on CHR ''-'' u)" using u by (simp only: uuid_wf_def)
    with that show ?thesis unfolding list_all_iff by blast
  qed
  moreover have "lower_hex c \<Longrightarrow> byte_of c \<le> 127" by (auto simp: lower_hex_def ascii_defs)
  moreover have "c = CHR ''-'' \<Longrightarrow> byte_of c \<le> 127" by (simp add: byte_of_def)
  ultimately show "byte_of c \<le> 127" by blast
qed

lemma parse_release_target:
  assumes "uuid_parse_ok ps" and "uuid_wf r" and "r \<noteq> nil_uuid"
  shows "parse_release_symlink_target ps (''releases/'' @ r) = Some r"
proof -
  have "slash \<notin> set r" using uuid_component_self[OF assms(2)] by (simp add: safe_component_def)
  then have split: "split_on slash (''releases/'' @ r) = [''releases'', r]" by (simp add: split_on_no_sep)
  have "path_components (''releases/'' @ r) = map Normal [''releases'', r]"
    using safe_path_components[of "''releases/'' @ r"] split uuid_component_self[OF assms(2)]
    by (simp only: split) simp
  then show ?thesis
    using ReleaseId_parse_wf[OF assms] utf8_ok_uuid[OF assms(2)]
    by (simp add: parse_release_symlink_target_def)
qed

lemma parse_release_target_SomeD:
  "uuid_parse_ok ps \<Longrightarrow> parse_release_symlink_target ps t = Some r \<Longrightarrow> uuid_wf r \<and> r \<noteq> nil_uuid"
  by (auto simp: parse_release_symlink_target_def ReleaseId_parse_def RequestId_parse_def uuid_parse_ok_def
      split: list.splits component.splits if_splits sum.splits option.splits)

text \<open>What the link at a path says: no release, one, or something that is not a release link.\<close>

definition named_release :: "crates \<Rightarrow> host \<Rightarrow> path \<Rightarrow> ReleaseId option option" where
  "named_release L h p =
     (case node_at h p of
        None \<Rightarrow> Some None
      | Some (Symlink t) \<Rightarrow> map_option Some (parse_release_symlink_target (cr_uuid L) t)
      | Some _ \<Rightarrow> None)"

lemma read_previous_same [host_frame, simp]:
  "node_at (snd (read_previous_release L m c h)) = node_at h"
  "env (snd (read_previous_release L m c h)) = env h"
  by (simp_all add: read_previous_release_def read_link_def io_call_def split: option.splits node.splits)

lemma read_previous_Ok:
  "read_previous_release L m c h = (Ok r, h') \<Longrightarrow> named_release L h (m @ c) = Some r"
  by (auto simp: read_previous_release_def read_link_def io_call_def named_release_def
      split: option.splits node.splits if_splits) metis

lemma read_previous_healthy:
  "healthy h \<Longrightarrow> named_release L h (m @ c) = Some r \<Longrightarrow> fst (read_previous_release L m c h) = Ok r"
  by (auto simp: read_previous_release_def read_link_def named_release_def healthy_simps
      split: option.splits node.splits)

lemma managed_open_same [host_frame, simp]:
  "node_at (snd (ManagedRoot_open root h)) = node_at h" "env (snd (ManagedRoot_open root h)) = env h"
  by (simp_all add: ManagedRoot_open_def)

lemma managed_open_Ok: "ManagedRoot_open root h = (Ok m, h') \<Longrightarrow> m = root \<and> node_at h' = node_at h \<and> env h' = env h"
  using managed_open_same[of root h]
  by (auto simp: ManagedRoot_open_def open_managed_dir_def io_call_def split: option.splits node.splits if_splits)

lemma current_release_same [host_frame, simp]:
  "node_at (snd (current_release L c s h)) = node_at h" "env (snd (current_release L c s h)) = env h"
  by (simp_all add: current_release_def try_io_keeps[where g = node_at] try_io_keeps[where g = env])

lemma current_release_Ok:
  assumes "current_release L content s h = (Ok r, h')"
  shows "named_release L h (content @ current_path s) = Some r"
proof -
  from assms obtain m h1 where "ManagedRoot_open content h = (Ok m, h1)"
    and rd: "read_previous_release L m (current_path s) h1 = (Ok r, h')"
    by (auto simp: current_release_def try_io_Ok_iff)
  then have "m = content" "node_at h1 = node_at h" using managed_open_Ok by blast+
  with read_previous_Ok[OF rd] show ?thesis by (simp add: named_release_def)
qed

section \<open>What a switch changes\<close>

lemma symlink_frame: "q \<noteq> root @ l \<Longrightarrow> node_at (snd (symlink root l t h)) q = node_at h q"
  by (simp add: symlink_def io_call_def)

lemma symlink_env [host_frame, simp]: "env (snd (symlink root l t h)) = env h"
  by (simp add: symlink_def io_call_def)

lemma symlink_Ok: "symlink root l t h = (Ok (), h') \<Longrightarrow>
    node_at h (root @ l) = None \<and> node_at h' = (node_at h)(root @ l \<mapsto> Symlink (join_with slash t))"
  by (auto simp: symlink_def io_call_def split: if_splits)

lemma symlink_Err: "symlink root l t h = (Err e, h') \<Longrightarrow> node_at h' = node_at h"
  by (auto simp: symlink_def io_call_def split: if_splits)

lemma rename_env [host_frame, simp]: "env (snd (rename root a b h)) = env h"
  by (simp add: rename_def rename_node_def io_call_def split: option.splits node.splits)

lemma rename_link:
  assumes "node_at h (root @ a) = Some (Symlink t)" and "root @ a \<noteq> root @ b"
  shows "rename root a b h = (Ok (), h') \<Longrightarrow> node_at h' = (node_at h)(root @ a := None, root @ b \<mapsto> Symlink t)"
    and "rename root a b h = (Err e, h') \<Longrightarrow> node_at h' = node_at h"
  using assms by (auto simp: rename_def rename_node_def io_call_def split: if_splits)

definition cur_link :: "path \<Rightarrow> SiteId \<Rightarrow> path" where
  "cur_link content s = content @ [''sites'', s, ''current'']"

definition tmp_link :: "path \<Rightarrow> SiteId \<Rightarrow> ReleaseId \<Rightarrow> path" where
  "tmp_link content s r = content @ [''sites'', s, ''.current.tmp-'' @ r]"

definition site_dirs :: "path \<Rightarrow> SiteId \<Rightarrow> path set" where
  "site_dirs content s = {content @ [''sites''], content @ [''sites'', s]}"

lemma link_paths_distinct [simp]:
  "cur_link content s \<noteq> tmp_link content s r" "tmp_link content s r \<noteq> cur_link content s"
  "cur_link content s \<notin> site_dirs content s" "tmp_link content s r \<notin> site_dirs content s"
  by (auto simp: cur_link_def tmp_link_def site_dirs_def)

lemma link_paths:
  assumes "uuid_wf s" and "uuid_wf r"
  shows "content @ current_path s = cur_link content s" "content @ temp_link_path s r = tmp_link content s r"
  by (simp_all add: release_paths[OF assms] cur_link_def tmp_link_def)

lemma site_dirs_frame:
  assumes "q \<notin> site_dirs content s"
  shows "node_at (snd (create_dir_all content [''sites'', s] h)) q = node_at h q"
  using assms by (intro create_dir_all_frame) (auto simp: site_dirs_def Cons_eq_append_conv)

text \<open>Making the temporary link and renaming it over \<open>current\<close>.\<close>

lemma swap_cases [consumes 2, case_names failed swapped]:
  assumes wf: "uuid_wf s" "uuid_wf r"
  obtains (failed) e h' where
      "try_io (symlink content (temp_link_path s r) (release_target r) h) Act_Io (\<lambda>_ h.
         try_io (rename content (temp_link_path s r) (current_path s) h) Act_Io (\<lambda>_ h. (Ok x, h))) = (Err e, h')"
      "\<And>q. q \<noteq> tmp_link content s r \<Longrightarrow> node_at h' q = node_at h q"
      "node_at h (tmp_link content s r) \<noteq> None \<Longrightarrow> node_at h' = node_at h"
  | (swapped) h' where
      "try_io (symlink content (temp_link_path s r) (release_target r) h) Act_Io (\<lambda>_ h.
         try_io (rename content (temp_link_path s r) (current_path s) h) Act_Io (\<lambda>_ h. (Ok x, h))) = (Ok x, h')"
      "node_at h (tmp_link content s r) = None"
      "node_at h' = (node_at h)(tmp_link content s r := None, cur_link content s \<mapsto> Symlink (''releases/'' @ r))"
proof -
  note paths = release_paths[OF wf] link_paths[OF wf, of content]
  obtain b h1 where sl: "symlink content (temp_link_path s r) (release_target r) h = (b, h1)" by fastforce
  obtain c h2 where rn: "rename content (temp_link_path s r) (current_path s) h1 = (c, h2)" by fastforce
  have frame: "q \<noteq> tmp_link content s r \<Longrightarrow> node_at h1 q = node_at h q" for q
    using symlink_frame[of q content "temp_link_path s r" "release_target r" h] sl paths(8) by simp
  show thesis
  proof (cases b)
    case (Inl e)
    with sl frame symlink_Err[of content] failed show thesis by simp
  next
    case (Inr u)
    then have ok: "symlink content (temp_link_path s r) (release_target r) h = (Ok (), h1)" using sl by simp
    from symlink_Ok[OF this] have new: "node_at h (tmp_link content s r) = None"
        "node_at h1 = (node_at h)(tmp_link content s r \<mapsto> Symlink (''releases/'' @ r))"
      unfolding paths(8) paths(2) by simp_all
    have at: "node_at h1 (content @ temp_link_path s r) = Some (Symlink (''releases/'' @ r))"
        "content @ temp_link_path s r \<noteq> content @ current_path s"
      unfolding paths(7,8) using new by simp_all
    show thesis
    proof (cases c)
      case (Inl e)
      with rename_link(2)[OF at] rn have "node_at h2 = node_at h1" by simp
      with ok rn Inl frame new(1) failed show thesis by simp
    next
      case (Inr v)
      with rename_link(1)[OF at] rn have
          "node_at h2 = (node_at h)(tmp_link content s r := None, cur_link content s \<mapsto> Symlink (''releases/'' @ r))"
        unfolding paths(7,8) new(2) by simp
      with ok rn Inr new(1) swapped show thesis by simp
    qed
  qed
qed

lemma activate_cases [consumes 2, case_names failed switched]:
  assumes wf: "uuid_wf s" "uuid_wf r"
  obtains (failed) e h' where "activate L content s r h = (Err e, h')"
      "\<And>q. q \<noteq> tmp_link content s r \<Longrightarrow> q \<notin> site_dirs content s \<Longrightarrow> node_at h' q = node_at h q"
      "node_at h (tmp_link content s r) \<noteq> None \<Longrightarrow> node_at h' (tmp_link content s r) \<noteq> None"
  | (switched) prev h' where "activate L content s r h = (Ok prev, h')"
      "named_release L h (cur_link content s) = Some prev" "node_at h (tmp_link content s r) = None"
      "node_at h' (tmp_link content s r) = None" "node_at h' (cur_link content s) = Some (Symlink (''releases/'' @ r))"
      "\<And>q. q \<notin> {tmp_link content s r, cur_link content s} \<Longrightarrow> q \<notin> site_dirs content s \<Longrightarrow> node_at h' q = node_at h q"
proof -
  obtain a h0 where m: "ManagedRoot_open content h = (a, h0)" by fastforce
  have n0: "node_at h0 = node_at h" using managed_open_same(1)[of content h] m by simp
  show thesis
  proof (cases a)
    case (Inl e)
    with m n0 show thesis by (intro failed[of "Act_Io e" h0]) (simp_all add: activate_def)
  next
    case (Inr root)
    with m have root: "a = Ok content" using managed_open_Ok by blast
    obtain b h1 where d: "create_dir_all content [''sites'', s] h0 = (b, h1)" by fastforce
    have n1: "q \<notin> site_dirs content s \<Longrightarrow> node_at h1 q = node_at h q" for q
      using site_dirs_frame[of q content s h0] d n0 by simp
    obtain c h2 where rd: "read_previous_release L content (current_path s) h1 = (c, h2)" by fastforce
    have n2: "node_at h2 = node_at h1" using read_previous_same(1)[of L content "current_path s" h1] rd by simp
    note run = activate_def m root d release_paths(6)[OF wf] rd
    show thesis
    proof (cases b)
      case (Inl e)
      with n1 show thesis by (intro failed[of "Act_Io e" h1]) (simp_all add: run)
    next
      case (Inr u)
      note b = this
      show thesis
      proof (cases c)
        case (Inl e)
        with b n1 n2 show thesis by (intro failed[of e h2]) (simp_all add: run)
      next
        case (Inr prev)
        have prev: "named_release L h (cur_link content s) = Some prev"
          using read_previous_Ok[of L content "current_path s" h1 prev h2] rd Inr n1[of "cur_link content s"]
          by (simp add: link_paths[OF wf] named_release_def)
        from wf show thesis
        proof (cases rule: swap_cases[where content = content and h = h2 and x = prev])
          case (failed e h3)
          with b Inr n1 n2 show thesis by (intro that(1)[of e h3]) (simp_all add: run)
        next
          case (swapped h3)
          with b Inr n1 n2 prev show thesis by (intro that(2)[of prev h3]) (simp_all add: run)
        qed
      qed
    qed
  qed
qed

lemma activate_env [host_frame, simp]: "env (snd (activate L content s r h)) = env h"
  unfolding activate_def by (intro try_io_keeps) simp_all

text \<open>
  (C6) Activation is atomic and exact. When it reports success, \<open>current\<close> names the release,
  the reported previous release is the one \<open>current\<close> named before (none, if there was no link), and
  a later reading of the current release finds the new one; when it reports an error, whatever the
  error, \<open>current\<close> is what it was. Nothing else changes but the temporary link and the two
  directories above it.
\<close>

theorem activation_is_atomic:
  assumes "crates_ok L" and "uuid_wf s" and "uuid_wf r" and "r \<noteq> nil_uuid"
  shows "(\<forall>e h'. activate L content s r h = (Err e, h') \<longrightarrow>
            node_at h' (content @ current_path s) = node_at h (content @ current_path s))
    \<and> (\<forall>prev h'. activate L content s r h = (Ok prev, h') \<longrightarrow>
            named_release L h (content @ current_path s) = Some prev
            \<and> named_release L h' (content @ current_path s) = Some (Some r)
            \<and> (\<forall>x h''. current_release L content s h' = (Ok x, h'') \<longrightarrow> x = Some r))
    \<and> (\<forall>q. q \<notin> {cur_link content s, tmp_link content s r} \<union> site_dirs content s \<longrightarrow>
            node_at (snd (activate L content s r h)) q = node_at h q)"
  using assms(2,3)
proof (cases rule: activate_cases[where L = L and content = content and h = h])
  case (failed e h')
  then show ?thesis by (simp add: link_paths[OF assms(2,3)])
next
  case (switched prev h')
  have "named_release L h' (cur_link content s) = Some (Some r)"
    using switched(5) parse_release_target[OF crates_okD(2)[OF assms(1)] assms(3,4)]
    by (simp add: named_release_def)
  moreover from this have "x = Some r" if "current_release L content s h' = (Ok x, h'')" for x h''
    using current_release_Ok[OF that] by (simp add: link_paths[OF assms(2,3)])
  ultimately show ?thesis using switched by (auto simp: link_paths[OF assms(2,3)])
qed

text \<open>A site whose current release is being replaced.\<close>

definition example_content :: path where "example_content = [''srv'']"

definition example_release_host :: host where
  "example_release_host = example_host
     [([''srv''], Dir), ([''srv'', ''sites''], Dir), ([''srv'', ''sites'', example_id], Dir),
      ([''srv'', ''sites'', example_id, ''current''], Symlink (''releases/'' @ example_id2))]"

theorem activation_is_atomic_witness:
  "fst (activate (table_crates []) example_content example_id example_id example_release_host)
     = Ok (Some example_id2)
   \<and> named_release (table_crates []) (snd (activate (table_crates []) example_content example_id example_id
       example_release_host)) (example_content @ current_path example_id) = Some (Some example_id)"
proof -
  have ran: "fst (activate (table_crates []) example_content example_id example_id example_release_host)
      = Ok (Some example_id2)" by code_simp
  then obtain h' where "activate (table_crates []) example_content example_id example_id example_release_host
      = (Ok (Some example_id2), h')" by (metis prod.collapse)
  moreover have "example_id \<noteq> nil_uuid" by code_simp
  ultimately show ?thesis
    using activation_is_atomic[of "table_crates []" example_id example_id example_content example_release_host]
    by simp
qed

section \<open>A leftover temporary link\<close>

text \<open>
  (C39) A temporary link that an interrupted activation of a release left behind makes every later
  activation of that release fail: nothing removes the link, and creating it again is refused.
\<close>

theorem leftover_link_blocks_activation:
  assumes "uuid_wf s" and "uuid_wf r" and "node_at h (content @ temp_link_path s r) \<noteq> None"
  shows "(\<exists>e. fst (activate L content s r h) = Err e)
    \<and> node_at (snd (activate L content s r h)) (content @ temp_link_path s r) \<noteq> None"
  using assms(1,2)
proof (cases rule: activate_cases[where L = L and content = content and h = h])
  case (failed e h')
  with assms show ?thesis by (simp add: link_paths)
next
  case (switched prev h')
  with assms show ?thesis by (simp add: link_paths)
qed

definition example_leftover_host :: host where
  "example_leftover_host = set_node [''srv'', ''sites'', example_id, ''.current.tmp-'' @ example_id]
     (Symlink (''releases/'' @ example_id)) example_release_host"

theorem leftover_link_blocks_activation_witness:
  "\<exists>e. fst (activate (table_crates []) example_content example_id example_id example_leftover_host) = Err e"
proof -
  have "node_at example_leftover_host (example_content @ temp_link_path example_id example_id) \<noteq> None"
    by (simp add: release_paths(3) example_leftover_host_def example_content_def)
  then show ?thesis
    using leftover_link_blocks_activation[of example_id example_id example_leftover_host] by simp
qed

section \<open>What retention removes\<close>

lemma node_at_filtered:
  "tree h' = filter (\<lambda>kv. P (fst kv)) (tree h) \<Longrightarrow> node_at h' q = (if P q then node_at h q else None)"
  by (simp add: node_at_def map_of_filter_key)

lemma remove_dir_all_frame:
  assumes "\<not> below (root @ p) q"
  shows "node_at (snd (remove_dir_all root p h)) q = node_at h q"
proof -
  define gone where "gone = take (torn h (tick h)) (filter (\<lambda>q. below (root @ p) q \<and> q \<noteq> root @ p) (map fst (tree h)))"
  have "q \<notin> set gone" using assms by (auto simp: gone_def dest: in_set_takeD)
  moreover have "node_at ((next_tick h)\<lparr>tree := filter (\<lambda>kv. fst kv \<notin> set gone) (tree h)\<rparr>) q
      = (if q \<notin> set gone then node_at h q else None)"
    by (rule node_at_filtered) simp
  moreover have "node_at ((next_tick h)\<lparr>tree := filter (\<lambda>kv. \<not> below (root @ p) (fst kv)) (tree h)\<rparr>) q
      = (if \<not> below (root @ p) q then node_at h q else None)"
    by (rule node_at_filtered) simp
  moreover have "q \<noteq> root @ p" using assms by (auto simp: below_def path_starts_with_def)
  ultimately show ?thesis
    using assms unfolding remove_dir_all_def Let_def gone_def[symmetric] by (auto split: option.split node.split)
qed

lemma remove_dir_all_healthy:
  assumes "healthy h" and "node_at h (root @ p) = Some Dir"
  shows "remove_dir_all root p h = (Ok (), (next_tick h)\<lparr>tree := filter (\<lambda>kv. \<not> below (root @ p) (fst kv)) (tree h)\<rparr>)"
  using assms by (simp add: remove_dir_all_def healthy_def Let_def)

definition release_dir :: "path \<Rightarrow> SiteId \<Rightarrow> ReleaseId \<Rightarrow> path" where
  "release_dir content s r = content @ [''sites'', s, ''releases'', r]"

lemma release_dirs_apart: "below (release_dir content s r) q \<Longrightarrow> below (release_dir content s r') q \<Longrightarrow> r = r'"
  by (auto simp: below_def release_dir_def path_starts_with_iff)

lemma release_dir_path: "uuid_wf s \<Longrightarrow> uuid_wf r \<Longrightarrow> content @ release_path s r = release_dir content s r"
  by (simp add: release_paths(4) release_dir_def)

lemma remove_beyond_frame:
  assumes "uuid_wf s" and "list_all (\<lambda>c. uuid_wf (fst c)) cs"
    and "\<And>r. r \<in> fst ` set cs \<Longrightarrow> r \<noteq> active \<Longrightarrow> \<not> below (release_dir content s r) q"
  shows "node_at (snd (remove_beyond content s active k i cs h)) q = node_at h q"
  using assms
proof (induction content s active k i cs h rule: remove_beyond.induct)
  case (2 content s active k i r m rest h)
  show ?case
  proof (cases "r = active \<or> i < k")
    case True
    with 2(1) 2(4-) show ?thesis by simp
  next
    case False
    obtain a h1 where rm: "remove_dir_all content (release_path s r) h = (a, h1)" by fastforce
    have "\<not> below (content @ release_path s r) q"
      using False 2(6)[of r] 2(4,5) by (simp add: release_dir_path)
    then have n1: "node_at h1 q = node_at h q" using remove_dir_all_frame[of content "release_path s r" q h] rm by simp
    show ?thesis
    proof (cases a)
      case (Inl e)
      with False rm n1 2(2)[OF False, of a h1 e] 2(4-) show ?thesis by simp
    next
      case (Inr u)
      with False rm n1 2(3)[OF False, of a h1 u] 2(4-) show ?thesis by (simp add: apfst_def map_prod_def split_beta)
    qed
  qed
qed simp

lemma remove_beyond_env [host_frame, simp]: "env (snd (remove_beyond content s active k i cs h)) = env h"
proof (induction cs arbitrary: i h)
  case (Cons c cs)
  obtain r m where c: "c = (r, m)" by fastforce
  obtain a h1 where rm: "remove_dir_all content (release_path s r) h = (a, h1)" by fastforce
  then have "env h1 = env h" using env_remove_dir_all[of content "release_path s r" h] by simp
  with Cons rm c show ?case by (cases a) simp_all
qed simp

lemma ReleaseId_parse_Ok: "uuid_parse_ok ps \<Longrightarrow> ReleaseId_parse ps n = Ok r \<Longrightarrow> r = n \<and> uuid_wf r \<and> r \<noteq> nil_uuid"
  by (auto simp: ReleaseId_parse_def RequestId_parse_def uuid_parse_ok_def split: option.splits if_splits)

lemma modified_same: "modified p h = (m, h') \<Longrightarrow> node_at h' = node_at h \<and> env h' = env h"
  by (auto simp: modified_def)

lemma release_candidates_same:
  "node_at (snd (release_candidates ps es h)) = node_at h \<and> env (snd (release_candidates ps es h)) = env h"
proof (induction es arbitrary: h)
  case (Cons p es)
  obtain m h1 where "modified p (next_tick h) = (m, h1)" by fastforce
  with modified_same[OF this] Cons show ?case by (simp add: io_call_def split: sum.splits)
qed simp

lemma release_candidates_wf:
  "uuid_parse_ok ps \<Longrightarrow> release_candidates ps es h = (Ok cs, h') \<Longrightarrow> list_all (\<lambda>c. uuid_wf (fst c)) cs"
proof (induction es arbitrary: h cs h')
  case (Cons p es)
  show ?case
  proof (cases "ReleaseId_parse ps (last p)")
    case (Inl e)
    with Cons show ?thesis by (auto simp: io_call_def try_io_Ok_iff split: if_splits)
  next
    case (Inr r)
    then have "uuid_wf r" using ReleaseId_parse_Ok[OF Cons(2)] by blast
    with Cons Inr show ?thesis
      by (auto simp: io_call_def Let_def try_io_Ok_iff split: prod.splits if_splits)
  qed
qed simp

lemma open_dir_same [host_frame, simp]:
  "node_at (snd (open_managed_dir root p h)) = node_at h" "env (snd (open_managed_dir root p h)) = env h"
  by (simp_all add: open_managed_dir_def io_call_def split: option.splits node.splits)

lemma newest_first_set [simp]: "set (newest_first cs) = set cs"
  by (simp add: newest_first_def)

lemma prune_old_frame:
  assumes "uuid_parse_ok (cr_uuid L)" and "uuid_wf s"
    and "\<And>r. r \<noteq> active \<Longrightarrow> \<not> below (release_dir content s r) q"
  shows "node_at (snd (prune_old_releases L content s active k h)) q = node_at h q"
    and "env (snd (prune_old_releases L content s active k h)) = env h"
proof -
  obtain a h0 where m: "ManagedRoot_open content h = (a, h0)" by fastforce
  obtain b h1 where d: "open_managed_dir content (releases_path s) h0 = (b, h1)" by fastforce
  have same: "node_at h0 = node_at h" "env h0 = env h" "node_at h1 = node_at h0" "env h1 = env h0"
    using managed_open_same[of content h] open_dir_same[of content "releases_path s" h0] m d by simp_all
  have cand: "node_at h3 q = node_at h1 q \<and> env h3 = env h1"
    if "release_candidates ps es (next_tick h1) = (r, h2)"
      "remove_beyond content s active k 0 (newest_first cs) h2 = (x, h3)"
      "list_all (\<lambda>c. uuid_wf (fst c)) cs" for ps es r h2 cs x h3
  proof -
    have "node_at h2 = node_at h1" "env h2 = env h1"
      using release_candidates_same[of ps es "next_tick h1"] that(1) by simp_all
    moreover have "node_at h3 q = node_at h2 q"
      using remove_beyond_frame[OF assms(2), of "newest_first cs" active content q k 0 h2] that assms(3)
      by (simp add: list_all_iff)
    moreover have "env h3 = env h2" using remove_beyond_env[of content s active k 0 "newest_first cs" h2] that(2) by simp
    ultimately show ?thesis by simp
  qed
  have "node_at (snd (prune_old_releases L content s active k h)) q = node_at h q
      \<and> env (snd (prune_old_releases L content s active k h)) = env h"
  proof (cases a)
    case (Inl e)
    with m same show ?thesis by (simp add: prune_old_releases_def)
  next
    case (Inr root)
    with m have root: "a = Ok content" using managed_open_Ok by blast
    show ?thesis
    proof (cases b)
      case (Inl e)
      with m root d same show ?thesis by (simp add: prune_old_releases_def)
    next
      case (Inr dir)
      define es where "es = map fst (dir_entries (next_tick h1) dir)"
      obtain c h2 where rc: "release_candidates (cr_uuid L) es (next_tick h1) = (c, h2)" by fastforce
      note run = prune_old_releases_def m root d Inr io_call_def
      have h2: "node_at h2 = node_at h1" "env h2 = env h1"
        using release_candidates_same[of "cr_uuid L" es "next_tick h1"] rc by simp_all
      show ?thesis
      proof (cases c)
        case (Inl e)
        with h2 rc same show ?thesis by (auto simp: run es_def)
      next
        case (Inr cs)
        obtain x h3 where rb: "remove_beyond content s active k 0 (newest_first cs) h2 = (x, h3)" by fastforce
        have "list_all (\<lambda>c. uuid_wf (fst c)) cs" using release_candidates_wf[OF assms(1)] rc Inr by blast
        from cand[OF rc rb this] rc rb Inr same show ?thesis by (auto simp: run es_def)
      qed
    qed
  qed
  then show "node_at (snd (prune_old_releases L content s active k h)) q = node_at h q"
    and "env (snd (prune_old_releases L content s active k h)) = env h" by simp_all
qed

text \<open>
  (C36) Retention never touches the active release: whatever fails during the sweep, every entry of
  the active release's directory and every entry outside the site's releases, the \<open>current\<close> link
  among them, is what it was.
\<close>

theorem retention_keeps_active:
  assumes "crates_ok L" and "uuid_wf s" and "uuid_wf active"
    and "below (content @ release_path s active) q \<or> \<not> below (content @ releases_path s) q"
  shows "node_at (snd (prune_old_releases L content s active retain h)) q = node_at h q"
proof (rule prune_old_frame(1)[OF crates_okD(2)[OF assms(1)] assms(2)])
  fix r assume "r \<noteq> active"
  show "\<not> below (release_dir content s r) q"
  proof
    assume r: "below (release_dir content s r) q"
    then have "below (content @ releases_path s) q"
      using assms(2,3) by (auto simp: release_paths(5) release_dir_def below_def path_starts_with_iff)
    with assms(4) have "below (release_dir content s active) q"
      using assms(2,3) by (simp add: release_dir_path)
    with r \<open>r \<noteq> active\<close> show False using release_dirs_apart by blast
  qed
qed

theorem retention_keeps_active_witness:
  "node_at (snd (prune_old_releases (table_crates []) example_content example_id example_id2 0 example_release_host))
     (example_content @ [''sites'', example_id, ''current'']) = Some (Symlink (''releases/'' @ example_id2))"
proof -
  have "\<not> below (example_content @ releases_path example_id) (example_content @ [''sites'', example_id, ''current''])"
    by (simp add: release_paths(5)[OF example_id_wf example_id_wf] below_def path_starts_with_def)
  then have "node_at (snd (prune_old_releases (table_crates []) example_content example_id example_id2 0 example_release_host))
     (example_content @ [''sites'', example_id, ''current''])
     = node_at example_release_host (example_content @ [''sites'', example_id, ''current''])"
    by (intro retention_keeps_active) simp_all
  then show ?thesis by (simp add: example_release_host_def example_host_def node_at_def example_content_def)
qed

section \<open>Retention when no call fails\<close>

text \<open>The releases in a directory listing with their modification times.\<close>

definition listed_release :: "(string \<Rightarrow> uuid option) \<Rightarrow> host \<Rightarrow> path \<Rightarrow> (ReleaseId \<times> nat) option" where
  "listed_release ps h p =
     (if \<not> utf8_ok (last p) then None
      else (case ReleaseId_parse ps (last p) of
         Inl _ \<Rightarrow> None
       | Inr r \<Rightarrow> Some (r, case mtime h p of None \<Rightarrow> 0 | Some m \<Rightarrow> m)))"

definition releases_on_disk :: "crates \<Rightarrow> path \<Rightarrow> SiteId \<Rightarrow> host \<Rightarrow> (ReleaseId \<times> nat) list" where
  "releases_on_disk L content s h =
     List.map_filter (listed_release (cr_uuid L) h) (map fst (dir_entries h (content @ releases_path s)))"

lemma listed_release_cong: "env h' = env h \<Longrightarrow> listed_release ps h' = listed_release ps h"
proof -
  assume "env h' = env h"
  then have "mtime h' = mtime h" by (simp add: env_def)
  then show ?thesis by (intro ext) (simp only: listed_release_def)
qed

lemma release_candidates_healthy:
  "healthy h \<Longrightarrow> \<exists>h'. release_candidates ps es h = (Ok (List.map_filter (listed_release ps h) es), h')
     \<and> tree h' = tree h \<and> env h' = env h"
proof (induction es arbitrary: h)
  case (Cons p es)
  have mod: "modified p (next_tick h) = (case mtime h p of None \<Rightarrow> 0 | Some m \<Rightarrow> m, next_tick (next_tick h))"
    using Cons(2) by (simp add: modified_def healthy_def next_tick_def)
  note cong = listed_release_cong[of _ h ps]
  have "healthy (next_tick h)" "healthy (next_tick (next_tick h))" using Cons(2) by simp_all
  from Cons(1)[OF this(1)] Cons(1)[OF this(2)] obtain h1 h2 where
    "release_candidates ps es (next_tick h) = (Ok (List.map_filter (listed_release ps h) es), h1)"
      "tree h1 = tree h" "env h1 = env h"
    "release_candidates ps es (next_tick (next_tick h)) = (Ok (List.map_filter (listed_release ps h) es), h2)"
      "tree h2 = tree h" "env h2 = env h"
    using cong[of "next_tick h"] cong[of "next_tick (next_tick h)"] by (auto simp: next_tick_def env_def)
  with Cons(2) mod show ?case
    by (cases "ReleaseId_parse ps (last p)") (auto simp: listed_release_def[of ps h p] map_filter_simps)
qed (simp add: map_filter_simps)

lemma remove_beyond_healthy:
  assumes "healthy h" and "uuid_wf s"
    and "\<And>c. c \<in> set cs \<Longrightarrow> uuid_wf (fst c) \<and> node_at h (release_dir content s (fst c)) = Some Dir"
    and "distinct (map fst cs)"
  shows "\<exists>h'. remove_beyond content s active k i cs h = (filter (\<lambda>r. r \<noteq> active) (map fst (drop (k - i) cs)), h')
    \<and> (\<forall>q. node_at h' q = (if \<exists>r \<in> set (map fst (drop (k - i) cs)) - {active}. below (release_dir content s r) q
          then None else node_at h q))"
  using assms
proof (induction cs arbitrary: i h)
  case (Cons c cs)
  obtain r m where c: "c = (r, m)" by fastforce
  note later = Cons(1)[OF _ Cons(3)]
  show ?case
  proof (cases "r = active \<or> i < k")
    case True
    from later[of h "Suc i"] Cons(2,4,5) obtain h' where
      "remove_beyond content s active k (Suc i) cs h = (filter (\<lambda>r. r \<noteq> active) (map fst (drop (k - Suc i) cs)), h')"
      "\<forall>q. node_at h' q = (if \<exists>r \<in> set (map fst (drop (k - Suc i) cs)) - {active}. below (release_dir content s r) q
          then None else node_at h q)" by auto
    with True c show ?thesis by (cases "i < k") (auto simp: Suc_diff_Suc[symmetric] drop_Cons')
  next
    case False
    define h1 where "h1 = (next_tick h)\<lparr>tree := filter (\<lambda>kv. \<not> below (release_dir content s r) (fst kv)) (tree h)\<rparr>"
    have wf: "uuid_wf r" "node_at h (release_dir content s r) = Some Dir" using Cons(4)[of c] c by simp_all
    then have rm: "remove_dir_all content (release_path s r) h = (Ok (), h1)"
      using remove_dir_all_healthy[OF Cons(2), of content "release_path s r"] Cons(3)
      by (simp add: h1_def release_dir_path)
    have n1: "node_at h1 q = (if \<not> below (release_dir content s r) q then node_at h q else None)" for q
      by (rule node_at_filtered) (simp add: h1_def)
    have "healthy h1" using Cons(2) by (simp add: h1_def healthy_def next_tick_def)
    moreover have "uuid_wf (fst d) \<and> node_at h1 (release_dir content s (fst d)) = Some Dir" if "d \<in> set cs" for d
    proof -
      have "fst d \<noteq> r" using Cons(5) c that by auto
      then have "\<not> below (release_dir content s r) (release_dir content s (fst d))"
        by (auto simp: below_def release_dir_def path_starts_with_iff)
      with Cons(4)[of d] that n1 show ?thesis by simp
    qed
    ultimately obtain h' where rest:
      "remove_beyond content s active k (Suc i) cs h1 = (filter (\<lambda>r. r \<noteq> active) (map fst (drop (k - Suc i) cs)), h')"
      "\<forall>q. node_at h' q = (if \<exists>r \<in> set (map fst (drop (k - Suc i) cs)) - {active}. below (release_dir content s r) q
          then None else node_at h1 q)" using later[of h1 "Suc i"] Cons(5) by auto
    with False c rm n1 show ?thesis by auto
  qed
qed simp

lemma listed_release_SomeD:
  "uuid_parse_ok ps \<Longrightarrow> listed_release ps h p = Some c \<Longrightarrow> fst c = last p \<and> uuid_wf (fst c)"
  by (auto simp: listed_release_def dest: ReleaseId_parse_Ok split: if_splits sum.splits)

lemma listed_distinct:
  assumes "uuid_parse_ok ps"
  shows "distinct es \<Longrightarrow> (\<And>p. p \<in> set es \<Longrightarrow> p \<noteq> [] \<and> butlast p = d) \<Longrightarrow>
    distinct (map fst (List.map_filter (listed_release ps h) es))"
proof (induction es)
  case (Cons p es)
  have "last p \<noteq> last p'" if "p' \<in> set es" for p'
    using Cons(2,3) that by (metis append_butlast_last_id distinct.simps(2) list.set_intros)
  moreover have "\<exists>p' \<in> set es. fst c = last p'" if "c \<in> set (List.map_filter (listed_release ps h) es)" for c
    using that listed_release_SomeD[OF assms] by (fastforce simp: List.map_filter_def)
  ultimately have new: "last p \<notin> fst ` set (List.map_filter (listed_release ps h) es)" by force
  have "distinct (map fst (List.map_filter (listed_release ps h) es))" using Cons by simp
  with new show ?case
    using listed_release_SomeD[OF assms, of h p]
    by (cases "listed_release ps h p") (simp_all add: map_filter_simps)
qed (simp add: map_filter_simps)

lemma releases_on_disk_facts:
  assumes "uuid_parse_ok (cr_uuid L)" and "host_wf h"
  shows "distinct (map fst (releases_on_disk L content s h))"
    and "c \<in> set (releases_on_disk L content s h) \<Longrightarrow> uuid_wf (fst c)"
proof -
  have "distinct (map fst (dir_entries h (content @ releases_path s)))"
    using assms(2) by (simp add: dir_entries_def host_wf_def distinct_map_fst_filter)
  then show "distinct (map fst (releases_on_disk L content s h))"
    unfolding releases_on_disk_def
    by (rule listed_distinct[OF assms(1), where d = "content @ releases_path s"]) (auto simp: dir_entries_def)
  show "c \<in> set (releases_on_disk L content s h) \<Longrightarrow> uuid_wf (fst c)"
    using listed_release_SomeD[OF assms(1)] by (fastforce simp: releases_on_disk_def List.map_filter_def)
qed

text \<open>What dropping all but the first \<open>k\<close> of a list ordered by recency keeps.\<close>

definition excess :: "nat \<Rightarrow> ReleaseId \<Rightarrow> (ReleaseId \<times> nat) list \<Rightarrow> ReleaseId list" where
  "excess k active cs = filter (\<lambda>r. r \<noteq> active) (map fst (drop k (newest_first cs)))"

lemma newest_first_facts:
  "length (filter P (newest_first cs)) = length (filter P cs)"
  "length (newest_first cs) = length cs"
  "distinct (map fst (newest_first cs)) = distinct (map fst cs)"
  "sorted (map (\<lambda>c. - int (snd c)) (newest_first cs))"
proof -
  have m: "mset (newest_first cs) = mset cs" by (simp add: newest_first_def)
  then show "length (filter P (newest_first cs)) = length (filter P cs)"
    by (metis mset_filter size_mset)
  from m show "length (newest_first cs) = length cs" by (rule mset_eq_length)
  from m have "mset (map fst (newest_first cs)) = mset (map fst cs)" by simp
  then show "distinct (map fst (newest_first cs)) = distinct (map fst cs)"
    by (rule mset_eq_imp_distinct_iff)
  show "sorted (map (\<lambda>c. - int (snd c)) (newest_first cs))" by (simp add: newest_first_def)
qed

text \<open>
  How many candidates come before one at a given place: those with a later time, and those with the
  same time that are listed earlier.
\<close>

definition more_recent :: "(ReleaseId \<times> nat) list \<Rightarrow> nat \<Rightarrow> (ReleaseId \<times> nat) list \<Rightarrow> nat" where
  "more_recent before m after =
     length (filter (\<lambda>c. m < snd c) (before @ after)) + length (filter (\<lambda>c. snd c = m) before)"

lemma sort_key_split:
  fixes f :: "'a \<Rightarrow> 'b::linorder"
  shows "sort_key f xs = filter (\<lambda>y. f y < v) (sort_key f xs) @ filter (\<lambda>y. f y = v) xs @ filter (\<lambda>y. v < f y) (sort_key f xs)"
proof -
  have "s = filter (\<lambda>y. f y < v) s @ filter (\<lambda>y. f y = v) s @ filter (\<lambda>y. v < f y) s" if "sorted (map f s)" for s
    using that
  proof (induction s)
    case (Cons y s)
    consider "f y < v" | "f y = v" | "v < f y" by fastforce
    then show ?case
    proof cases
      case 1
      with Cons show ?thesis by auto
    next
      case 2
      with Cons.prems have "filter (\<lambda>z. f z < v) s = []" by (auto simp: filter_empty_conv)
      with 2 Cons show ?thesis by auto
    next
      case 3
      with Cons.prems have "filter (\<lambda>z. f z < v) s = []" "filter (\<lambda>z. f z = v) s = []" by (auto simp: filter_empty_conv)
      with 3 Cons show ?thesis by auto
    qed
  qed simp
  from this[of "sort_key f xs"] show ?thesis by (simp add: sort_key_stable)
qed

lemma newest_first_place:
  assumes "cs = before @ (r, m) # after"
  shows "\<exists>xs ys. newest_first cs = xs @ (r, m) # ys \<and> length xs = more_recent before m after"
proof -
  let ?f = "\<lambda>c. - int (snd c)" and ?v = "- int m"
  have "filter (\<lambda>y. ?f y = ?v) cs = filter (\<lambda>c. snd c = m) before @ (r, m) # filter (\<lambda>c. snd c = m) after"
    using assms by simp
  moreover have "length (filter (\<lambda>y. ?f y < ?v) (newest_first cs)) = length (filter (\<lambda>c. m < snd c) (before @ after))"
    using newest_first_facts(1)[of "\<lambda>c. m < snd c" cs] assms by simp
  moreover have "newest_first cs = filter (\<lambda>y. ?f y < ?v) (newest_first cs) @ filter (\<lambda>y. ?f y = ?v) cs
      @ filter (\<lambda>y. ?v < ?f y) (newest_first cs)"
    using sort_key_split[of ?f cs ?v] unfolding newest_first_def[symmetric] .
  ultimately have "newest_first cs = (filter (\<lambda>y. ?f y < ?v) (newest_first cs) @ filter (\<lambda>c. snd c = m) before)
      @ (r, m) # (filter (\<lambda>c. snd c = m) after @ filter (\<lambda>y. ?v < ?f y) (newest_first cs))"
    and "length (filter (\<lambda>y. ?f y < ?v) (newest_first cs) @ filter (\<lambda>c. snd c = m) before) = more_recent before m after"
    by (simp_all add: more_recent_def)
  then show ?thesis by blast
qed

lemma drop_reaches:
  assumes "x \<notin> set xs" and "x \<notin> set ys"
  shows "x \<in> set (drop k (xs @ x # ys)) \<longleftrightarrow> k \<le> length xs"
proof (cases "k \<le> length xs")
  case False
  then obtain n where "k = length xs + Suc n" by (metis add_Suc_right less_imp_Suc_add not_le)
  with assms(2) show ?thesis by (auto dest: in_set_dropD)
qed simp

lemma excess_exact:
  assumes "distinct (map fst cs)" and "cs = before @ (r, m) # after"
  shows "r \<in> set (excess k active cs) \<longleftrightarrow> r \<noteq> active \<and> k \<le> more_recent before m after"
proof -
  from newest_first_place[OF assms(2)] obtain xs ys where s: "newest_first cs = xs @ (r, m) # ys"
    and len: "length xs = more_recent before m after" by blast
  have "distinct (map fst (newest_first cs))" using assms(1) newest_first_facts(3) by simp
  then have "r \<notin> set (map fst xs)" "r \<notin> set (map fst ys)" by (simp_all add: s)
  from drop_reaches[OF this, of k] have "r \<in> set (map fst (drop k (newest_first cs))) \<longleftrightarrow> k \<le> length xs"
    by (simp only: s drop_map[symmetric] map_append list.map fst_conv length_map)
  then show ?thesis by (simp only: excess_def set_filter mem_Collect_eq len) blast
qed

lemma excess_listed: "set (excess k active cs) \<subseteq> fst ` set cs"
proof -
  have "set (newest_first cs) = set cs" by (simp add: newest_first_def)
  then show ?thesis using set_drop_subset[of k "newest_first cs"] by (auto simp: excess_def)
qed

text \<open>
  (C37) When no call fails, retention removes exactly the releases beyond the \<open>retain\<close> most recent
  ones, the active one excepted: a listed release is removed if and only if it is not the active one
  and at least \<open>retain\<close> listed releases, the active one counted, are more recent. The directories of
  the removed releases are gone and nothing else has changed.
\<close>

theorem retention_keeps_newest:
  assumes "crates_ok L" and "healthy h" and "host_wf h" and "uuid_wf s"
    and "node_at h content = Some Dir" and "node_at h (content @ releases_path s) = Some Dir"
    and "\<forall>c \<in> set (releases_on_disk L content s h). node_at h (content @ release_path s (fst c)) = Some Dir"
  shows "\<exists>removed h'. prune_old_releases L content s active retain h = (Ok removed, h')
    \<and> set removed \<subseteq> fst ` set (releases_on_disk L content s h)
    \<and> (\<forall>before r m after. releases_on_disk L content s h = before @ (r, m) # after \<longrightarrow>
         (r \<in> set removed \<longleftrightarrow> r \<noteq> active \<and> retain \<le> more_recent before m after))
    \<and> (\<forall>q. node_at h' q =
         (if \<exists>r \<in> set removed. below (content @ release_path s r) q then None else node_at h q))"
proof -
  note ps = crates_okD(2)[OF assms(1)]
  define cs where "cs = releases_on_disk L content s h"
  note facts = releases_on_disk_facts[OF ps assms(3), where content = content and s = s, folded cs_def]
  define h1 where "h1 = next_tick (next_tick (next_tick h))"
  have "healthy h1" using assms(2) by (simp add: h1_def)
  have cong: "listed_release (cr_uuid L) h1 = listed_release (cr_uuid L) h"
    by (rule listed_release_cong) (simp add: h1_def)
  have ents: "dir_entries (next_tick g) d = dir_entries g d" for g d by (simp add: dir_entries_def next_tick_def)
  obtain h2 where h2: "release_candidates (cr_uuid L) (map fst (dir_entries h (content @ releases_path s))) h1 = (Ok cs, h2)"
      "tree h2 = tree h1" "env h2 = env h1"
    using release_candidates_healthy[OF \<open>healthy h1\<close>, of "cr_uuid L" "map fst (dir_entries h (content @ releases_path s))"]
    by (auto simp: cong cs_def releases_on_disk_def)
  have n2: "node_at h2 = node_at h" using h2(2) by (simp add: fun_eq_iff node_at_def h1_def next_tick_def)
  have "healthy h2" using \<open>healthy h1\<close> h2(3) healthy_env by blast
  obtain h3 where h3: "remove_beyond content s active retain 0 (newest_first cs) h2 = (excess retain active cs, h3)"
      "\<And>q. node_at h3 q = (if \<exists>r \<in> set (map fst (drop retain (newest_first cs))) - {active}. below (release_dir content s r) q
          then None else node_at h q)"
    using remove_beyond_healthy[OF \<open>healthy h2\<close> assms(4), of "newest_first cs" content active retain 0]
      facts assms(7) n2 by (auto simp: newest_first_facts(3) release_dir_path[OF assms(4)] excess_def cs_def[symmetric])
  have run: "prune_old_releases L content s active retain h = (Ok (excess retain active cs), h3)"
    using assms(2,5,6) h2(1) h3(1)
    by (simp add: prune_old_releases_def ManagedRoot_open_def open_managed_dir_def h1_def ents)
  have in_excess: "set (excess retain active cs) = set (map fst (drop retain (newest_first cs))) - {active}"
    by (auto simp: excess_def)
  have "uuid_wf r" if "r \<in> set (excess retain active cs)" for r
    using that facts(2) in_set_dropD[of _ retain "newest_first cs"] by (auto simp: excess_def)
  then have "node_at h3 q = (if \<exists>r \<in> set (excess retain active cs). below (content @ release_path s r) q
      then None else node_at h q)" for q
    using h3(2)[of q] release_dir_path[OF assms(4)] unfolding in_excess by simp
  then show ?thesis
    using run excess_listed[of retain active cs] excess_exact[OF facts(1)] unfolding cs_def[symmetric] by blast
qed

definition example_retention_host :: host where
  "example_retention_host =
     (example_host [([''srv''], Dir), ([''srv'', ''sites'', example_id, ''releases''], Dir),
        ([''srv'', ''sites'', example_id, ''releases'', example_id], Dir),
        ([''srv'', ''sites'', example_id, ''releases'', example_id, ''index.php''], File []),
        ([''srv'', ''sites'', example_id, ''releases'', example_id2], Dir)])
     \<lparr>mtime := (\<lambda>p. if last p = example_id2 then Some 9 else Some 3)\<rparr>"

lemma example_retention:
  "releases_on_disk (table_crates []) example_content example_id example_retention_host
     = [(example_id, 3), (example_id2, 9)]"
  "fst (prune_old_releases (table_crates []) example_content example_id example_id2 1 example_retention_host)
     = Ok [example_id]"
  "host_wf example_retention_host"
  by code_simp+

theorem retention_keeps_newest_witness:
  "node_at (snd (prune_old_releases (table_crates []) example_content example_id example_id2 1 example_retention_host))
     [''srv'', ''sites'', example_id, ''releases'', example_id, ''index.php''] = None"
proof -
  note paths = release_paths[OF example_id_wf example_id_wf] release_paths(4)[OF example_id_wf example_id2_wf]
  have "healthy example_retention_host"
    by (simp add: healthy_def example_retention_host_def example_host_def)
  moreover have "node_at example_retention_host example_content = Some Dir"
    "node_at example_retention_host (example_content @ releases_path example_id) = Some Dir"
    "\<forall>c \<in> set (releases_on_disk (table_crates []) example_content example_id example_retention_host).
       node_at example_retention_host (example_content @ release_path example_id (fst c)) = Some Dir"
    unfolding example_retention(1)
    by (simp_all add: paths node_at_def example_retention_host_def example_host_def example_content_def)
  ultimately obtain removed h' where
    "prune_old_releases (table_crates []) example_content example_id example_id2 1 example_retention_host = (Ok removed, h')"
    "set removed \<subseteq> fst ` set (releases_on_disk (table_crates []) example_content example_id example_retention_host)"
    "\<forall>q. node_at h' q = (if \<exists>r \<in> set removed. below (example_content @ release_path example_id r) q then None
       else node_at example_retention_host q)"
    using retention_keeps_newest[of "table_crates []" example_retention_host example_id example_content example_id2 1]
      example_retention(3) by auto
  with example_retention(2) show ?thesis
    by (simp add: paths below_def path_starts_with_def example_content_def)
qed

end
