(* ===== verification/Process.thy ===== *)
theory Process
  imports HostFs Protocol
begin

text \<open>
  Subprocesses (\<open>src/src/process.rs\<close>): the request and the command built from it, bounded capture
  of a pipe, the supervision loop with its cancellation and timeout, and what is reported of the
  outcome.

  The programs the engine starts are a parameter (\<open>programs\<close>): for a command and the host it
  finds, a \<open>child\<close> and the host it leaves. A child is what the operating system shows of it: what
  each attempt to start it returns, which pipes exist, what the reads of its pipes return, and at
  the \<open>n\<close>-th poll whether cancellation was requested, how far the clock is ahead of the sleeps of
  the loop and what \<open>try_wait\<close>, \<open>kill\<close> and \<open>wait\<close> answer. The reads of a pipe are a finite list: a
  pipe that some descendant of the child keeps open for ever is outside the model.
\<close>

section \<open>Requests\<close>

record ProcessLimits =
  timeout_ms :: nat
  max_stdout_bytes :: nat
  max_stderr_bytes :: nat

definition ProcessLimits_default :: ProcessLimits where
  "ProcessLimits_default = \<lparr> timeout_ms = 30 * 1000, max_stdout_bytes = 64 * 1024, max_stderr_bytes = 64 * 1024 \<rparr>"

record ProcessRequest =
  pr_program :: string
  pr_args :: "string list"
  pr_current_dir :: "string option"
  pr_env_overrides :: "(string \<times> string) list"
  pr_run_as :: "(u32 \<times> u32) option"

definition ProcessRequest_new :: "string \<Rightarrow> ProcessRequest" where
  "ProcessRequest_new program = \<lparr> pr_program = program, pr_args = [], pr_current_dir = None,
     pr_env_overrides = [], pr_run_as = None \<rparr>"

definition with_args :: "string list \<Rightarrow> ProcessRequest \<Rightarrow> ProcessRequest" where
  "with_args args r = r\<lparr>pr_args := pr_args r @ args\<rparr>"

definition with_current_dir :: "string \<Rightarrow> ProcessRequest \<Rightarrow> ProcessRequest" where
  "with_current_dir dir r = r\<lparr>pr_current_dir := Some dir\<rparr>"

definition with_env :: "string \<Rightarrow> string \<Rightarrow> ProcessRequest \<Rightarrow> ProcessRequest" where
  "with_env key value r = r\<lparr>pr_env_overrides := pr_env_overrides r @ [(key, value)]\<rparr>"

definition run_as :: "u32 \<Rightarrow> u32 \<Rightarrow> ProcessRequest \<Rightarrow> ProcessRequest" where
  "run_as uid gid r = r\<lparr>pr_run_as := Some (uid, gid)\<rparr>"

section \<open>Outcomes\<close>

datatype ProcessTermination = Exited "int option" bool | TimedOut | TermCancelled

record CapturedOutput =
  co_bytes :: bytes
  co_truncated :: bool

record ProcessOutput =
  po_termination :: ProcessTermination
  po_stdout :: CapturedOutput
  po_stderr :: CapturedOutput

datatype ProcessRunError = Spawn | MissingPipe string | Wait | Capture | CaptureThreadPanicked

definition error_code :: "ProcessTermination \<Rightarrow> ErrorCode option" where
  "error_code t = (case t of
     Exited _ success \<Rightarrow> if success then None else Some SubprocessFailed
   | TimedOut \<Rightarrow> Some Timeout
   | TermCancelled \<Rightarrow> Some Cancelled)"

definition spawn_error_code :: "ProcessRunError \<Rightarrow> ErrorCode" where
  "spawn_error_code e = (case e of Spawn \<Rightarrow> DependencyUnavailable | _ \<Rightarrow> Internal)"

definition exited_ok :: "ProcessOutput \<Rightarrow> bool" where
  "exited_ok out = (case po_termination out of Exited _ success \<Rightarrow> success | _ \<Rightarrow> False)"

record SubprocessDiagnostics =
  sd_program :: string
  sd_exit_code :: "int option"
  sd_timed_out :: bool
  sd_cancelled :: bool
  sd_stdout_truncated :: bool
  sd_stderr_truncated :: bool

definition diagnostics_from_output :: "string \<Rightarrow> ProcessOutput \<Rightarrow> SubprocessDiagnostics" where
  "diagnostics_from_output program out =
     (let (exit_code, timed_out, cancelled) = (case po_termination out of
            Exited code _ \<Rightarrow> (code, False, False)
          | TimedOut \<Rightarrow> (None, True, False)
          | TermCancelled \<Rightarrow> (None, False, True))
      in \<lparr> sd_program = program, sd_exit_code = exit_code, sd_timed_out = timed_out,
           sd_cancelled = cancelled, sd_stdout_truncated = co_truncated (po_stdout out),
           sd_stderr_truncated = co_truncated (po_stderr out) \<rparr>)"

section \<open>Capturing a pipe\<close>

text \<open>The reads of a pipe in order; an empty read, like the end of the list, is end of file.\<close>

fun capture_loop :: "nat \<Rightarrow> (io_error + bytes) list \<Rightarrow> bytes \<Rightarrow> bool \<Rightarrow> io_error + CapturedOutput" where
  "capture_loop limit [] b truncated = Ok \<lparr> co_bytes = b, co_truncated = truncated \<rparr>"
| "capture_loop limit (Inl e # reads) b truncated = Err e"
| "capture_loop limit (Inr chunk # reads) b truncated =
     (if chunk = [] then Ok \<lparr> co_bytes = b, co_truncated = truncated \<rparr>
      else let remaining = limit - length b; retained = min remaining (length chunk)
           in capture_loop limit reads (b @ take retained chunk) (truncated \<or> retained < length chunk))"

definition capture :: "nat \<Rightarrow> (io_error + bytes) list \<Rightarrow> io_error + CapturedOutput" where
  "capture limit reads = capture_loop limit reads [] False"

definition join_capture :: "(io_error + CapturedOutput) option \<Rightarrow> ProcessRunError + CapturedOutput" where
  "join_capture result = (case result of
     None \<Rightarrow> Err CaptureThreadPanicked
   | Some r \<Rightarrow> map_err (\<lambda>_. Capture) r)"

section \<open>Commands\<close>

datatype stdio = Inherited | Null | Piped | FromFile path | FromChild

record command =
  cmd_program :: string
  cmd_args :: "string list"
  cmd_dir :: "string option"
  cmd_env :: "(string \<times> string) list"
  cmd_user :: "(u32 \<times> u32) option"
  cmd_stdin :: stdio
  cmd_stdout :: stdio
  cmd_stderr :: stdio

text \<open>Setting a variable twice keeps the later value, as \<open>Command::env\<close> does.\<close>

definition build_command :: "ProcessRequest \<Rightarrow> command" where
  "build_command r =
     \<lparr> cmd_program = pr_program r, cmd_args = pr_args r, cmd_dir = pr_current_dir r,
       cmd_env = fold (\<lambda>(k, v). AList.update k v) (pr_env_overrides r) [],
       cmd_user = pr_run_as r, cmd_stdin = Inherited, cmd_stdout = Inherited, cmd_stderr = Inherited \<rparr>"

section \<open>Starting and supervising a child\<close>

datatype spawn_result = Spawned | TextBusy | SpawnFailed

record child =
  ch_spawn :: "nat \<Rightarrow> spawn_result"
  ch_stdin_pipe :: bool
  ch_stdout_pipe :: bool
  ch_stderr_pipe :: bool
  ch_cancelled :: "nat \<Rightarrow> bool"
  ch_cancelled_again :: "nat \<Rightarrow> bool"
  ch_lag_ms :: "nat \<Rightarrow> nat"
  ch_try_wait :: "nat \<Rightarrow> io_error + (int option \<times> bool) option"
  ch_kill :: "nat \<Rightarrow> io_error + unit"
  ch_wait :: "nat \<Rightarrow> io_error + unit"
  ch_stdout :: "(io_error + bytes) list option"
  ch_stderr :: "(io_error + bytes) list option"
  ch_stdin_write :: "(io_error + unit) option"

type_synonym programs = "command \<Rightarrow> host \<Rightarrow> child \<times> host"

definition SPAWN_ATTEMPTS :: nat where "SPAWN_ATTEMPTS = 5"

function spawn_retrying_busy :: "child \<Rightarrow> nat \<Rightarrow> ProcessRunError + unit" where
  "spawn_retrying_busy ch attempt =
     (case ch_spawn ch attempt of
        Spawned \<Rightarrow> Ok ()
      | SpawnFailed \<Rightarrow> Err Spawn
      | TextBusy \<Rightarrow> if attempt < SPAWN_ATTEMPTS then spawn_retrying_busy ch (Suc attempt) else Err Spawn)"
  by pat_completeness auto
termination
  by (relation "measure (\<lambda>(ch, attempt). SPAWN_ATTEMPTS - attempt)") auto

declare spawn_retrying_busy.simps [simp del]

text \<open>
  \<open>started.elapsed()\<close> at poll \<open>n\<close>: the loop has slept \<open>n\<close> times for at least ten milliseconds, and
  \<open>ch_lag_ms\<close> is whatever else has passed.
\<close>

definition POLL_MS :: nat where "POLL_MS = 10"

definition elapsed_ms :: "child \<Rightarrow> nat \<Rightarrow> nat" where
  "elapsed_ms ch n = POLL_MS * n + ch_lag_ms ch n"

definition kill_and_wait :: "child \<Rightarrow> nat \<Rightarrow> ProcessTermination \<Rightarrow> ProcessRunError + ProcessTermination" where
  "kill_and_wait ch n t =
     bind_ok (map_err (\<lambda>_. Wait) (ch_kill ch n)) (\<lambda>_.
     bind_ok (map_err (\<lambda>_. Wait) (ch_wait ch n)) (\<lambda>_. Ok t))"

lemma not_timed_out_early: "elapsed_ms ch n < t \<Longrightarrow> POLL_MS * n < t"
  by (simp add: elapsed_ms_def)

function supervise :: "ProcessLimits \<Rightarrow> child \<Rightarrow> nat \<Rightarrow> ProcessRunError + ProcessTermination" where
  "supervise limits ch n =
     (if ch_cancelled ch n then kill_and_wait ch n TermCancelled
      else if elapsed_ms ch n \<ge> timeout_ms limits then kill_and_wait ch n TimedOut
      else (case ch_try_wait ch n of
        Inl _ \<Rightarrow> Err Wait
      | Inr (Some (code, success)) \<Rightarrow> Ok (Exited code success)
      | Inr None \<Rightarrow> supervise limits ch (Suc n)))"
  by pat_completeness auto
termination
proof (relation "measure (\<lambda>(limits, ch, n). timeout_ms limits - POLL_MS * n)", goal_cases)
  case (2 limits ch n)
  then show ?case using not_timed_out_early[of ch n "timeout_ms limits"] by (simp add: POLL_MS_def)
qed simp

declare supervise.simps [simp del]

definition join_writer :: "(io_error + unit) option \<Rightarrow> ProcessRunError + unit" where
  "join_writer result = (case result of
     None \<Rightarrow> Err CaptureThreadPanicked
   | Some r \<Rightarrow> map_err (\<lambda>_. Capture) r)"

definition spawn_and_supervise :: "ProcessLimits \<Rightarrow> child \<Rightarrow> ProcessRunError + ProcessOutput" where
  "spawn_and_supervise limits ch =
     bind_ok (spawn_retrying_busy ch 1) (\<lambda>_.
     if \<not> ch_stdout_pipe ch then Err (MissingPipe ''stdout'')
     else if \<not> ch_stderr_pipe ch then Err (MissingPipe ''stderr'')
     else
       bind_ok (supervise limits ch 0) (\<lambda>termination.
       bind_ok (join_capture (map_option (capture (max_stdout_bytes limits)) (ch_stdout ch))) (\<lambda>out.
       bind_ok (join_capture (map_option (capture (max_stderr_bytes limits)) (ch_stderr ch))) (\<lambda>err.
         Ok \<lparr> po_termination = termination, po_stdout = out, po_stderr = err \<rparr>))))"

section \<open>The ways to run a program\<close>

definition run :: "programs \<Rightarrow> ProcessRequest \<Rightarrow> ProcessLimits \<Rightarrow> host \<Rightarrow> (ProcessRunError + ProcessOutput) \<times> host" where
  "run P request limits h =
     (let (ch, h') = P ((build_command request)\<lparr>cmd_stdin := Null, cmd_stdout := Piped, cmd_stderr := Piped\<rparr>) h
      in (spawn_and_supervise limits ch, h'))"

text \<open>A file handed to a child is named by the path it was opened at.\<close>

definition file_open :: "path \<Rightarrow> host \<Rightarrow> path io" where
  "file_open p h = io_call h (\<lambda>h.
     case node_at h p of
       None \<Rightarrow> (Err IoNotFound, h)
     | Some (Symlink _) \<Rightarrow> (case realpath h p of None \<Rightarrow> (Err IoNotFound, h) | Some q \<Rightarrow> (Ok q, h))
     | Some _ \<Rightarrow> (Ok p, h))"

definition run_with_stdin_handle ::
  "programs \<Rightarrow> ProcessRequest \<Rightarrow> path \<Rightarrow> ProcessLimits \<Rightarrow> host \<Rightarrow> (ProcessRunError + ProcessOutput) \<times> host" where
  "run_with_stdin_handle P request file limits h =
     (let (ch, h') = P ((build_command request)\<lparr>cmd_stdin := FromFile file, cmd_stdout := Piped, cmd_stderr := Piped\<rparr>) h
      in (spawn_and_supervise limits ch, h'))"

definition run_with_stdin_file ::
  "programs \<Rightarrow> ProcessRequest \<Rightarrow> path \<Rightarrow> ProcessLimits \<Rightarrow> host \<Rightarrow> (ProcessRunError + ProcessOutput) \<times> host" where
  "run_with_stdin_file P request stdin_path limits h =
     try_io (file_open stdin_path h) (\<lambda>_. Spawn) (\<lambda>file h. run_with_stdin_handle P request file limits h)"

definition run_with_files_impl ::
  "programs \<Rightarrow> ProcessRequest \<Rightarrow> stdio \<Rightarrow> path \<Rightarrow> ProcessLimits \<Rightarrow> host \<Rightarrow> (ProcessRunError + ProcessOutput) \<times> host" where
  "run_with_files_impl P request stdin stdout_file limits h =
     (let (ch, h') = P ((build_command request)\<lparr>cmd_stdin := stdin, cmd_stdout := FromFile stdout_file, cmd_stderr := Piped\<rparr>) h
      in (bind_ok (spawn_retrying_busy ch 1) (\<lambda>_.
          if \<not> ch_stderr_pipe ch then Err (MissingPipe ''stderr'')
          else
            bind_ok (supervise limits ch 0) (\<lambda>termination.
            bind_ok (join_capture (map_option (capture (max_stderr_bytes limits)) (ch_stderr ch))) (\<lambda>err.
              Ok \<lparr> po_termination = termination,
                   po_stdout = \<lparr> co_bytes = [], co_truncated = False \<rparr>, po_stderr = err \<rparr>))), h'))"

definition run_with_stdout_file ::
  "programs \<Rightarrow> ProcessRequest \<Rightarrow> path \<Rightarrow> ProcessLimits \<Rightarrow> host \<Rightarrow> (ProcessRunError + ProcessOutput) \<times> host" where
  "run_with_stdout_file P request stdout_file limits h = run_with_files_impl P request Null stdout_file limits h"

definition run_with_files ::
  "programs \<Rightarrow> ProcessRequest \<Rightarrow> path \<Rightarrow> path \<Rightarrow> ProcessLimits \<Rightarrow> host \<Rightarrow> (ProcessRunError + ProcessOutput) \<times> host" where
  "run_with_files P request stdin_file stdout_file limits h =
     run_with_files_impl P request (FromFile stdin_file) stdout_file limits h"

text \<open>
  The input of \<open>run_with_stdin_bytes\<close> is written by a thread of its own; \<open>ch_stdin_write\<close> is how
  that write ends for the given input.
\<close>

definition run_with_stdin_bytes ::
  "(bytes \<Rightarrow> programs) \<Rightarrow> ProcessRequest \<Rightarrow> bytes \<Rightarrow> ProcessLimits \<Rightarrow> host \<Rightarrow> (ProcessRunError + ProcessOutput) \<times> host" where
  "run_with_stdin_bytes P request input limits h =
     (let (ch, h') = P input ((build_command request)\<lparr>cmd_stdin := Piped, cmd_stdout := Piped, cmd_stderr := Piped\<rparr>) h
      in (bind_ok (spawn_retrying_busy ch 1) (\<lambda>_.
          if \<not> ch_stdin_pipe ch then Err (MissingPipe ''stdin'')
          else if \<not> ch_stdout_pipe ch then Err (MissingPipe ''stdout'')
          else if \<not> ch_stderr_pipe ch then Err (MissingPipe ''stderr'')
          else
            bind_ok (supervise limits ch 0) (\<lambda>termination.
            bind_ok (join_writer (ch_stdin_write ch)) (\<lambda>_.
            bind_ok (join_capture (map_option (capture (max_stdout_bytes limits)) (ch_stdout ch))) (\<lambda>out.
            bind_ok (join_capture (map_option (capture (max_stderr_bytes limits)) (ch_stderr ch))) (\<lambda>err.
              Ok \<lparr> po_termination = termination, po_stdout = out, po_stderr = err \<rparr>))))), h'))"

text \<open>
  The wait for the upstream half of a pipeline asks \<open>try_wait\<close> first, and reads the cancellation
  token a second time after the kill.
\<close>

function await_upstream :: "ProcessLimits \<Rightarrow> child \<Rightarrow> nat \<Rightarrow> ProcessRunError + ProcessTermination" where
  "await_upstream limits up n =
     (case ch_try_wait up n of
        Inl _ \<Rightarrow> Err Wait
      | Inr (Some (code, success)) \<Rightarrow> Ok (Exited code success)
      | Inr None \<Rightarrow>
          if elapsed_ms up n \<ge> timeout_ms limits \<or> ch_cancelled up n
          then kill_and_wait up n (if ch_cancelled_again up n then TermCancelled else TimedOut)
          else await_upstream limits up (Suc n))"
  by pat_completeness auto
termination
proof (relation "measure (\<lambda>(limits, ch, n). timeout_ms limits - POLL_MS * n)", goal_cases)
  case (2 limits ch n)
  then show ?case using not_timed_out_early[of ch n "timeout_ms limits"] by (simp add: POLL_MS_def)
qed simp

declare await_upstream.simps [simp del]

definition run_piped ::
  "programs \<Rightarrow> ProcessRequest \<Rightarrow> ProcessRequest \<Rightarrow> ProcessLimits \<Rightarrow> host
     \<Rightarrow> (ProcessRunError + ProcessTermination \<times> ProcessOutput) \<times> host" where
  "run_piped P upstream downstream limits h =
     (let (up, h1) = P ((build_command upstream)\<lparr>cmd_stdin := Null, cmd_stdout := Piped\<rparr>) h
      in case spawn_retrying_busy up 1 of
           Inl e \<Rightarrow> (Err e, h1)
         | Inr _ \<Rightarrow>
             if \<not> ch_stdout_pipe up then (Err (MissingPipe ''stdout''), h1)
             else
               let (down, h2) = P ((build_command downstream)\<lparr>cmd_stdin := FromChild, cmd_stdout := Piped, cmd_stderr := Piped\<rparr>) h1
               in (bind_ok (spawn_and_supervise limits down) (\<lambda>out.
                   bind_ok (await_upstream limits up 0) (\<lambda>t. Ok (t, out))), h2))"

section \<open>What a capture keeps\<close>

text \<open>What the pipe delivered: everything up to the end of file, or the error met before it.\<close>

fun delivered :: "(io_error + bytes) list \<Rightarrow> io_error + bytes" where
  "delivered [] = Ok []"
| "delivered (Inl e # reads) = Err e"
| "delivered (Inr chunk # reads) =
     (if chunk = [] then Ok [] else map_ok (\<lambda>rest. chunk @ rest) (delivered reads))"

lemma capture_loop_delivered:
  "length b \<le> limit \<Longrightarrow> capture_loop limit reads b t =
     map_ok (\<lambda>d. \<lparr> co_bytes = b @ take (limit - length b) d,
                   co_truncated = (t \<or> limit - length b < length d) \<rparr>) (delivered reads)"
proof (induction limit reads b t rule: capture_loop.induct)
  case (3 limit chunk reads b t)
  show ?case
  proof (cases "chunk = []")
    case False
    let ?k = "min (limit - length b) (length chunk)"
    have len: "length (b @ take ?k chunk) \<le> limit" using 3(2) by simp
    show ?thesis
    proof (cases "delivered reads")
      case (Inr d)
      have "take ?k chunk @ take (limit - length b - ?k) d = take (limit - length b) (chunk @ d)"
        by (simp add: min_def)
      moreover have "?k < length chunk \<or> limit - length b - ?k < length d
          \<longleftrightarrow> limit - length b < length chunk + length d"
        using False by (auto simp: min_def simp flip: length_greater_0_conv)
      ultimately show ?thesis
        using 3(1)[OF False refl refl len] False Inr by (simp add: Let_def)
    qed (use 3(1)[OF False refl refl len] False in \<open>simp add: Let_def\<close>)
  qed simp
qed simp_all

text \<open>
  (C31) A capture keeps exactly the first \<open>limit\<close> bytes of what the pipe delivered, however the
  delivery was cut into reads, and marks the output as truncated exactly when more was delivered;
  it fails exactly when a read fails before the end of file. The buffer never exceeds the limit.
\<close>

theorem capture_is_bounded_prefix:
  "capture limit reads =
     map_ok (\<lambda>d. \<lparr> co_bytes = take limit d, co_truncated = (limit < length d) \<rparr>) (delivered reads)
   \<and> (case capture limit reads of Inl _ \<Rightarrow> True | Inr out \<Rightarrow> length (co_bytes out) \<le> limit)"
proof -
  have "capture limit reads =
     map_ok (\<lambda>d. \<lparr> co_bytes = take limit d, co_truncated = (limit < length d) \<rparr>) (delivered reads)"
    using capture_loop_delivered[of "[]" limit reads False] by (simp add: capture_def)
  then show ?thesis by (cases "delivered reads") simp_all
qed

section \<open>How supervision ends\<close>

text \<open>The polls at which the loop stops, and what it returns there.\<close>

definition stops_at :: "ProcessLimits \<Rightarrow> child \<Rightarrow> nat \<Rightarrow> bool" where
  "stops_at limits ch n =
     (ch_cancelled ch n \<or> timeout_ms limits \<le> elapsed_ms ch n \<or> ch_try_wait ch n \<noteq> Ok None)"

definition verdict_at :: "ProcessLimits \<Rightarrow> child \<Rightarrow> nat \<Rightarrow> ProcessRunError + ProcessTermination" where
  "verdict_at limits ch n =
     (if ch_cancelled ch n then kill_and_wait ch n TermCancelled
      else if timeout_ms limits \<le> elapsed_ms ch n then kill_and_wait ch n TimedOut
      else (case ch_try_wait ch n of
        Inr (Some (code, success)) \<Rightarrow> Ok (Exited code success)
      | _ \<Rightarrow> Err Wait))"

lemma supervise_step:
  "supervise limits ch n =
     (if stops_at limits ch n then verdict_at limits ch n else supervise limits ch (Suc n))"
  by (subst supervise.simps) (auto simp: stops_at_def verdict_at_def split: sum.splits option.splits)

lemma supervise_finds_first_stop:
  "\<exists>m \<ge> n. (\<forall>k. n \<le> k \<and> k < m \<longrightarrow> \<not> stops_at limits ch k) \<and> stops_at limits ch m
     \<and> supervise limits ch n = verdict_at limits ch m"
proof (induction "timeout_ms limits - POLL_MS * n" arbitrary: n rule: less_induct)
  case less
  show ?case
  proof (cases "stops_at limits ch n")
    case True
    then show ?thesis using supervise_step[of limits ch n] by (intro exI[of _ n]) auto
  next
    case False
    then have "POLL_MS * n < timeout_ms limits"
      using not_timed_out_early[of ch n "timeout_ms limits"] by (simp add: stops_at_def)
    then have "timeout_ms limits - POLL_MS * Suc n < timeout_ms limits - POLL_MS * n"
      by (simp add: POLL_MS_def)
    from less[OF this] obtain m where m: "Suc n \<le> m" "\<And>k. Suc n \<le> k \<Longrightarrow> k < m \<Longrightarrow> \<not> stops_at limits ch k"
        "stops_at limits ch m" "supervise limits ch (Suc n) = verdict_at limits ch m" by auto
    have "\<not> stops_at limits ch k" if "n \<le> k" "k < m" for k
      using m(2)[of k] that False by (cases "k = n") auto
    with m False show ?thesis using supervise_step[of limits ch n] by (intro exI[of _ m]) auto
  qed
qed

lemma running_bounds_poll: "\<not> stops_at limits ch k \<Longrightarrow> POLL_MS * k < timeout_ms limits"
  using not_timed_out_early[of ch k "timeout_ms limits"] by (simp add: stops_at_def)

text \<open>
  (C32) Supervision always ends, within one polling interval of the timeout, at the first poll that
  sees a cancellation, the timeout or a change of the child, and reports cancellation before a
  timeout and a timeout before an exit. An exit status is reported only when neither the
  cancellation nor the timeout was seen at that poll or before.
\<close>

theorem supervision_ends:
  "\<exists>m. (m = 0 \<or> POLL_MS * (m - 1) < timeout_ms limits)
     \<and> (\<forall>k < m. \<not> stops_at limits ch k) \<and> stops_at limits ch m
     \<and> supervise limits ch 0 = verdict_at limits ch m
     \<and> (\<forall>code success. supervise limits ch 0 = Ok (Exited code success) \<longrightarrow>
          ch_try_wait ch m = Ok (Some (code, success))
          \<and> (\<forall>k \<le> m. \<not> ch_cancelled ch k \<and> elapsed_ms ch k < timeout_ms limits))"
proof -
  obtain m where m: "\<And>k. k < m \<Longrightarrow> \<not> stops_at limits ch k" "stops_at limits ch m"
      "supervise limits ch 0 = verdict_at limits ch m"
    using supervise_finds_first_stop[of 0 limits ch] by auto
  have "m = 0 \<or> POLL_MS * (m - 1) < timeout_ms limits"
    using m(1)[of "m - 1"] running_bounds_poll[of limits ch "m - 1"] by (cases m) auto
  moreover have "ch_try_wait ch m = Ok (Some (code, success))
      \<and> (\<forall>k \<le> m. \<not> ch_cancelled ch k \<and> elapsed_ms ch k < timeout_ms limits)"
    if exit: "supervise limits ch 0 = Ok (Exited code success)" for code success
  proof -
    have "verdict_at limits ch m = Ok (Exited code success)" using exit m(3) by simp
    then have at: "\<not> ch_cancelled ch m" "elapsed_ms ch m < timeout_ms limits"
        "ch_try_wait ch m = Ok (Some (code, success))"
      by (auto simp: verdict_at_def kill_and_wait_def bind_ok_Ok_iff split: if_splits sum.splits option.splits)
    have "\<not> ch_cancelled ch k \<and> elapsed_ms ch k < timeout_ms limits" if "k \<le> m" for k
      using at m(1)[of k] that by (cases "k = m") (auto simp: stops_at_def)
    with at show ?thesis by blast
  qed
  ultimately show ?thesis using m by (intro exI[of _ m]) auto
qed

text \<open>A child that exits with status 0 at the third poll.\<close>

definition example_child :: "(io_error + bytes) list \<Rightarrow> child" where
  "example_child reads =
     \<lparr> ch_spawn = (\<lambda>n. if n < 3 then TextBusy else Spawned), ch_stdin_pipe = True,
       ch_stdout_pipe = True, ch_stderr_pipe = True, ch_cancelled = (\<lambda>_. False),
       ch_cancelled_again = (\<lambda>_. False), ch_lag_ms = (\<lambda>n. n),
       ch_try_wait = (\<lambda>n. Ok (if n < 2 then None else Some (Some 0, True))),
       ch_kill = (\<lambda>_. Ok ()), ch_wait = (\<lambda>_. Ok ()), ch_stdout = Some reads, ch_stderr = Some [],
       ch_stdin_write = Some (Ok ()) \<rparr>"

lemma example_child_supervised:
  "supervise ProcessLimits_default (example_child reads) 0 = Ok (Exited (Some 0) True)"
proof -
  have go: "supervise ProcessLimits_default (example_child reads) n
      = supervise ProcessLimits_default (example_child reads) (Suc n)" if "n < 2" for n
    using that by (subst supervise.simps)
      (simp add: example_child_def ProcessLimits_default_def elapsed_ms_def POLL_MS_def)
  have "supervise ProcessLimits_default (example_child reads) 2 = Ok (Exited (Some 0) True)"
    by (subst supervise.simps)
      (simp add: example_child_def ProcessLimits_default_def elapsed_ms_def POLL_MS_def)
  then show ?thesis using go[of 0] go[of "Suc 0"] by (simp add: numeral_2_eq_2)
qed

theorem supervision_ends_witness:
  "\<exists>m. ch_try_wait (example_child []) m = Ok (Some (Some 0, True))
     \<and> (\<forall>k \<le> m. elapsed_ms (example_child []) k < timeout_ms ProcessLimits_default)"
  using supervision_ends[of ProcessLimits_default "example_child []"] example_child_supervised[of "[]"]
  by blast

section \<open>Starting a busy program\<close>

lemma spawn_from:
  "n \<le> SPAWN_ATTEMPTS \<Longrightarrow> spawn_retrying_busy ch n = Ok () \<longleftrightarrow>
     (\<exists>m \<in> {n..SPAWN_ATTEMPTS}. ch_spawn ch m = Spawned \<and> (\<forall>k \<in> {n..<m}. ch_spawn ch k = TextBusy))"
proof (induction ch n rule: spawn_retrying_busy.induct)
  case (1 ch n)
  note unfold = spawn_retrying_busy.simps[of ch n]
  show ?case
  proof (cases "ch_spawn ch n")
    case Spawned
    with 1(2) unfold show ?thesis by (auto intro!: bexI[of _ n])
  next
    case TextBusy
    have first: "{n..<m} = insert n {Suc n..<m}" if "n < m" for m using that by auto
    show ?thesis
    proof (cases "n < SPAWN_ATTEMPTS")
      case True
      with TextBusy have "spawn_retrying_busy ch n = spawn_retrying_busy ch (Suc n)" using unfold by simp
      also have "\<dots> = Ok () \<longleftrightarrow> (\<exists>m \<in> {Suc n..SPAWN_ATTEMPTS}. ch_spawn ch m = Spawned
          \<and> (\<forall>k \<in> {Suc n..<m}. ch_spawn ch k = TextBusy))"
        using 1(1)[OF TextBusy True] True by simp
      also have "\<dots> \<longleftrightarrow> (\<exists>m \<in> {n..SPAWN_ATTEMPTS}. ch_spawn ch m = Spawned
          \<and> (\<forall>k \<in> {n..<m}. ch_spawn ch k = TextBusy))" (is "?L \<longleftrightarrow> ?R")
      proof
        assume ?L
        then obtain m where "m \<in> {Suc n..SPAWN_ATTEMPTS}" "ch_spawn ch m = Spawned"
          "\<forall>k \<in> {Suc n..<m}. ch_spawn ch k = TextBusy" by blast
        then show ?R using TextBusy first[of m] by (intro bexI[of _ m]) auto
      next
        assume ?R
        then obtain m where m: "m \<in> {n..SPAWN_ATTEMPTS}" "ch_spawn ch m = Spawned"
          "\<forall>k \<in> {n..<m}. ch_spawn ch k = TextBusy" by blast
        with TextBusy have "m \<noteq> n" by auto
        with m show ?L by (intro bexI[of _ m]) auto
      qed
      finally show ?thesis .
    next
      case False
      with TextBusy 1(2) unfold show ?thesis by auto
    qed
  next
    case SpawnFailed
    have "\<exists>k \<in> {n..<m}. ch_spawn ch k \<noteq> TextBusy" if "m \<in> {n..SPAWN_ATTEMPTS}" "ch_spawn ch m = Spawned" for m
      using that SpawnFailed by (intro bexI[of _ n]) (auto simp: le_less)
    moreover have "spawn_retrying_busy ch n = Err Spawn" using SpawnFailed unfold by simp
    ultimately show ?thesis by fastforce
  qed
qed

text \<open>
  A program is started exactly when one of the first five attempts succeeds and every attempt
  before it was refused because the file was busy; any other refusal ends the attempts at once,
  and every failure to start is reported as one.
\<close>

theorem spawn_retries_busy_only:
  "(spawn_retrying_busy ch 1 = Ok () \<longleftrightarrow>
     (\<exists>m \<in> {1..5}. ch_spawn ch m = Spawned \<and> (\<forall>k \<in> {1..<m}. ch_spawn ch k = TextBusy)))
   \<and> spawn_retrying_busy ch 1 \<in> {Ok (), Err Spawn}"
proof -
  have "spawn_retrying_busy ch n \<in> {Ok (), Err Spawn}" for n
    by (induction ch n rule: spawn_retrying_busy.induct)
      (subst spawn_retrying_busy.simps, auto split: spawn_result.splits)
  moreover have "(1::nat) \<le> SPAWN_ATTEMPTS" by (simp add: SPAWN_ATTEMPTS_def)
  ultimately show ?thesis using spawn_from[of 1 ch] unfolding SPAWN_ATTEMPTS_def by blast
qed

theorem spawn_retries_busy_only_witness:
  "spawn_retrying_busy (example_child []) 1 = Ok ()"
proof -
  have "\<exists>m \<in> {1..5}. ch_spawn (example_child []) m = Spawned
      \<and> (\<forall>k \<in> {1..<m}. ch_spawn (example_child []) k = TextBusy)"
    by (rule bexI[of _ 3]) (auto simp: example_child_def)
  then show ?thesis using spawn_retries_busy_only[of "example_child []"] by blast
qed

end
