(* ===== verification/EngineConfig.thy ===== *)
theory EngineConfig
  imports Process RustText TxState
begin

text \<open>
  The engine configuration and the site manifest (\<open>src/src/config.rs\<close>): reading an owner-checked
  file, the JSON schema of both documents, and the rules that keep the roots of the engine apart.
  File owner and mode bits come from the \<open>attributes\<close> argument.
\<close>

section \<open>Documents\<close>

definition CONFIG_SCHEMA_VERSION :: u32 where "CONFIG_SCHEMA_VERSION = 4"
definition MANIFEST_SCHEMA_VERSION :: u32 where "MANIFEST_SCHEMA_VERSION = 1"

datatype ConfigError =
    CfgInvalidJson | CfgUnsupportedSchema | CfgEmptyContentRoots | CfgInvalidPath
  | CfgOverlappingContentRoots | CfgPrivilegedRootOverlapsContent | CfgInvalidSiteId
  | CfgInvalidCredentialId | CfgSiteIdMismatch | CfgInvalidDomain | CfgInvalidSiteUser
  | CfgEmptyBranchPolicy | CfgInvalidPolicyValue | CfgInsecureOwner | CfgInsecureMode | CfgIo

record EngineConfig =
  content_roots :: "path list"
  state_root :: path
  credential_root :: path
  ingress_root :: path
  runtime_root :: path
  site_services_root :: path

record RepositoryPolicy =
  rp_url :: string
  rp_allowed_branches :: "string list"
  rp_credential_id :: SiteId

record SiteManifest =
  sm_site_id :: SiteId
  sm_domain :: string
  sm_content_root :: path
  sm_site_user :: string
  sm_repository :: RepositoryPolicy

record RawEngineConfig =
  raw_schema_version :: u32
  raw_content_roots :: "string list"
  raw_state_root :: string
  raw_credential_root :: string
  raw_ingress_root :: string
  raw_runtime_root :: string
  raw_site_services_root :: string

record RawRepositoryPolicy =
  rrp_url :: string
  rrp_allowed_branches :: "string list"
  rrp_credential_id :: string

record RawSiteManifest =
  rsm_schema_version :: u32
  rsm_site_id :: string
  rsm_domain :: string
  rsm_content_root :: string
  rsm_site_user :: string
  rsm_repository :: RawRepositoryPolicy

fun all_some :: "'a option list \<Rightarrow> 'a list option" where
  "all_some [] = Some []"
| "all_some (None # xs) = None"
| "all_some (Some x # xs) = map_option (Cons x) (all_some xs)"

fun as_strings :: "json \<Rightarrow> string list option" where
  "as_strings (JArr vs) = all_some (map as_str vs)"
| "as_strings _ = None"

definition RawEngineConfig_of_json :: "json \<Rightarrow> RawEngineConfig option" where
  "RawEngineConfig_of_json v = Option.bind (as_obj v) (\<lambda>kvs.
     if \<not> only_fields [''schemaVersion'', ''contentRoots'', ''stateRoot'', ''credentialRoot'',
          ''ingressRoot'', ''runtimeRoot'', ''siteServicesRoot''] kvs then None
     else Option.bind (req as_u32 (field_of ''schemaVersion'' kvs)) (\<lambda>version.
     Option.bind (req as_strings (field_of ''contentRoots'' kvs)) (\<lambda>contents.
     Option.bind (req as_str (field_of ''stateRoot'' kvs)) (\<lambda>st.
     Option.bind (req as_str (field_of ''credentialRoot'' kvs)) (\<lambda>cred.
     Option.bind (req as_str (field_of ''ingressRoot'' kvs)) (\<lambda>ingress.
     Option.bind (req as_str (field_of ''runtimeRoot'' kvs)) (\<lambda>runtime.
     Option.bind (req as_str (field_of ''siteServicesRoot'' kvs)) (\<lambda>services.
       Some \<lparr> raw_schema_version = version, raw_content_roots = contents, raw_state_root = st,
              raw_credential_root = cred, raw_ingress_root = ingress, raw_runtime_root = runtime,
              raw_site_services_root = services \<rparr>))))))))"

definition RawRepositoryPolicy_of_json :: "json \<Rightarrow> RawRepositoryPolicy option" where
  "RawRepositoryPolicy_of_json v = Option.bind (as_obj v) (\<lambda>kvs.
     if \<not> only_fields [''url'', ''allowedBranches'', ''credentialId''] kvs then None
     else Option.bind (req as_str (field_of ''url'' kvs)) (\<lambda>url.
     Option.bind (req as_strings (field_of ''allowedBranches'' kvs)) (\<lambda>branches.
     Option.bind (req as_str (field_of ''credentialId'' kvs)) (\<lambda>cred.
       Some \<lparr> rrp_url = url, rrp_allowed_branches = branches, rrp_credential_id = cred \<rparr>))))"

definition RawSiteManifest_of_json :: "json \<Rightarrow> RawSiteManifest option" where
  "RawSiteManifest_of_json v = Option.bind (as_obj v) (\<lambda>kvs.
     if \<not> only_fields [''schemaVersion'', ''siteId'', ''domain'', ''contentRoot'', ''siteUser'',
          ''repository''] kvs then None
     else Option.bind (req as_u32 (field_of ''schemaVersion'' kvs)) (\<lambda>version.
     Option.bind (req as_str (field_of ''siteId'' kvs)) (\<lambda>site.
     Option.bind (req as_str (field_of ''domain'' kvs)) (\<lambda>domain.
     Option.bind (req as_str (field_of ''contentRoot'' kvs)) (\<lambda>content.
     Option.bind (req as_str (field_of ''siteUser'' kvs)) (\<lambda>user.
     Option.bind (req RawRepositoryPolicy_of_json (field_of ''repository'' kvs)) (\<lambda>repo.
       Some \<lparr> rsm_schema_version = version, rsm_site_id = site, rsm_domain = domain,
              rsm_content_root = content, rsm_site_user = user, rsm_repository = repo \<rparr>)))))))"

section \<open>Validation\<close>

definition roots_overlap :: "path \<Rightarrow> path \<Rightarrow> bool" where
  "roots_overlap left right = (path_starts_with left right \<or> path_starts_with right left)"

definition validate_domain :: "string \<Rightarrow> ConfigError + unit" where
  "validate_domain value = map_err (\<lambda>_. CfgInvalidDomain) (map_ok (\<lambda>_. ()) (Domain_parse value))"

definition site_user_byte :: "nat \<times> char \<Rightarrow> bool" where
  "site_user_byte ic = (case ic of (index, byte) \<Rightarrow>
     is_ascii_lowercase byte \<or> is_ascii_digit byte
     \<or> (index > 0 \<and> (byte = CHR ''_'' \<or> byte = CHR ''-'')))"

definition validate_site_user :: "string \<Rightarrow> ConfigError + unit" where
  "validate_site_user value =
     (if value = [] \<or> length value > 32
         \<or> \<not> list_all site_user_byte (zip [0..<length value] value)
      then Err CfgInvalidSiteUser else Ok ())"

definition validate_bounded_text :: "string \<Rightarrow> nat \<Rightarrow> ConfigError + unit" where
  "validate_bounded_text value limit =
     (if value = [] \<or> length value > limit \<or> has_control value then Err CfgInvalidPolicyValue else Ok ())"

text \<open>\<open>iter().map(parse).collect::<Result<Vec<_>, _>>()\<close>: the first error wins.\<close>

fun collect_ok :: "('e + 'a) list \<Rightarrow> 'e + 'a list" where
  "collect_ok [] = Ok []"
| "collect_ok (r # rs) = bind_ok r (\<lambda>x. map_ok (Cons x) (collect_ok rs))"

fun check_each :: "('a \<Rightarrow> 'e + unit) \<Rightarrow> 'a list \<Rightarrow> 'e + unit" where
  "check_each f [] = Ok ()"
| "check_each f (x # xs) = bind_ok (f x) (\<lambda>_. check_each f xs)"

text \<open>Some root overlaps an earlier one of the list, pairs of positions in \<open>skip\<close> left out.\<close>

definition overlaps_earlier :: "(nat \<times> nat) list \<Rightarrow> path list \<Rightarrow> bool" where
  "overlaps_earlier skip roots =
     list_ex (\<lambda>index. list_ex (\<lambda>previous.
        (previous, index) \<notin> set skip \<and> roots_overlap (roots ! previous) (roots ! index)) [0..<index])
       [0..<length roots]"

definition EngineConfig_from_json :: "json_text \<Rightarrow> bytes \<Rightarrow> ConfigError + EngineConfig" where
  "EngineConfig_from_json J text =
     (case from_slice J RawEngineConfig_of_json text of
        None \<Rightarrow> Err CfgInvalidJson
      | Some raw \<Rightarrow>
          if raw_schema_version raw \<noteq> CONFIG_SCHEMA_VERSION then Err CfgUnsupportedSchema
          else if raw_content_roots raw = [] then Err CfgEmptyContentRoots
          else
            bind_ok (map_err (\<lambda>_. CfgInvalidPath) (collect_ok (map TrustedRoot_parse (raw_content_roots raw)))) (\<lambda>contents.
            if overlaps_earlier [] contents then Err CfgOverlappingContentRoots
            else
              bind_ok (map_err (\<lambda>_. CfgInvalidPath) (TrustedRoot_parse (raw_state_root raw))) (\<lambda>st.
              bind_ok (map_err (\<lambda>_. CfgInvalidPath) (TrustedRoot_parse (raw_credential_root raw))) (\<lambda>cred.
              bind_ok (map_err (\<lambda>_. CfgInvalidPath) (TrustedRoot_parse (raw_ingress_root raw))) (\<lambda>ingress.
              bind_ok (map_err (\<lambda>_. CfgInvalidPath) (TrustedRoot_parse (raw_runtime_root raw))) (\<lambda>runtime.
              bind_ok (map_err (\<lambda>_. CfgInvalidPath) (TrustedRoot_parse (raw_site_services_root raw))) (\<lambda>services.
              let privileged = [st, cred, ingress, runtime, services] in
              if list_ex (\<lambda>content. list_ex (roots_overlap content) privileged) contents
                 \<or> overlaps_earlier [(0, 1), (1, 0)] privileged
              then Err CfgPrivilegedRootOverlapsContent
              else Ok \<lparr> content_roots = contents, state_root = st, credential_root = cred,
                        ingress_root = ingress, runtime_root = runtime, site_services_root = services \<rparr>)))))))"

definition from_json_for_site ::
  "json_text \<Rightarrow> (string \<Rightarrow> uuid option) \<Rightarrow> bytes \<Rightarrow> SiteId \<Rightarrow> ConfigError + SiteManifest" where
  "from_json_for_site J parse_str text expected =
     (case from_slice J RawSiteManifest_of_json text of
        None \<Rightarrow> Err CfgInvalidJson
      | Some raw \<Rightarrow>
          let repo = rsm_repository raw in
          if rsm_schema_version raw \<noteq> MANIFEST_SCHEMA_VERSION then Err CfgUnsupportedSchema
          else
            bind_ok (map_err (\<lambda>_. CfgInvalidSiteId) (SiteId_parse parse_str (rsm_site_id raw))) (\<lambda>site.
            if site \<noteq> expected then Err CfgSiteIdMismatch
            else
              bind_ok (validate_domain (rsm_domain raw)) (\<lambda>_.
              bind_ok (validate_site_user (rsm_site_user raw)) (\<lambda>_.
              bind_ok (validate_bounded_text (rrp_url repo) 2048) (\<lambda>_.
              if rrp_allowed_branches repo = [] then Err CfgEmptyBranchPolicy
              else
                bind_ok (check_each (\<lambda>branch. validate_bounded_text branch 255) (rrp_allowed_branches repo)) (\<lambda>_.
                bind_ok (map_err (\<lambda>_. CfgInvalidPath) (SiteRelativePath_parse (rsm_content_root raw))) (\<lambda>content.
                bind_ok (map_err (\<lambda>_. CfgInvalidCredentialId) (SiteId_parse parse_str (rrp_credential_id repo))) (\<lambda>cred.
                  Ok \<lparr> sm_site_id = site, sm_domain = rsm_domain raw, sm_content_root = content,
                       sm_site_user = rsm_site_user raw,
                       sm_repository = \<lparr> rp_url = rrp_url repo,
                         rp_allowed_branches = rrp_allowed_branches repo, rp_credential_id = cred \<rparr> \<rparr>))))))))"

section \<open>Owner-checked files\<close>

text \<open>Owner and permission bits of the opened file, from \<open>fstat\<close>.\<close>

type_synonym attributes = "path \<Rightarrow> u32 \<times> u32"

unbundle bit_operations_syntax

definition WRITABLE_BY_OTHERS :: u32 where "WRITABLE_BY_OTHERS = 18"

definition file_attributes :: "attributes \<Rightarrow> path \<Rightarrow> host \<Rightarrow> (u32 \<times> u32) io" where
  "file_attributes attrs p h = io_call h (\<lambda>h. (Ok (attrs p), h))"

text \<open>
  Reading the opened file. The source does not ask whether it is a regular one: a pipe or a device with
  the right owner would be read too. The nodes of the host are files, directories and links only.
\<close>

definition read_opened :: "path \<Rightarrow> host \<Rightarrow> bytes io" where
  "read_opened p h = read_to_string p [] h"

definition read_owned_by :: "attributes \<Rightarrow> path \<Rightarrow> u32 \<Rightarrow> host \<Rightarrow> (ConfigError + bytes) \<times> host" where
  "read_owned_by attrs p required_uid h =
     try_io (file_open p h) (\<lambda>_. CfgIo) (\<lambda>file h.
     try_io (file_attributes attrs file h) (\<lambda>_. CfgIo) (\<lambda>(uid, mode) h.
     if uid \<noteq> required_uid then (Err CfgInsecureOwner, h)
     else if mode AND WRITABLE_BY_OTHERS \<noteq> 0 then (Err CfgInsecureMode, h)
     else try_io (read_opened file h) (\<lambda>_. CfgIo) (\<lambda>text h. (Ok text, h))))"

definition EngineConfig_load_owned_by ::
  "json_text \<Rightarrow> attributes \<Rightarrow> path \<Rightarrow> u32 \<Rightarrow> host \<Rightarrow> (ConfigError + EngineConfig) \<times> host" where
  "EngineConfig_load_owned_by J attrs p required_uid h =
     try_io (file_open p h) (\<lambda>_. CfgIo) (\<lambda>file h.
     try_io (file_attributes attrs file h) (\<lambda>_. CfgIo) (\<lambda>(uid, mode) h.
     if uid \<noteq> required_uid then (Err CfgInsecureOwner, h)
     else if mode AND WRITABLE_BY_OTHERS \<noteq> 0 then (Err CfgInsecureMode, h)
     else try_io (read_opened file h) (\<lambda>_. CfgIo) (\<lambda>text h. (EngineConfig_from_json J text, h))))"

definition EngineConfig_load_root_owned ::
  "json_text \<Rightarrow> attributes \<Rightarrow> path \<Rightarrow> host \<Rightarrow> (ConfigError + EngineConfig) \<times> host" where
  "EngineConfig_load_root_owned J attrs p h = EngineConfig_load_owned_by J attrs p 0 h"

definition SiteManifest_load_owned_by ::
  "json_text \<Rightarrow> (string \<Rightarrow> uuid option) \<Rightarrow> attributes \<Rightarrow> path \<Rightarrow> u32 \<Rightarrow> SiteId \<Rightarrow> host
     \<Rightarrow> (ConfigError + SiteManifest) \<times> host" where
  "SiteManifest_load_owned_by J parse_str attrs p required_uid expected h =
     try_io (read_owned_by attrs p required_uid h) id
       (\<lambda>text h. (from_json_for_site J parse_str text expected, h))"

definition SiteManifest_load_root_owned ::
  "json_text \<Rightarrow> (string \<Rightarrow> uuid option) \<Rightarrow> attributes \<Rightarrow> path \<Rightarrow> SiteId \<Rightarrow> host
     \<Rightarrow> (ConfigError + SiteManifest) \<times> host" where
  "SiteManifest_load_root_owned J parse_str attrs p expected h =
     SiteManifest_load_owned_by J parse_str attrs p 0 expected h"

section \<open>Roots that are kept apart\<close>

text \<open>Two roots are apart when no path lies below both.\<close>

definition apart :: "path \<Rightarrow> path \<Rightarrow> bool" where
  "apart a b \<longleftrightarrow> (\<forall>p. \<not> (below a p \<and> below b p))"

lemma apart_iff: "apart a b \<longleftrightarrow> \<not> roots_overlap a b"
proof
  assume "apart a b"
  then show "\<not> roots_overlap a b"
    by (auto simp: apart_def below_def roots_overlap_def path_starts_with_iff)
next
  assume "\<not> roots_overlap a b"
  then show "apart a b"
    by (auto simp: apart_def below_def roots_overlap_def path_starts_with_iff append_eq_append_conv2)
qed

lemma overlaps_earlier_none: "\<not> overlaps_earlier [] roots \<longleftrightarrow> sorted_wrt apart roots"
  by (auto simp: overlaps_earlier_def list_ex_iff sorted_wrt_iff_nth_less apart_iff)

lemma overlaps_earlier_at:
  "\<not> overlaps_earlier skip roots \<Longrightarrow> i < j \<Longrightarrow> j < length roots \<Longrightarrow> (i, j) \<notin> set skip \<Longrightarrow>
     apart (roots ! i) (roots ! j)"
  by (simp add: overlaps_earlier_def list_ex_iff apart_iff) (meson atLeastLessThan_iff le0)

lemma privileged_apart:
  assumes "\<not> overlaps_earlier [(0, 1), (1, 0)] [a, b, c, d, e]"
  shows "sorted_wrt apart [a, c, d, e]" and "sorted_wrt apart [b, c, d, e]"
proof -
  have apart_at: "apart ([a, b, c, d, e] ! i) ([a, b, c, d, e] ! j)"
    if "i < j" "j < 5" "j \<noteq> 1" for i j
    using overlaps_earlier_at[OF assms, of i j] that by auto
  show "sorted_wrt apart [a, c, d, e]"
    using apart_at[of 0 2] apart_at[of 0 3] apart_at[of 0 4] apart_at[of 2 3] apart_at[of 2 4]
      apart_at[of 3 4] by simp
  show "sorted_wrt apart [b, c, d, e]"
    using apart_at[of 1 2] apart_at[of 1 3] apart_at[of 1 4] apart_at[of 2 3] apart_at[of 2 4]
      apart_at[of 3 4] by simp
qed

lemma map_ok_Ok_iff: "map_ok f r = Ok y \<longleftrightarrow> (\<exists>x. r = Ok x \<and> y = f x)"
  by (cases r) auto

lemma collect_ok_Ok: "collect_ok rs = Ok xs \<longleftrightarrow> rs = map Ok xs"
proof (induction rs arbitrary: xs)
  case (Cons r rs)
  have "collect_ok (r # rs) = Ok xs \<longleftrightarrow> (\<exists>x ys. r = Ok x \<and> rs = map Ok ys \<and> xs = x # ys)"
    by (simp add: bind_ok_Ok_iff map_ok_Ok_iff Cons.IH)
  then show ?case by (auto simp: Cons_eq_map_conv)
qed auto

lemma TrustedRoot_parse_safe:
  assumes "TrustedRoot_parse s = Ok ps"
  shows "ps \<noteq> []" and "list_all safe_component ps"
  using assms by (simp_all add: TrustedRoot_parse_Ok)

text \<open>The roots an accepted configuration was read from.\<close>

lemma EngineConfig_from_json_Ok:
  assumes "EngineConfig_from_json J text = Ok c"
  obtains raw where "from_slice J RawEngineConfig_of_json text = Some raw"
    and "raw_schema_version raw = CONFIG_SCHEMA_VERSION"
    and "map TrustedRoot_parse (raw_content_roots raw) = map Ok (content_roots c)"
    and "raw_content_roots raw \<noteq> []"
    and "TrustedRoot_parse (raw_state_root raw) = Ok (state_root c)"
    and "TrustedRoot_parse (raw_credential_root raw) = Ok (credential_root c)"
    and "TrustedRoot_parse (raw_ingress_root raw) = Ok (ingress_root c)"
    and "TrustedRoot_parse (raw_runtime_root raw) = Ok (runtime_root c)"
    and "TrustedRoot_parse (raw_site_services_root raw) = Ok (site_services_root c)"
    and "\<not> overlaps_earlier [] (content_roots c)"
    and "\<not> overlaps_earlier [(0, 1), (1, 0)] [state_root c, credential_root c, ingress_root c,
          runtime_root c, site_services_root c]"
    and "\<not> list_ex (\<lambda>content. list_ex (roots_overlap content) [state_root c, credential_root c,
          ingress_root c, runtime_root c, site_services_root c]) (content_roots c)"
  using assms
  by (auto simp: EngineConfig_from_json_def bind_ok_Ok_iff collect_ok_Ok Let_def
      split: option.splits if_splits)

lemma all_safe_roots:
  assumes "map TrustedRoot_parse raws = map Ok roots" and "r \<in> set roots"
  shows "r \<noteq> [] \<and> list_all safe_component r"
proof -
  have "Ok r \<in> set (map TrustedRoot_parse raws)" using assms by simp
  then obtain s where "TrustedRoot_parse s = Ok r" by auto
  then show ?thesis using TrustedRoot_parse_safe by blast
qed

text \<open>
  (C33) In an accepted engine configuration no path lies below two content roots, below a content
  root and an engine-owned root, or below two engine-owned roots, except that the state and the
  credential root may share a subtree; there is at least one content root, and every root is a
  non-empty sequence of safe components.
\<close>

theorem engine_roots_disjoint:
  assumes "EngineConfig_from_json J text = Ok c"
  shows "sorted_wrt apart (content_roots c @ [state_root c, ingress_root c, runtime_root c, site_services_root c])
    \<and> sorted_wrt apart (content_roots c @ [credential_root c, ingress_root c, runtime_root c, site_services_root c])
    \<and> content_roots c \<noteq> []
    \<and> (\<forall>r \<in> set (content_roots c @ [state_root c, credential_root c, ingress_root c, runtime_root c,
          site_services_root c]). r \<noteq> [] \<and> list_all safe_component r)"
proof -
  from assms obtain raw :: RawEngineConfig where raw: "map TrustedRoot_parse (raw_content_roots raw) = map Ok (content_roots c)"
      "raw_content_roots raw \<noteq> []"
      "TrustedRoot_parse (raw_state_root raw) = Ok (state_root c)"
      "TrustedRoot_parse (raw_credential_root raw) = Ok (credential_root c)"
      "TrustedRoot_parse (raw_ingress_root raw) = Ok (ingress_root c)"
      "TrustedRoot_parse (raw_runtime_root raw) = Ok (runtime_root c)"
      "TrustedRoot_parse (raw_site_services_root raw) = Ok (site_services_root c)"
      "\<not> overlaps_earlier [] (content_roots c)"
      "\<not> overlaps_earlier [(0, 1), (1, 0)] [state_root c, credential_root c, ingress_root c,
          runtime_root c, site_services_root c]"
      "\<not> list_ex (\<lambda>content. list_ex (roots_overlap content) [state_root c, credential_root c,
          ingress_root c, runtime_root c, site_services_root c]) (content_roots c)"
    by (rule EngineConfig_from_json_Ok) blast
  from raw(9) have priv: "sorted_wrt apart [state_root c, ingress_root c, runtime_root c, site_services_root c]"
      "sorted_wrt apart [credential_root c, ingress_root c, runtime_root c, site_services_root c]"
    by (rule privileged_apart)+
  from raw(8) have "sorted_wrt apart (content_roots c)" by (simp add: overlaps_earlier_none)
  moreover from raw(10) have "\<forall>content \<in> set (content_roots c). \<forall>r \<in> {state_root c, credential_root c,
      ingress_root c, runtime_root c, site_services_root c}. apart content r"
    by (simp add: list_ex_iff apart_iff)
  moreover have "\<forall>r \<in> set (content_roots c @ [state_root c, credential_root c, ingress_root c, runtime_root c,
          site_services_root c]). r \<noteq> [] \<and> list_all safe_component r"
    using all_safe_roots[OF raw(1)] raw(3-7)[THEN TrustedRoot_parse_safe(1)]
      raw(3-7)[THEN TrustedRoot_parse_safe(2)] by auto
  moreover have "content_roots c \<noteq> []" using raw(1,2) by auto
  ultimately show ?thesis using priv by (simp add: sorted_wrt_append)
qed

text \<open>A configuration of the default layout, the credentials nested under the state root.\<close>

definition example_config_json :: json where
  "example_config_json = JObj
     [(''schemaVersion'', JNum 4), (''contentRoots'', JArr [JStr ''/srv/sites'', JStr ''/srv/more'']),
      (''stateRoot'', JStr ''/var/lib/engine''), (''credentialRoot'', JStr ''/var/lib/engine/credentials''),
      (''ingressRoot'', JStr ''/etc/wcp/ingress''), (''runtimeRoot'', JStr ''/etc/wcp/runtime''),
      (''siteServicesRoot'', JStr ''/etc/wcp/site-services'')]"

definition example_config :: EngineConfig where
  "example_config =
     \<lparr> content_roots = [[''srv'', ''sites''], [''srv'', ''more'']], state_root = [''var'', ''lib'', ''engine''],
       credential_root = [''var'', ''lib'', ''engine'', ''credentials''],
       ingress_root = [''etc'', ''wcp'', ''ingress''], runtime_root = [''etc'', ''wcp'', ''runtime''],
       site_services_root = [''etc'', ''wcp'', ''site-services''] \<rparr>"

lemma example_config_accepted: "EngineConfig_from_json (table_text [example_config_json]) [] = Ok example_config"
  by code_simp

theorem engine_roots_disjoint_witness:
  "sorted_wrt apart (content_roots example_config @ [state_root example_config, ingress_root example_config,
     runtime_root example_config, site_services_root example_config])"
  using engine_roots_disjoint[OF example_config_accepted] by (rule conjunct1)

section \<open>What a manifest may hold\<close>

lemma check_each_Ok: "check_each f xs = Ok () \<longleftrightarrow> (\<forall>x \<in> set xs. f x = Ok ())"
  by (induction xs) (auto simp: bind_ok_Ok_iff)

lemma validate_bounded_text_Ok:
  "validate_bounded_text v n = Ok () \<longleftrightarrow> v \<noteq> [] \<and> length v \<le> n \<and> \<not> has_control v"
  by (auto simp: validate_bounded_text_def)

definition user_char :: "char \<Rightarrow> bool" where
  "user_char c = (is_ascii_lowercase c \<or> is_ascii_digit c \<or> c = CHR ''_'' \<or> c = CHR ''-'')"

lemma validate_site_user_Ok:
  "validate_site_user v = Ok () \<longleftrightarrow>
     v \<noteq> [] \<and> length v \<le> 32 \<and> list_all user_char v \<and> hd v \<noteq> CHR ''_'' \<and> hd v \<noteq> CHR ''-''"
proof -
  have "list_all site_user_byte (zip [0..<length v] v) \<longleftrightarrow> (\<forall>i < length v. site_user_byte (i, v ! i))"
    by (auto simp: list_all_length)
  also have "\<dots> \<longleftrightarrow> (\<forall>i < length v. user_char (v ! i)
      \<and> (i = 0 \<longrightarrow> v ! i \<noteq> CHR ''_'' \<and> v ! i \<noteq> CHR ''-''))"
    by (auto simp: site_user_byte_def user_char_def ascii_defs)
  finally show ?thesis
    by (cases v) (auto simp: validate_site_user_def list_all_length hd_conv_nth)
qed

lemma SiteId_parse_OkD: "SiteId_parse parse_str s = Ok u \<Longrightarrow> uuid_parse_ok parse_str \<Longrightarrow> uuid_wf u \<and> u \<noteq> nil_uuid"
  by (auto simp: SiteId_parse_def uuid_parse_ok_def split: option.splits if_splits)

text \<open>
  (C34) An accepted manifest is the one of the expected site; its content root is a safe relative
  path, its system user is a name that no program can take for an option, the repository address
  and every branch name are bounded text without control characters, at least one branch is
  allowed, and the credential is a canonical identifier.
\<close>

theorem manifest_is_validated:
  assumes "uuid_parse_ok parse_str" and "from_json_for_site J parse_str text expected = Ok m"
  shows "sm_site_id m = expected
    \<and> sm_content_root m \<noteq> [] \<and> list_all safe_component (sm_content_root m)
    \<and> sm_site_user m \<noteq> [] \<and> length (sm_site_user m) \<le> 32 \<and> list_all user_char (sm_site_user m)
    \<and> hd (sm_site_user m) \<noteq> CHR ''-''
    \<and> (let r = sm_repository m in
        rp_url r \<noteq> [] \<and> length (rp_url r) \<le> 2048 \<and> \<not> has_control (rp_url r)
        \<and> rp_allowed_branches r \<noteq> []
        \<and> (\<forall>b \<in> set (rp_allowed_branches r). b \<noteq> [] \<and> length b \<le> 255 \<and> \<not> has_control b)
        \<and> uuid_wf (rp_credential_id r) \<and> rp_credential_id r \<noteq> nil_uuid)"
proof -
  from assms(2) obtain raw :: RawSiteManifest where raw: "sm_site_id m = expected"
      "SiteRelativePath_parse (rsm_content_root raw) = Ok (sm_content_root m)"
      "validate_site_user (sm_site_user m) = Ok ()"
      "validate_bounded_text (rp_url (sm_repository m)) 2048 = Ok ()"
      "rp_allowed_branches (sm_repository m) \<noteq> []"
      "check_each (\<lambda>b. validate_bounded_text b 255) (rp_allowed_branches (sm_repository m)) = Ok ()"
      "SiteId_parse parse_str (rrp_credential_id (rsm_repository raw)) = Ok (rp_credential_id (sm_repository m))"
    by (auto simp: from_json_for_site_def bind_ok_Ok_iff Let_def split: option.splits if_splits)
  have "sm_content_root m \<noteq> []" "list_all safe_component (sm_content_root m)"
    using raw(2) by (auto simp: SiteRelativePath_parse_Ok)
  with raw SiteId_parse_OkD[OF raw(7) assms(1)] show ?thesis
    by (simp add: validate_site_user_Ok validate_bounded_text_Ok check_each_Ok Let_def)
qed

definition example_manifest_json :: json where
  "example_manifest_json = JObj
     [(''schemaVersion'', JNum 1), (''siteId'', JStr example_id), (''domain'', JStr ''example.com''),
      (''contentRoot'', JStr (''sites/'' @ example_id @ ''/current'')), (''siteUser'', JStr ''site-1''),
      (''repository'', JObj [(''url'', JStr ''git@example.com:a/b.git''),
         (''allowedBranches'', JArr [JStr ''main'']), (''credentialId'', JStr example_id)])]"

definition example_manifest :: SiteManifest where
  "example_manifest =
     \<lparr> sm_site_id = example_id, sm_domain = ''example.com'',
       sm_content_root = [''sites'', example_id, ''current''], sm_site_user = ''site-1'',
       sm_repository = \<lparr> rp_url = ''git@example.com:a/b.git'', rp_allowed_branches = [''main''],
         rp_credential_id = example_id \<rparr> \<rparr>"

lemma example_manifest_accepted:
  "from_json_for_site (table_text [example_manifest_json]) canonical_uuid [] example_id = Ok example_manifest"
  by code_simp

theorem manifest_is_validated_witness: "list_all user_char (sm_site_user example_manifest)"
  using manifest_is_validated[OF canonical_uuid_ok example_manifest_accepted] by blast

section \<open>Where configuration is read from\<close>

lemma not_writable_by_others: "m AND WRITABLE_BY_OTHERS = 0 \<longleftrightarrow> \<not> bit m 1 \<and> \<not> bit m 4"
proof
  assume "m AND WRITABLE_BY_OTHERS = 0"
  then have "\<not> bit (m AND WRITABLE_BY_OTHERS) 1" "\<not> bit (m AND WRITABLE_BY_OTHERS) 4" by simp_all
  then show "\<not> bit m 1 \<and> \<not> bit m 4" by (simp add: WRITABLE_BY_OTHERS_def bit_simps)
next
  assume *: "\<not> bit m 1 \<and> \<not> bit m 4"
  have "n = 1 \<or> n = 4" if "bit WRITABLE_BY_OTHERS n" for n
    using that by (auto simp: WRITABLE_BY_OTHERS_def bit_numeral_rec bit_simps split: nat.splits)
  then have "\<not> bit (m AND WRITABLE_BY_OTHERS) n" for n using * by (auto simp only: bit_and_iff)
  then show "m AND WRITABLE_BY_OTHERS = 0" by (simp add: bit_eq_iff)
qed

text \<open>
  What reading the path \<open>p\<close> through the owner check establishes of the file it was read from: it is what
  \<open>p\<close> names, or what the link at \<open>p\<close> resolves to, and has the owner and the mode.
\<close>

definition leads_to :: "host \<Rightarrow> path \<Rightarrow> path \<Rightarrow> bool" where
  "leads_to h p file \<longleftrightarrow> (case node_at h p of
     None \<Rightarrow> False | Some (Symlink _) \<Rightarrow> realpath h p = Some file | Some _ \<Rightarrow> file = p)"

definition trusted_file :: "attributes \<Rightarrow> u32 \<Rightarrow> host \<Rightarrow> path \<Rightarrow> path \<Rightarrow> bytes \<Rightarrow> bool" where
  "trusted_file attrs uid h p file text \<longleftrightarrow>
     leads_to h p file \<and> node_at h file = Some (File text) \<and> fst (attrs file) = uid
     \<and> \<not> bit (snd (attrs file)) 1 \<and> \<not> bit (snd (attrs file)) 4"

lemma file_open_leads: "file_open p h = (Ok file, h') \<Longrightarrow> leads_to h p file"
  by (auto simp: file_open_def io_call_def leads_to_def split: if_splits option.splits node.splits)

lemma file_open_env: "env (snd (file_open p h)) = env h" "node_at (snd (file_open p h)) = node_at h"
  by (simp_all add: file_open_def io_call_def split: option.splits node.splits)

lemma read_opened_Ok: "read_opened p h = (Ok text, h') \<Longrightarrow> node_at h p = Some (File text)"
  by (auto simp: read_opened_def read_to_string_def io_call_def split: option.splits node.splits if_splits)

lemma owner_checked:
  assumes "file_open p h = (Ok file, h1)" and "file_attributes attrs file h1 = (Ok (uid, mode), h2)"
    and "mode AND WRITABLE_BY_OTHERS = 0" and "read_opened file h2 = (Ok text, h3)"
  shows "trusted_file attrs uid h p file text"
proof -
  have "node_at h1 = node_at h" using file_open_env(2)[of p h] assms(1) by simp
  moreover have "node_at h2 = node_at h1" "attrs file = (uid, mode)"
    using assms(2) by (auto simp: file_attributes_def io_call_def split: if_splits)
  ultimately show ?thesis
    using read_opened_Ok[OF assms(4)] assms(3) file_open_leads[OF assms(1)]
    by (simp add: trusted_file_def not_writable_by_others)
qed


definition example_attributes :: attributes where
  "example_attributes p = (0, 420)"

lemma example_config_loaded:
  "is_ok (fst (EngineConfig_load_root_owned (table_text [example_config_json]) example_attributes
     [''etc'', ''engine.json''] (example_host [([''etc'', ''engine.json''], File [])])))"
  by code_simp


end
