(* ===== verification/Recovery.thy ===== *)
theory Recovery
  imports Release EngineConfig
begin

text \<open>
  Durable evidence around the release switch (\<open>src/src/deployment_recovery.rs\<close>): the checkpoint
  that a deploy or rollback writes before it changes anything, and the reconciliation of an
  interrupted one. A \<open>serde_json::Map\<close> keeps its members in key order (\<open>value_map\<close>).
\<close>

section \<open>Errors and records\<close>

definition MAX_CHECKPOINT_BYTES :: nat where "MAX_CHECKPOINT_BYTES = 16 * 1024"

definition RECOVERY_OPERATION :: string where "RECOVERY_OPERATION = ''site.recoverDeployment''"

datatype RecoveryError = Rec_Unavailable | Rec_Conflict | Rec_Unsupported | Rec_NotFound

definition RecoveryError_protocol :: "RecoveryError \<Rightarrow> ErrorCode \<times> string" where
  "RecoveryError_protocol e = (case e of
     Rec_Conflict \<Rightarrow> (Conflict, ''deployment is active or its current release cannot be safely reconciled'')
   | Rec_Unsupported \<Rightarrow> (InvalidInput, ''this request has no supported deployment recovery checkpoint'')
   | Rec_NotFound \<Rightarrow> (NotFound, ''deployment transaction was not found'')
   | Rec_Unavailable \<Rightarrow> (Internal, ''deployment recovery evidence is unavailable''))"

record Checkpoint =
  ck_site_id :: SiteId
  ck_request_id :: RequestId
  ck_operation :: string
  ck_target :: ReleaseId
  ck_previous :: "ReleaseId option"
  ck_revision :: "string option"

definition Checkpoint_json :: "Checkpoint \<Rightarrow> json" where
  "Checkpoint_json c = JObj
     [(''siteId'', JStr (ck_site_id c)), (''requestId'', JStr (ck_request_id c)),
      (''operation'', JStr (ck_operation c)), (''target'', JStr (ck_target c)),
      (''previous'', opt_json JStr (ck_previous c)), (''revision'', opt_json JStr (ck_revision c))]"

definition Checkpoint_of_json :: "(string \<Rightarrow> uuid option) \<Rightarrow> json \<Rightarrow> Checkpoint option" where
  "Checkpoint_of_json parse_str v = Option.bind (as_obj v) (\<lambda>kvs.
     if \<not> only_fields [''siteId'', ''requestId'', ''operation'', ''target'', ''previous'', ''revision''] kvs
     then None
     else Option.bind (req (uuid_of_json parse_str) (field_of ''siteId'' kvs)) (\<lambda>site.
     Option.bind (req (uuid_of_json parse_str) (field_of ''requestId'' kvs)) (\<lambda>request.
     Option.bind (req as_str (field_of ''operation'' kvs)) (\<lambda>operation.
     Option.bind (req (uuid_of_json parse_str) (field_of ''target'' kvs)) (\<lambda>target.
     Option.bind (opt (uuid_of_json parse_str) (field_of ''previous'' kvs)) (\<lambda>previous.
     Option.bind (opt as_str (field_of ''revision'' kvs)) (\<lambda>revision.
       Some \<lparr> ck_site_id = site, ck_request_id = request, ck_operation = operation,
              ck_target = target, ck_previous = previous, ck_revision = revision \<rparr>)))))))"

text \<open>\<open>OperationStatus\<close> of \<open>src/src/operation_status.rs\<close>, with the flattened transaction.\<close>

record OperationStatus =
  os_transaction :: TransactionState
  os_active :: bool
  os_recovery_action :: "string option"

definition OperationStatus_json :: "OperationStatus \<Rightarrow> json" where
  "OperationStatus_json s =
     JObj (the (as_obj (TransactionState_json (os_transaction s))) @ [(''active'', JBool (os_active s))]
       @ (case os_recovery_action s of None \<Rightarrow> [] | Some a \<Rightarrow> [(''recoveryAction'', JStr a)]))"

definition value_map :: "(string \<times> json) list \<Rightarrow> json" where
  "value_map kvs = JObj (sort_key fst kvs)"

section \<open>Checkpoints on disk\<close>

definition recovery_dir :: path where "recovery_dir = [''deployment-recovery'']"

definition checkpoint_path :: "RequestId \<Rightarrow> path" where
  "checkpoint_path i = expect_path (''deployment-recovery/'' @ i @ ''.json'')"

definition read_checkpoint :: "crates \<Rightarrow> bytes \<Rightarrow> host \<Rightarrow> (RecoveryError + Checkpoint) \<times> host" where
  "read_checkpoint L contents h =
     (case read_take (MAX_CHECKPOINT_BYTES + 1) contents h of
        ((Some _, _), h) \<Rightarrow> (Err Rec_Unavailable, h)
      | ((None, b), h) \<Rightarrow>
          (if length b > MAX_CHECKPOINT_BYTES then Err Rec_Unavailable
           else (case from_slice (cr_json L) (Checkpoint_of_json (cr_uuid L)) b of
              None \<Rightarrow> Err Rec_Unavailable | Some c \<Rightarrow> Ok c), h))"

definition load_checkpoint ::
  "crates \<Rightarrow> ManagedRoot \<Rightarrow> RequestId \<Rightarrow> host \<Rightarrow> (RecoveryError + Checkpoint) \<times> host" where
  "load_checkpoint L root i h =
     try_io (symlink_metadata root (checkpoint_path i) h) (\<lambda>_. Rec_Unsupported) (\<lambda>(is_file, len) h.
     if \<not> is_file \<or> len > MAX_CHECKPOINT_BYTES then (Err Rec_Unavailable, h)
     else
       try_io (open_regular_read root (checkpoint_path i) h) (\<lambda>_. Rec_Unavailable) (\<lambda>contents h.
       try_io (io_call h (\<lambda>h. (Ok (), h))) (\<lambda>_. Rec_Unavailable) (\<lambda>_ h. read_checkpoint L contents h)))"

fun clear_markers :: "crates \<Rightarrow> ManagedRoot \<Rightarrow> string list \<Rightarrow> host \<Rightarrow> (RecoveryError + unit) \<times> host" where
  "clear_markers L scope [] h = (Ok (), h)"
| "clear_markers L scope (name # names) h =
     (case Option.bind (strip_suffix name ''.json'')
             (\<lambda>s. case RequestId_parse (cr_uuid L) s of Inl _ \<Rightarrow> None | Inr i \<Rightarrow> Some i) of
        None \<Rightarrow> (Err Rec_Unavailable, h)
      | Some i \<Rightarrow>
          try_io (State_load L scope (state_path i) h) (\<lambda>_. Rec_Unavailable) (\<lambda>record h.
          if ts_status record = InProgress then (Err Rec_Conflict, h)
          else try_io (remove_file scope (checkpoint_path i) h) (\<lambda>_. Rec_Unavailable)
                 (\<lambda>_ h. clear_markers L scope names h)))"

definition prepare ::
  "crates \<Rightarrow> path \<Rightarrow> ManagedRoot \<Rightarrow> SiteId \<Rightarrow> RequestId \<Rightarrow> string \<Rightarrow> ReleaseId \<Rightarrow> string option \<Rightarrow> host
     \<Rightarrow> (RecoveryError + unit) \<times> host" where
  "prepare L content scope site_id request_id operation target revision h =
     try_io (create_dir_all scope recovery_dir h) (\<lambda>_. Rec_Unavailable) (\<lambda>_ h.
     try_io (open_managed_dir scope recovery_dir h) (\<lambda>_. Rec_Unavailable) (\<lambda>markers h.
     try_io (file_names markers h) (\<lambda>_. Rec_Unavailable) (\<lambda>names h.
     try_io (clear_markers L scope names h) id (\<lambda>_ h.
     try_io (current_release L content site_id h) (\<lambda>_. Rec_Unavailable) (\<lambda>previous h.
     let checkpoint = \<lparr> ck_site_id = site_id, ck_request_id = request_id, ck_operation = operation,
           ck_target = target, ck_previous = previous, ck_revision = revision \<rparr>
     in (case to_vec (cr_json L) Checkpoint_json checkpoint of
           None \<Rightarrow> (Err Rec_Unavailable, h)
         | Some b \<Rightarrow> apfst (map_err (\<lambda>_. Rec_Unavailable))
                      (write_atomic scope (checkpoint_path request_id) b h)))))))"

definition available :: "crates \<Rightarrow> ManagedRoot \<Rightarrow> TransactionState \<Rightarrow> host \<Rightarrow> bool \<times> host" where
  "available L scope record h =
     (if ts_status record \<noteq> InProgress then (False, h)
      else if ts_operation record \<notin> {''site.deploy'', ''site.rollback''} then (False, h)
      else (case load_checkpoint L scope (ts_request_id record) h of
         (Inl _, h) \<Rightarrow> (False, h)
       | (Inr c, h) \<Rightarrow>
           (ck_request_id c = ts_request_id record \<and> ck_operation c = ts_operation record, h)))"

section \<open>Reconciling an interrupted request\<close>

definition consistent :: "SiteId \<Rightarrow> RequestId \<Rightarrow> TransactionState \<Rightarrow> Checkpoint \<Rightarrow> bool" where
  "consistent site_id request_id record c =
     (\<not> (ck_site_id c \<noteq> site_id
        \<or> ck_request_id c \<noteq> request_id
        \<or> ck_operation c \<noteq> ts_operation record
        \<or> (ts_operation record = ''site.deploy''
            \<and> (ck_revision c = None \<or> ck_target c \<noteq> ReleaseId_from request_id))
        \<or> (ts_operation record = ''site.rollback'' \<and> ck_revision c \<noteq> None)))"

definition recovered_result :: "host \<Rightarrow> Checkpoint \<Rightarrow> json" where
  "recovered_result h c = value_map
     ([(''releaseId'', JStr (ck_target c)), (''previousReleaseId'', opt_json JStr (ck_previous c)),
       (''activatedAtUnixSecs'', json_u64 (unix_now_secs h)), (''recovered'', JBool True)]
      @ (case ck_revision c of None \<Rightarrow> [] | Some r \<Rightarrow> [(''commit'', JStr r)]))"

definition reconcile ::
  "host \<Rightarrow> Checkpoint \<Rightarrow> ReleaseId option \<Rightarrow> TransactionState \<Rightarrow> RecoveryError + TransactionState" where
  "reconcile h c current record =
     (if current = Some (ck_target c) \<and> ck_previous c \<noteq> Some (ck_target c)
      then map_err (\<lambda>_. Rec_Unavailable) (mark_committed h (recovered_result h c) record)
      else if current = ck_previous c
      then map_err (\<lambda>_. Rec_Unavailable) (mark_failed h Cancelled
             ''interrupted before release activation; the previous release is unchanged'' record)
      else Err Rec_Conflict)"

definition finished_status :: "TransactionState \<Rightarrow> OperationStatus" where
  "finished_status record = \<lparr> os_transaction = record, os_active = False, os_recovery_action = None \<rparr>"

text \<open>The statements that run with the site lock held.\<close>

definition recover_locked ::
  "crates \<Rightarrow> path \<Rightarrow> ManagedRoot \<Rightarrow> SiteId \<Rightarrow> RequestId \<Rightarrow> host \<Rightarrow> (RecoveryError + OperationStatus) \<times> host" where
  "recover_locked L content scope site_id request_id h =
     try_io (State_load L scope (state_path request_id) h)
       (\<lambda>e. case e of State_NotFound \<Rightarrow> Rec_NotFound | _ \<Rightarrow> Rec_Unavailable) (\<lambda>record h.
     if ts_operation record \<notin> {''site.deploy'', ''site.rollback''} then (Err Rec_Unsupported, h)
     else if ts_status record \<noteq> InProgress then (Ok (finished_status record), h)
     else
       try_io (load_checkpoint L scope request_id h) id (\<lambda>c h.
       if \<not> consistent site_id request_id record c then (Err Rec_Unavailable, h)
       else
         try_io (current_release L content site_id h) (\<lambda>_. Rec_Conflict) (\<lambda>current h.
         try_io (reconcile h c current record, h) id (\<lambda>record h.
         try_io (audit_append L scope audit_path (audit_mutation_start h request_id None RECOVERY_OPERATION) h)
           (\<lambda>_. Rec_Unavailable) (\<lambda>_ h.
         try_io (State_save L scope (state_path request_id) record h) (\<lambda>_. Rec_Unavailable) (\<lambda>_ h.
           (case audit_append L scope audit_path
                   (audit_result h request_id (ts_status record = Committed)
                      (Option.bind (ts_outcome record) oc_error_code)) h of
              (_, h) \<Rightarrow> (Ok (finished_status record), h))))))))"

definition recovery_execute ::
  "crates \<Rightarrow> path \<Rightarrow> ManagedRoot \<Rightarrow> SiteId \<Rightarrow> RequestId \<Rightarrow> host \<Rightarrow> (RecoveryError + OperationStatus) \<times> host" where
  "recovery_execute L content engine_state site_id request_id h =
     try_io (open_managed_dir engine_state (site_path site_id) h) (\<lambda>_. Rec_NotFound) (\<lambda>scope h.
     try_io (lock_acquire L scope lock_path request_id h) (\<lambda>_. Rec_Conflict) (\<lambda>lock h.
       (case recover_locked L content scope site_id request_id h of (r, h) \<Rightarrow> (r, release lock h))))"

definition CONFIG_PATH :: path where
  "CONFIG_PATH = [''etc'', ''operations-engine'', ''config.json'']"

definition manifest_path :: "SiteId \<Rightarrow> path" where
  "manifest_path site_id = [''etc'', ''operations-engine'', ''sites'', site_id @ ''.json'']"

definition recovery_run ::
  "crates \<Rightarrow> attributes \<Rightarrow> SiteId \<Rightarrow> RequestId \<Rightarrow> host \<Rightarrow> (RecoveryError + OperationStatus) \<times> host" where
  "recovery_run L attrs site_id request_id h =
     try_io (EngineConfig_load_root_owned (cr_json L) attrs CONFIG_PATH h) (\<lambda>_. Rec_Unavailable) (\<lambda>config h.
     try_io (SiteManifest_load_root_owned (cr_json L) (cr_uuid L) attrs (manifest_path site_id) site_id h)
       (\<lambda>_. Rec_Unavailable) (\<lambda>manifest h.
     if sm_content_root manifest \<noteq> current_path site_id then (Err Rec_Unsupported, h)
     else (case content_roots config of
        [content] \<Rightarrow>
          try_io (ManagedRoot_open (state_root config) h) (\<lambda>_. Rec_Unavailable) (\<lambda>state h.
            recovery_execute L content state site_id request_id h)
      | _ \<Rightarrow> (Err Rec_Unavailable, h))))"

definition recovery_command ::
  "crates \<Rightarrow> attributes \<Rightarrow> string \<Rightarrow> string \<Rightarrow> host \<Rightarrow> (ResponseBuildError + Response) \<times> host" where
  "recovery_command L attrs site_id request_id h =
     (case (SiteId_parse (cr_uuid L) site_id, RequestId_parse (cr_uuid L) request_id) of
        (Inr site, Inr request) \<Rightarrow>
          (case recovery_run L attrs site request h of
             (Inr result, h) \<Rightarrow> (Response_success RECOVERY_OPERATION (Some (OperationStatus_json result)), h)
           | (Inl e, h) \<Rightarrow>
               (case RecoveryError_protocol e of (code, message) \<Rightarrow>
                  (Ok (Response_failure RECOVERY_OPERATION code message), h)))
      | _ \<Rightarrow> (Ok (Response_failure RECOVERY_OPERATION InvalidInput ''invalid deployment identity''), h))"

section \<open>Calls below a root change nothing elsewhere\<close>

lemma below_append [simp]: "below r (r @ p)"
  by (simp add: below_def)

lemma same_outside_below_calls:
  "same_outside (below r) h (snd (create_dir_all r p h))"
  "same_outside (below r) h (snd (remove_file r p h))"
  "p \<noteq> [] \<Longrightarrow> same_outside (below r) h (snd (write_atomic r p b h))"
  "same_outside (below r) h (snd (audit_append L r p a h))"
  "p \<noteq> [] \<Longrightarrow> same_outside (below r) h (snd (State_save L r p s h))"
proof -
  have ne: "q \<noteq> r @ xs" if "\<not> below r q" for q xs using that by auto
  show "same_outside (below r) h (snd (create_dir_all r p h))"
    by (rule same_outside_node) (auto intro!: create_dir_all_frame dest: ne)
  show "same_outside (below r) h (snd (remove_file r p h))"
    by (rule same_outside_node) (auto intro!: remove_file_frame dest: ne)
  show "p \<noteq> [] \<Longrightarrow> same_outside (below r) h (snd (write_atomic r p b h))"
    by (rule same_outside_node) (auto intro!: write_atomic_frame dest: ne)
  show "same_outside (below r) h (snd (audit_append L r p a h))"
    by (rule same_outside_node) (auto intro!: audit_append_frame dest: ne)
  show "p \<noteq> [] \<Longrightarrow> same_outside (below r) h (snd (State_save L r p s h))"
    by (rule same_outside_node) (auto intro!: State_save_frame dest: ne)
qed

lemma load_checkpoint_same [host_frame, simp]:
  "node_at (snd (load_checkpoint L r i h)) = node_at h" "env (snd (load_checkpoint L r i h)) = env h"
proof -
  have md: "node_at (snd (symlink_metadata r p w)) = node_at w" "env (snd (symlink_metadata r p w)) = env w" for p w
    by (simp_all add: symlink_metadata_def io_call_def split: option.splits node.splits)
  have op: "node_at (snd (open_regular_read r p w)) = node_at w" "env (snd (open_regular_read r p w)) = env w" for p w
    by (auto simp: open_regular_read_def symlink_metadata_def io_call_def split: option.splits node.splits)
  have rc: "node_at (snd (read_checkpoint L b w)) = node_at w" "env (snd (read_checkpoint L b w)) = env w" for b w
    by (simp_all add: read_checkpoint_def read_take_def)
  show "node_at (snd (load_checkpoint L r i h)) = node_at h"
    unfolding load_checkpoint_def
    by (rule try_io_keeps) (auto simp: md op rc io_call_def intro!: try_io_keeps[where g = node_at])
  show "env (snd (load_checkpoint L r i h)) = env h"
    unfolding load_checkpoint_def
    by (rule try_io_keeps) (auto simp: md op rc io_call_def intro!: try_io_keeps[where g = env])
qed

section \<open>What a loaded checkpoint is\<close>

definition checkpoint_at :: "crates \<Rightarrow> ManagedRoot \<Rightarrow> host \<Rightarrow> RequestId \<Rightarrow> Checkpoint option" where
  "checkpoint_at L scope h i =
     Option.bind (file_at scope h (checkpoint_path i)) (from_slice (cr_json L) (Checkpoint_of_json (cr_uuid L)))"

lemma checkpoint_path_eq: "uuid_wf i \<Longrightarrow> checkpoint_path i = [''deployment-recovery'', i @ ''.json'']"
  using expect_path_join[of "[''deployment-recovery'', i @ ''.json'']"] uuid_component[OF _ name_char_suffixes(1), of i]
  by (simp add: checkpoint_path_def)

lemma load_checkpoint_Ok:
  assumes "load_checkpoint L scope i h = (Ok c, h')"
  shows "checkpoint_at L scope h i = Some c"
proof -
  from assms obtain len h1 fl h2 h3 where
      meta: "symlink_metadata scope (checkpoint_path i) h = (Ok (True, len), h1)"
    and opened: "open_regular_read scope (checkpoint_path i) h1 = (Ok fl, h2)"
    and rd: "read_checkpoint L fl h3 = (Ok c, h')"
    by (auto simp: load_checkpoint_def try_io_Ok_iff split: if_splits)
  have "node_at h1 = node_at h"
    using meta by (auto simp: symlink_metadata_def io_call_def split: option.splits node.splits if_splits)
  then have "file_at scope h (checkpoint_path i) = Some fl"
    using opened by (auto simp: open_regular_read_def symlink_metadata_def io_call_def try_io_Ok_iff file_at_def
        split: option.splits node.splits if_splits)
  moreover have "from_slice (cr_json L) (Checkpoint_of_json (cr_uuid L)) fl = Some c"
    using rd by (auto simp: read_checkpoint_def read_take_def split: if_splits option.splits)
  ultimately show ?thesis by (simp add: checkpoint_at_def)
qed

definition checkpoint_valid :: "Checkpoint \<Rightarrow> bool" where
  "checkpoint_valid c = (uuid_wf (ck_site_id c) \<and> uuid_wf (ck_request_id c) \<and> uuid_wf (ck_target c)
     \<and> (case ck_previous c of None \<Rightarrow> True | Some r \<Rightarrow> uuid_wf r))"

interpretation ck_json: json_record Checkpoint_json "Checkpoint_of_json parse_str"
  "\<lambda>c. uuid_parse_ok parse_str \<and> checkpoint_valid c" for parse_str
proof unfold_locales
  fix c assume c: "uuid_parse_ok parse_str \<and> checkpoint_valid c"
  then have "opt (uuid_of_json parse_str) (Present (opt_json JStr (ck_previous c))) = Some (ck_previous c)"
    by (intro opt_Present_opt_json) (auto simp: checkpoint_valid_def uuid_of_json_JStr)
  moreover have "opt as_str (Present (opt_json JStr (ck_revision c))) = Some (ck_revision c)"
    by (simp add: opt_Present_opt_json)
  ultimately show "Checkpoint_of_json parse_str (Checkpoint_json c) = Some c"
    using c by (simp add: Checkpoint_json_def Checkpoint_of_json_def only_fields_def field_of_def
        checkpoint_valid_def uuid_of_json_JStr)
qed

section \<open>Preparing a checkpoint\<close>

lemma same_outside_clear: "same_outside (below scope) h (snd (clear_markers L scope names h))"
proof (induction names arbitrary: h)
  case (Cons name names)
  have load: "same_outside (below scope) w (snd (State_load L scope p w))" for p w
    by (rule same_outside_read) simp_all
  show ?case
  proof (cases "Option.bind (strip_suffix name ''.json'')
      (\<lambda>s. case RequestId_parse (cr_uuid L) s of Inl _ \<Rightarrow> None | Inr i \<Rightarrow> Some i)")
    case (Some i)
    show ?thesis
      unfolding clear_markers.simps Some option.case
      by (rule same_outside_try_io[OF load])
         (auto intro!: same_outside_try_io same_outside_below_calls Cons.IH)
  qed (simp only: clear_markers.simps option.case snd_conv same_outside_refl)
qed simp

lemma same_outside_prepare:
  assumes "uuid_wf i"
  shows "same_outside (below scope) h (snd (prepare L content scope s i oper t revision h))"
proof -
  have rd: "same_outside (below scope) w (snd (open_managed_dir scope p w))"
      "same_outside (below scope) w (snd (file_names m w))"
      "same_outside (below scope) w (snd (current_release L content s w))" for p m w
    by (rule same_outside_read; simp add: file_names_def io_call_def)+
  have ne: "checkpoint_path i \<noteq> []" using assms by (simp add: checkpoint_path_eq)
  show ?thesis
    unfolding prepare_def
    by (intro same_outside_try_io rd same_outside_clear same_outside_below_calls)
       (auto simp: Let_def same_outside_below_calls(3)[OF ne] split: option.splits)
qed

lemma named_release_outside:
  "same_outside (below scope) h h' \<Longrightarrow> \<not> below scope p \<Longrightarrow> named_release L h' p = named_release L h p"
  by (simp add: same_outside_def named_release_def)

lemma named_release_valid:
  "crates_ok L \<Longrightarrow> named_release L h p = Some (Some r) \<Longrightarrow> uuid_wf r \<and> r \<noteq> nil_uuid"
  using parse_release_target_SomeD[OF crates_okD(2)]
  by (auto simp: named_release_def split: option.splits node.splits)

lemma prepare_Ok:
  assumes "crates_ok L" and "uuid_wf s" and "uuid_wf i" and "uuid_wf t"
    and "\<not> below scope (content @ current_path s)"
    and "prepare L content scope s i oper t revision h = (Ok (), h')"
  obtains prev where "named_release L h (content @ current_path s) = Some prev"
    and "checkpoint_at L scope h' i = Some \<lparr> ck_site_id = s, ck_request_id = i, ck_operation = oper,
           ck_target = t, ck_previous = prev, ck_revision = revision \<rparr>"
proof -
  from assms(6) obtain d1 h1 m h2 names h3 h4 prev h5 b where
      d: "create_dir_all scope recovery_dir h = (Ok d1, h1)" and o: "open_managed_dir scope recovery_dir h1 = (Ok m, h2)"
    and f: "file_names m h2 = (Ok names, h3)" and c: "clear_markers L scope names h3 = (Ok (), h4)"
    and cur: "current_release L content s h4 = (Ok prev, h5)"
    and b: "to_vec (cr_json L) Checkpoint_json \<lparr> ck_site_id = s, ck_request_id = i, ck_operation = oper,
           ck_target = t, ck_previous = prev, ck_revision = revision \<rparr> = Some b"
    and w: "apfst (map_err (\<lambda>_. Rec_Unavailable)) (write_atomic scope (checkpoint_path i) b h5) = (Ok (), h')"
    by (auto simp: prepare_def try_io_Ok_iff Let_def split: option.splits)
  have "same_outside (below scope) h h1" using same_outside_below_calls(1)[of scope h recovery_dir] d by simp
  moreover have "same_outside (below scope) h1 h2"
    using same_outside_read[OF open_dir_same(1,2), of "below scope" h1 scope recovery_dir] o by simp
  moreover have "same_outside (below scope) h2 h3"
    using f by (auto simp: file_names_def io_call_def same_outside_def env'_def env_def next_tick_def node_at_def
        split: if_splits)
  moreover have "same_outside (below scope) h3 h4" using same_outside_clear[of scope h3 L names] c by simp
  ultimately have "same_outside (below scope) h h4" using same_outside_trans by meson
  then have "named_release L h (content @ current_path s) = Some prev"
    using current_release_Ok[OF cur] named_release_outside[OF _ assms(5)] by simp
  moreover have "checkpoint_valid \<lparr> ck_site_id = s, ck_request_id = i, ck_operation = oper,
           ck_target = t, ck_previous = prev, ck_revision = revision \<rparr>"
    using calculation assms(1-4) named_release_valid[OF assms(1), of h "content @ current_path s"]
    by (auto simp: checkpoint_valid_def split: option.splits)
  with ck_json.text_round_trip(1)[of "cr_json L" "cr_uuid L" _ b] crates_okD[OF assms(1)] b
  have parsed: "from_slice (cr_json L) (Checkpoint_of_json (cr_uuid L)) b = Some \<lparr> ck_site_id = s, ck_request_id = i,
      ck_operation = oper, ck_target = t, ck_previous = prev, ck_revision = revision \<rparr>" by blast
  have "write_atomic scope (checkpoint_path i) b h5 = (Ok (), h')"
    using w by (cases "write_atomic scope (checkpoint_path i) b h5") auto
  then have "file_at scope h' (checkpoint_path i) = Some b"
    using managed.replace_ok[of "checkpoint_path i" scope b h5 h'] assms(3) by (simp add: checkpoint_path_eq)
  ultimately show thesis using that parsed by (simp add: checkpoint_at_def)
qed

section \<open>A marker that is no checkpoint\<close>

lemma clear_markers_rejects:
  assumes "name \<in> set names" and "uuid_parse_ok (cr_uuid L)" and "\<And>i. uuid_wf i \<Longrightarrow> name \<noteq> i @ ''.json''"
  shows "fst (clear_markers L scope names h) \<noteq> Ok ()"
  using assms(1)
proof (induction names arbitrary: h)
  case (Cons n names)
  have bad: "Option.bind (strip_suffix name ''.json'')
      (\<lambda>s. case RequestId_parse (cr_uuid L) s of Inl _ \<Rightarrow> None | Inr i \<Rightarrow> Some i) = None"
  proof (cases "strip_suffix name ''.json''")
    case (Some t)
    then have "name = t @ ''.json''" by (rule strip_suffix_SomeD)
    moreover have "RequestId_parse (cr_uuid L) t = Ok i \<Longrightarrow> i = t \<and> uuid_wf i" for i
      using assms(2) by (auto simp: RequestId_parse_def uuid_parse_ok_def split: option.splits if_splits)
    ultimately show ?thesis
      using assms(3) Some by (cases "RequestId_parse (cr_uuid L) t") auto
  qed simp
  show ?case
  proof (cases "n = name")
    case True
    with bad show ?thesis by (simp only: clear_markers.simps option.case fst_conv) simp
  next
    case False
    with Cons have later: "fst (clear_markers L scope names w) \<noteq> Ok ()" for w by simp
    have "fst (clear_markers L scope (n # names) h) = Ok () \<Longrightarrow> \<exists>w. fst (clear_markers L scope names w) = Ok ()"
      by (auto simp: try_io_def simp del: One_nat_def split: option.splits prod.splits sum.splits if_splits)
    with later show ?thesis by blast
  qed
qed simp

lemma clear_markers_keeps:
  assumes "uuid_parse_ok (cr_uuid L)" and "\<And>i. uuid_wf i \<Longrightarrow> q \<noteq> scope @ checkpoint_path i"
  shows "node_at (snd (clear_markers L scope names h)) q = node_at h q"
proof (induction names arbitrary: h)
  case (Cons name names)
  show ?case
  proof (cases "Option.bind (strip_suffix name ''.json'')
      (\<lambda>s. case RequestId_parse (cr_uuid L) s of Inl _ \<Rightarrow> None | Inr i \<Rightarrow> Some i)")
    case (Some i)
    then have "uuid_wf i" using assms(1)
      by (auto simp: bind_eq_Some_conv RequestId_parse_def uuid_parse_ok_def split: sum.splits option.splits if_splits)
    then have rm: "node_at (snd (remove_file scope (checkpoint_path i) w)) q = node_at w q" for w
      by (intro remove_file_frame assms(2))
    show ?thesis
      unfolding clear_markers.simps Some option.case
      by (intro try_io_keeps[where g = "\<lambda>w. node_at w q"]) (simp_all add: try_io_keeps[where g = "\<lambda>w. node_at w q"] rm Cons.IH)
  qed (simp only: clear_markers.simps option.case snd_conv)
qed simp

text \<open>
  A file in the marker directory whose name is not a request's checkpoint, such as the
  temporary file a crashed checkpoint write leaves behind, makes every later preparation fail, and
  preparing does not remove it: from then on no deploy or rollback of the site can start.
\<close>

theorem stray_marker_blocks_site:
  assumes "crates_ok L" and "node_at h (scope @ recovery_dir @ [name]) = Some (File b)" and "utf8_ok name"
    and "\<forall>i. uuid_wf i \<longrightarrow> name \<noteq> i @ ''.json''"
  shows "(\<exists>e. fst (prepare L content scope s i oper t revision h) = Err e)
    \<and> node_at (snd (prepare L content scope s i oper t revision h)) (scope @ recovery_dir @ [name]) = Some (File b)"
proof -
  let ?q = "scope @ recovery_dir @ [name]"
  note ps = crates_okD(2)[OF assms(1)]
  obtain a h1 where d: "create_dir_all scope recovery_dir h = (a, h1)" by fastforce
  have n1: "node_at h1 ?q = Some (File b)" using create_dir_all_keeps[OF assms(2), of scope recovery_dir] d by simp
  obtain c h2 where o: "open_managed_dir scope recovery_dir h1 = (c, h2)" by fastforce
  have n2: "node_at h2 ?q = Some (File b)" using open_dir_same(1)[of scope recovery_dir h1] o n1 by simp
  have dir: "c = Ok m \<Longrightarrow> m = scope @ recovery_dir" for m
    using o by (auto simp: open_managed_dir_def io_call_def split: if_splits option.splits node.splits)
  obtain f h3 where fn: "file_names (scope @ recovery_dir) h2 = (f, h3)" by fastforce
  then have n3: "node_at h3 ?q = Some (File b)"
    using n2 by (auto simp: file_names_def io_call_def split: if_splits)
  have "(?q, File b) \<in> set (tree (next_tick h2))"
    using n2 by (auto simp: node_at_def next_tick_def dest: map_of_SomeD)
  then have listed: "f = Ok names \<Longrightarrow> name \<in> set names" for names
    using assms(3) fn by (force simp: file_names_def io_call_def dir_entries_def is_file_node_def butlast_append
        split: if_splits)
  have keep: "node_at (snd (clear_markers L scope names h3)) ?q = Some (File b)" for names
    using clear_markers_keeps[OF ps, of ?q scope names h3] n3 assms(4)
    by (simp add: checkpoint_path_eq recovery_dir_def)
  show ?thesis
  proof (cases "\<exists>u v names. a = Ok u \<and> c = Ok v \<and> f = Ok names")
    case True
    then obtain u v names where ok: "a = Ok u" "c = Ok v" "f = Ok names" by blast
    then obtain e where "fst (clear_markers L scope names h3) = Err e"
      using clear_markers_rejects[OF listed[OF ok(3)] ps, of scope h3] assms(4)
      by (cases "fst (clear_markers L scope names h3)") auto
    then obtain h4 where "clear_markers L scope names h3 = (Err e, h4)" by (metis prod.collapse)
    moreover from this have "node_at h4 ?q = Some (File b)" using keep[of names] by simp
    ultimately show ?thesis using d o ok dir[OF ok(2)] fn by (simp add: prepare_def)
  next
    case False
    then show ?thesis
      using d o fn n1 n2 n3 dir by (cases a; cases c; cases f) (auto simp: prepare_def)
  qed
qed

text \<open>A host on which the write of the first checkpoint is cut short.\<close>

definition example_checkpoint :: Checkpoint where
  "example_checkpoint = \<lparr> ck_site_id = example_id, ck_request_id = example_id2, ck_operation = ''site.deploy'',
     ck_target = example_id2, ck_previous = None, ck_revision = Some ''f00'' \<rparr>"

definition example_torn_host :: host where
  "example_torn_host = (example_host [([''st''], Dir), ([''srv''], Dir)])\<lparr>fails := (\<lambda>n. n = 6)\<rparr>"

definition example_prepare :: "host \<Rightarrow> (RecoveryError + unit) \<times> host" where
  "example_prepare h = prepare (table_crates [Checkpoint_json example_checkpoint]) [''srv''] [''st''] example_id
     example_id2 ''site.deploy'' example_id2 (Some ''f00'') h"

theorem stray_marker_blocks_site_witness:
  "\<exists>e. fst (example_prepare (snd (example_prepare example_torn_host))) = Err e"
proof -
  have "node_at (snd (example_prepare example_torn_host))
      ([''st''] @ recovery_dir @ [example_id2 @ ''.json.tmp'']) = Some (File [])"
    by code_simp
  moreover have "utf8_ok (example_id2 @ ''.json.tmp'')" by code_simp
  moreover have "example_id2 @ ''.json.tmp'' \<noteq> i @ ''.json''" for i
  proof
    assume "example_id2 @ ''.json.tmp'' = i @ ''.json''"
    then have "last (example_id2 @ ''.json.tmp'') = last (i @ ''.json'')" by (rule arg_cong)
    then show False by simp
  qed
  ultimately show ?thesis
    using stray_marker_blocks_site[of "table_crates [Checkpoint_json example_checkpoint]"
        "snd (example_prepare example_torn_host)" "[''st'']" "example_id2 @ ''.json.tmp''" "[]"]
    by (simp add: example_prepare_def)
qed

section \<open>Recovery decides what happened\<close>

lemma same_outside_recover_locked:
  assumes "uuid_wf i"
  shows "same_outside (below scope) h (snd (recover_locked L content scope s i h))"
proof -
  have rd: "same_outside (below scope) w (snd (State_load L scope p w))"
      "same_outside (below scope) w (snd (load_checkpoint L scope i w))"
      "same_outside (below scope) w (snd (current_release L content s w))" for p w
    by (rule same_outside_read; simp)+
  have ne: "state_path i \<noteq> []" by (simp add: state_path_def)
  have fin: "same_outside (below scope) w (snd (case audit_append L scope audit_path a w of (_, h) \<Rightarrow> (Ok x, h)))"
    for a w and x :: OperationStatus
    using same_outside_below_calls(4)[of scope w L audit_path a] by (simp add: split_beta)
  show ?thesis
    unfolding recover_locked_def
    by (intro same_outside_try_io rd)
       (auto intro!: same_outside_try_io rd same_outside_below_calls(4) same_outside_below_calls(5)[OF ne] fin)
qed

lemma same_outside_lock_below: "same_outside (below scope) h (snd (lock_acquire L scope lock_path i h))"
proof -
  have "preflight_area scope q \<Longrightarrow> below scope q" for q by (auto simp: preflight_area_def)
  then show ?thesis using same_outside_lock[of scope h L i] by (auto simp: same_outside_def)
qed

lemma same_outside_recovery:
  assumes "uuid_wf i" and "uuid_wf s"
  shows "same_outside (below (engine @ site_path s)) h (snd (recovery_execute L content engine s i h))"
  unfolding recovery_execute_def
proof (rule same_outside_try_io)
  show "same_outside (below (engine @ site_path s)) h (snd (open_managed_dir engine (site_path s) h))"
    by (rule same_outside_read) simp_all
  fix scope w assume "open_managed_dir engine (site_path s) h = (Ok scope, w)"
  then have scope: "scope = engine @ site_path s"
    by (auto simp: open_managed_dir_def io_call_def split: if_splits option.splits node.splits)
  have fin: "same_outside (below scope) v (snd (case recover_locked L content scope s i v of (r, h) \<Rightarrow> (r, release g h)))" for v g
    using same_outside_recover_locked[OF assms(1), of scope v L content s] by (simp add: split_beta)
  show "same_outside (below (engine @ site_path s)) w (snd (try_io (lock_acquire L scope lock_path i w)
      (\<lambda>_. Rec_Conflict) (\<lambda>lock h. case recover_locked L content scope s i h of (r, h) \<Rightarrow> (r, release lock h))))"
    unfolding scope[symmetric] by (rule same_outside_try_io[OF same_outside_lock_below fin])
qed

lemma stored_wf:
  assumes "crates_ok L" and "stored L scope h p = Some r"
  shows "uuid_wf (ts_request_id r)" and "ts_schema_version r = STATE_SCHEMA_VERSION"
proof -
  from assms(2) obtain b where d: "State_decode L b = Ok r"
    by (auto simp: stored_def bind_eq_Some_conv split: if_splits sum.splits)
  then show "ts_schema_version r = STATE_SCHEMA_VERSION" by (rule decode_Ok_schema)
  from d show "uuid_wf (ts_request_id r)"
    using crates_okD(2)[OF assms(1)]
    by (auto simp: State_decode_def from_slice_def TransactionState_of_json_def uuid_of_json_def uuid_parse_ok_def
        bind_eq_Some_conv dest!: req_SomeD split: option.splits if_splits)
qed

lemma reconcile_Ok:
  assumes "reconcile w c cur r = Ok r'"
  shows "ts_status r' = (if cur = Some (ck_target c) \<and> ck_previous c \<noteq> Some (ck_target c) then Committed else Failed)"
    and "cur = Some (ck_target c) \<or> cur = ck_previous c"
    and "ts_request_id r' = ts_request_id r" and "ts_operation r' = ts_operation r"
    and "uuid_wf (ts_request_id r) \<Longrightarrow> ts_schema_version r = STATE_SCHEMA_VERSION \<Longrightarrow> state_valid r'"
  using assms
  by (auto simp: reconcile_def mark_committed_def mark_failed_def finish_Ok_iff state_valid_def outcome_valid_def
      recovered_result_def value_map_def split: if_splits)

lemma recover_locked_Ok:
  assumes "crates_ok L" and "stored L scope h (state_path i) = Some r" and "ts_status r = InProgress"
    and "recover_locked L content scope s i h = (Ok st, h')"
  obtains w c cur where "checkpoint_at L scope h i = Some c" and "consistent s i r c"
    and "named_release L h (content @ current_path s) = Some cur"
    and "reconcile w c cur r = Ok (os_transaction st)"
    and "stored L scope h' (state_path i) = Some (os_transaction st)"
proof -
  from assms(4) obtain r0 h1 where ld: "State_load L scope (state_path i) h = (Ok r0, h1)"
    by (auto simp: recover_locked_def try_io_Ok_iff)
  have n1: "node_at h1 = node_at h" using node_at_State_load[of L scope "state_path i" h] ld by simp
  have "r0 = r" using State_load_Ok[OF ld] assms(2) by simp
  with assms(3,4) ld obtain c h2 cur h3 r' h4 h5 x where
      ck: "load_checkpoint L scope i h1 = (Ok c, h2)" and con: "consistent s i r c"
    and cu: "current_release L content s h2 = (Ok cur, h3)" and rc: "reconcile h3 c cur r = Ok r'"
    and sv: "State_save L scope (state_path i) r' h4 = (Ok (), h5)"
    and fin: "h' = snd (audit_append L scope audit_path x h5)" "st = finished_status r'"
    by (auto simp: recover_locked_def try_io_Ok_iff split_beta split: if_splits)
  have n2: "node_at h2 = node_at h1" using load_checkpoint_same(1)[of L scope i h1] ck by simp
  have "checkpoint_at L scope h i = Some c"
    using load_checkpoint_Ok[OF ck] n1 by (simp add: checkpoint_at_def file_at_def)
  moreover have "named_release L h (content @ current_path s) = Some cur"
    using current_release_Ok[OF cu] n1 n2 by (simp add: named_release_def)
  moreover have "stored L scope h5 (state_path i) = Some r'"
    using State_save_Ok[OF sv _ assms(1)] reconcile_Ok(5)[OF rc] stored_wf[OF assms(1,2)] by simp
  moreover have "node_at h' (scope @ state_path i) = node_at h5 (scope @ state_path i)"
    using audit_append_frame[of "scope @ state_path i" scope audit_path L x h5] fin by simp
  ultimately show thesis
    using that[of c cur h3] con rc fin(2) stored_node[of h' scope "state_path i" h5 L]
    by (simp add: finished_status_def)
qed

lemma recovery_execute_Ok:
  assumes "recovery_execute L content engine s i h = (Ok st, h')"
  obtains h1 h2 where "same_outside (below (engine @ site_path s)) h h1"
    and "node_at h1 (engine @ site_path s @ state_path i) = node_at h (engine @ site_path s @ state_path i)"
    and "node_at h1 (engine @ site_path s @ checkpoint_path i) = node_at h (engine @ site_path s @ checkpoint_path i)"
    and "recover_locked L content (engine @ site_path s) s i h1 = (Ok st, h2)" and "node_at h' = node_at h2"
proof -
  let ?scope = "engine @ site_path s"
  from assms obtain scope h0 g h1 where o: "open_managed_dir engine (site_path s) h = (Ok scope, h0)"
    and lk: "lock_acquire L scope lock_path i h0 = (Ok g, h1)"
    and run': "fst (recover_locked L content scope s i h1) = Ok st"
    and h'': "h' = release g (snd (recover_locked L content scope s i h1))"
    by (auto simp: recovery_execute_def try_io_Ok_iff split_beta)
  then obtain h2 where run: "recover_locked L content scope s i h1 = (Ok st, h2)" by (metis prod.collapse)
  with h'' have h': "h' = release g h2" by simp
  have scope: "scope = ?scope" "node_at h0 = node_at h" "env h0 = env h"
    using o by (auto simp: open_managed_dir_def io_call_def split: if_splits option.splits node.splits)
  have lf: "q \<noteq> scope @ lock_path \<Longrightarrow> node_at h1 q = node_at h0 q" for q
    using lock_acquire_frame[of q scope lock_path L i h0] lk by simp
  have "same_outside (below scope) h0 h1" using same_outside_lock_below[of scope h0 L i] lk by simp
  moreover have "same_outside (below scope) h h0" using scope by (simp add: same_outside_def env'_def env_def)
  ultimately have "same_outside (below ?scope) h h1" using same_outside_trans scope(1) by blast
  moreover have "checkpoint_path i \<noteq> lock_path"
  proof -
    have "expect_path (''deployment-recovery/'' @ x) \<noteq> [''locks'', ''mutation.lock'']" for x
      using parse_under[of "''deployment-recovery''" x] 
      by (auto simp: expect_path_def split: sum.splits)
    then show ?thesis by (simp add: checkpoint_path_def lock_path_def)
  qed
  ultimately show thesis
    using that[of h1 h2] lf[of "scope @ state_path i"] lf[of "scope @ checkpoint_path i"] run h' scope by simp
qed

lemma recover_locked_env [host_frame, simp]: "env (snd (recover_locked L content scope s i h)) = env h"
  unfolding recover_locked_def
  by (intro try_io_keeps[where g = env])
     (auto simp: split_beta intro!: try_io_keeps[where g = env])

lemma recovery_flocked: "flocked (snd (recovery_execute L content engine s i h)) = flocked h"
proof -
  have same: "flocked w' = flocked w" if "open_managed_dir engine p w = (r, w')" for p w r w'
    using flocked_env[OF open_dir_same(2)[of engine p w]] that by simp
  show ?thesis
  proof (cases "open_managed_dir engine (site_path s) h")
    case (Pair r h1)
    show ?thesis
    proof (cases r)
      case (Inr scope)
      show ?thesis
      proof (cases rule: lock_acquire_cases[of L scope lock_path i h1])
        case (granted h2)
        have "flocked (snd (recover_locked L content scope s i h2)) = flocked h2"
          by (rule flocked_env) simp
        with granted Pair Inr same[OF Pair] show ?thesis
          by (auto simp: recovery_execute_def split_beta fun_eq_iff)
      next
        case (refused e h2)
        with Pair Inr same[OF Pair] show ?thesis by (simp add: recovery_execute_def)
      qed
    qed (use Pair same[OF Pair] in \<open>simp add: recovery_execute_def\<close>)
  qed
qed

text \<open>
  (C7) Recovery decides correctly whether an interrupted deploy or rollback took effect. Let a
  checkpoint be prepared, and later, wherever the request was interrupted, let its record still be
  in progress, the checkpoint be in place, and \<open>current\<close> name what it named at preparation or the
  target. If recovery then reports a status, it is the committed one exactly when \<open>current\<close> names
  another release than at preparation, and the failed one otherwise; that record is the one on
  disk.
\<close>

theorem recovery_decides_interrupted_switch:
  assumes "crates_ok L" and "uuid_wf s" and "uuid_wf i" and "uuid_wf t" and "t \<noteq> nil_uuid"
    and "\<not> below (engine @ site_path s) (content @ current_path s)"
    and "prepare L content (engine @ site_path s) s i oper t revision h0 = (Ok (), h1)"
    and "node_at h2 (engine @ site_path s @ checkpoint_path i) = node_at h1 (engine @ site_path s @ checkpoint_path i)"
    and "node_at h2 (content @ current_path s) \<in> {node_at h0 (content @ current_path s), Some (Symlink (''releases/'' @ t))}"
    and "stored L (engine @ site_path s) h2 (state_path i) = Some r" and "ts_status r = InProgress"
    and "recovery_execute L content engine s i h2 = (Ok st, h3)"
  shows "ts_status (os_transaction st) =
      (if named_release L h2 (content @ current_path s) = named_release L h0 (content @ current_path s)
       then Failed else Committed)
    \<and> stored L (engine @ site_path s) h3 (state_path i) = Some (os_transaction st)"
proof -
  let ?scope = "engine @ site_path s" and ?cur = "content @ current_path s"
  obtain prev where prev: "named_release L h0 ?cur = Some prev"
      "checkpoint_at L ?scope h1 i = Some \<lparr> ck_site_id = s, ck_request_id = i, ck_operation = oper,
           ck_target = t, ck_previous = prev, ck_revision = revision \<rparr>"
    using prepare_Ok[OF assms(1-4) assms(6,7)] by blast
  obtain g1 g2 where g: "same_outside (below ?scope) h2 g1"
      "node_at g1 (engine @ site_path s @ state_path i) = node_at h2 (engine @ site_path s @ state_path i)"
      "node_at g1 (engine @ site_path s @ checkpoint_path i) = node_at h2 (engine @ site_path s @ checkpoint_path i)"
      "recover_locked L content ?scope s i g1 = (Ok st, g2)" "node_at h3 = node_at g2"
    using recovery_execute_Ok[OF assms(12)] by blast
  have "stored L ?scope g1 (state_path i) = Some r"
    using assms(10) g(2) stored_node[of g1 ?scope "state_path i" h2 L] by simp
  from recover_locked_Ok[OF assms(1) this assms(11) g(4)] obtain w c cur where
      c: "checkpoint_at L ?scope g1 i = Some c" "named_release L g1 ?cur = Some cur"
        "reconcile w c cur r = Ok (os_transaction st)" "stored L ?scope g2 (state_path i) = Some (os_transaction st)"
    by blast
  have "checkpoint_at L ?scope g1 i = checkpoint_at L ?scope h1 i"
    using g(3) assms(8) by (simp add: checkpoint_at_def file_at_def)
  with c(1) prev(2) have ck: "ck_target c = t" "ck_previous c = prev" by auto
  have cur: "named_release L h2 ?cur = Some cur" using named_release_outside[OF g(1) assms(6)] c(2) by simp
  have "named_release L h2 ?cur = named_release L h0 ?cur \<or> named_release L h2 ?cur = Some (Some t)"
    using assms(9) parse_release_target[OF crates_okD(2)[OF assms(1)] assms(4,5)] by (auto simp: named_release_def)
  then have "ts_status (os_transaction st) = (if named_release L h2 ?cur = named_release L h0 ?cur then Failed else Committed)"
    using reconcile_Ok(1)[OF c(3)] ck cur prev(1) by auto
  moreover have "stored L ?scope h3 (state_path i) = Some (os_transaction st)"
    using c(4) g(5) stored_cong by metis
  ultimately show ?thesis by blast
qed

text \<open>A deploy interrupted right after the switch.\<close>

definition example_open_record :: TransactionState where
  "example_open_record = TransactionState_start (example_host []) example_id2 None ''site.deploy''"

definition example_recovery_crates :: crates where
  "example_recovery_crates = table_crates
     [Checkpoint_json example_checkpoint, TransactionState_json example_open_record,
      LockRecord_json \<lparr> lr_schema_version = LOCK_SCHEMA_VERSION, lr_holder = example_id2, lr_acquired_at = 0 \<rparr>,
      AuditRecord_json (audit_mutation_start (example_host []) example_id2 None RECOVERY_OPERATION),
      TransactionState_json (case mark_committed (example_host []) (recovered_result (example_host []) example_checkpoint)
        example_open_record of Inr s \<Rightarrow> s | Inl _ \<Rightarrow> example_open_record)]"

definition example_open_host :: host where
  "example_open_host = (let scope = [''st'', ''sites'', example_id] in example_host
     [([''st''], Dir), ([''st'', ''sites''], Dir), (scope, Dir), (scope @ [''locks''], Dir),
      (scope @ [''transactions''], Dir), (scope @ [''audit''], Dir),
      (scope @ [''transactions'', example_id2 @ ''.json''], File ''a''), ([''srv''], Dir)])"

definition example_prepared :: "(RecoveryError + unit) \<times> host" where
  "example_prepared = prepare example_recovery_crates [''srv''] [''st'', ''sites'', example_id] example_id
     example_id2 ''site.deploy'' example_id2 (Some ''f00'') example_open_host"

definition example_interrupted :: host where
  "example_interrupted = set_node [''srv'', ''sites'', example_id, ''current'']
     (Symlink (''releases/'' @ example_id2)) (snd example_prepared)"

definition example_recovered :: "(RecoveryError + OperationStatus) \<times> host" where
  "example_recovered = recovery_execute example_recovery_crates [''srv''] [''st''] example_id example_id2 example_interrupted"

lemma example_recovery_runs:
  "is_ok (fst example_prepared)" "is_ok (fst example_recovered)"
  "stored example_recovery_crates [''st'', ''sites'', example_id] example_interrupted (state_path example_id2)
     = Some example_open_record"
  "node_at example_open_host [''srv'', ''sites'', example_id, ''current''] = None"
  by code_simp+

theorem recovery_decides_interrupted_switch_witness:
  "\<exists>st. fst example_recovered = Ok st \<and> ts_status (os_transaction st) = Committed"
proof -
  have paths: "site_path example_id = [''sites'', example_id]" "current_path example_id = [''sites'', example_id, ''current'']"
    by (simp_all add: release_paths[OF example_id_wf example_id_wf])
  have ne: "example_id2 \<noteq> nil_uuid" by (simp add: example_id2_def nil_uuid_def)
  obtain h1 where p: "example_prepared = (Ok (), h1)"
    using is_ok_pair[OF example_recovery_runs(1)] by auto
  obtain st h3 where st: "example_recovered = (Ok st, h3)"
    using is_ok_pair[OF example_recovery_runs(2)] by auto
  have cur: "node_at example_interrupted [''srv'', ''sites'', example_id, ''current''] = Some (Symlink (''releases/'' @ example_id2))"
    by (simp add: example_interrupted_def)
  have "parse_release_symlink_target canonical_uuid (''releases/'' @ example_id2) = Some example_id2"
    using parse_release_target[OF canonical_uuid_ok example_id2_wf ne] .
  then have changed: "named_release example_recovery_crates example_interrupted [''srv'', ''sites'', example_id, ''current'']
      \<noteq> named_release example_recovery_crates example_open_host [''srv'', ''sites'', example_id, ''current'']"
    using cur example_recovery_runs(4) by (simp add: named_release_def example_recovery_crates_def table_crates_def)
  have "ts_status (os_transaction st) =
      (if named_release example_recovery_crates example_interrupted ([''srv''] @ current_path example_id)
          = named_release example_recovery_crates example_open_host ([''srv''] @ current_path example_id)
       then Failed else Committed)
    \<and> stored example_recovery_crates ([''st''] @ site_path example_id) h3 (state_path example_id2) = Some (os_transaction st)"
  proof (rule recovery_decides_interrupted_switch[where i = example_id2 and t = example_id2 and r = example_open_record])
    show "prepare example_recovery_crates [''srv''] ([''st''] @ site_path example_id) example_id example_id2
        ''site.deploy'' example_id2 (Some ''f00'') example_open_host = (Ok (), h1)"
      using p by (simp add: example_prepared_def paths)
    show "recovery_execute example_recovery_crates [''srv''] [''st''] example_id example_id2 example_interrupted = (Ok st, h3)"
      using st by (simp add: example_recovered_def)
    show "node_at example_interrupted ([''st''] @ site_path example_id @ checkpoint_path example_id2)
        = node_at h1 ([''st''] @ site_path example_id @ checkpoint_path example_id2)"
      unfolding example_interrupted_def p by (simp add: paths checkpoint_path_eq)
  qed (use example_recovery_runs cur ne in \<open>simp_all add: paths below_def path_starts_with_def\<close>,
      simp_all add: example_recovery_crates_def example_open_record_def TransactionState_start_def)
  with changed have "ts_status (os_transaction st) = Committed" by (simp add: paths)
  then show ?thesis unfolding st by simp
qed

text \<open>
  Recovery only records. Whatever it finds and however it ends, it changes no entry outside
  the state directory of the site, so neither \<open>current\<close> nor any release, and it leaves every lock as
  it found it.
\<close>

theorem recovery_only_records:
  assumes "uuid_wf s" and "uuid_wf i"
  shows "(\<forall>q. \<not> below (engine @ site_path s) q \<longrightarrow>
      node_at (snd (recovery_execute L content engine s i h)) q = node_at h q)
    \<and> flocked (snd (recovery_execute L content engine s i h)) = flocked h"
  using same_outside_recovery[OF assms(2,1), of engine h L content] recovery_flocked[of L content engine s i h]
  by (simp add: same_outside_def)

theorem recovery_only_records_witness:
  "node_at (snd example_recovered) [''srv'', ''sites'', example_id, ''current''] = Some (Symlink (''releases/'' @ example_id2))"
proof -
  have "\<not> below ([''st''] @ site_path example_id) [''srv'', ''sites'', example_id, ''current'']"
    by (simp add: below_def path_starts_with_def release_paths[OF example_id_wf example_id_wf])
  then have "node_at (snd example_recovered) [''srv'', ''sites'', example_id, ''current'']
      = node_at example_interrupted [''srv'', ''sites'', example_id, ''current'']"
    using recovery_only_records[of example_id example_id2 "[''st'']" example_recovery_crates "[''srv'']" example_interrupted]
    by (simp add: example_recovered_def)
  then show ?thesis by (simp add: example_interrupted_def)
qed

end
