(* ===== verification/Staging.thy ===== *)
theory Staging
  imports Recovery
begin

text \<open>
  The steps of a deploy between admission and activation: which revisions may be deployed
  (\<open>src/src/deploy/resolve.rs\<close>), staging a release under the site's own identity
  (\<open>src/src/deploy/staging.rs\<close>) and checking the staged checkout (\<open>src/src/deploy/validate.rs\<close>).
  Every external program is run through \<open>Process.run\<close> with the \<open>programs\<close> parameter. Ownership of
  files is not part of the host, so \<open>chown\<close> is a call that may fail and has no other effect.
\<close>

section \<open>Paths as arguments\<close>

definition path_text :: "path \<Rightarrow> string" where
  "path_text p = slash # join_with slash p"

text \<open>\<open>Path::display\<close> and \<open>to_string_lossy\<close>.\<close>

definition path_display :: "path \<Rightarrow> string" where
  "path_display p = from_utf8_lossy (path_text p)"

definition ssh_command_config :: "path \<Rightarrow> string" where
  "ssh_command_config identity_file =
     ''core.sshCommand=ssh -i '' @ path_display identity_file
     @ '' -o IdentitiesOnly=yes -o StrictHostKeyChecking=accept-new''"

definition limits_of :: "nat \<Rightarrow> nat \<Rightarrow> ProcessLimits" where
  "limits_of seconds bound =
     \<lparr> timeout_ms = seconds * 1000, max_stdout_bytes = bound, max_stderr_bytes = bound \<rparr>"

section \<open>Resolving the requested revision\<close>

datatype ResolveError =
    Res_InvalidRemoteUrl
  | Res_Run ProcessRunError
  | Res_NotAuthorized
  | Res_SubprocessFailed SubprocessDiagnostics

definition ls_remote_args :: "string \<Rightarrow> string list \<Rightarrow> path option \<Rightarrow> string list" where
  "ls_remote_args remote_url allowed_branches identity_file =
     (case identity_file of None \<Rightarrow> [] | Some p \<Rightarrow> [''-c'', ssh_command_config p])
     @ [''ls-remote'', ''--'', remote_url] @ map (\<lambda>branch. ''refs/heads/'' @ branch) allowed_branches"

definition matched_branch :: "string \<Rightarrow> bytes \<Rightarrow> string option" where
  "matched_branch revision out =
     find_map (\<lambda>line. case split_once tab line of
         None \<Rightarrow> None
       | Some (sha, reference) \<Rightarrow>
           if sha = revision then strip_prefix reference ''refs/heads/'' else None)
       (lines (from_utf8_lossy out))"

definition resolve_allowed_revision ::
  "programs \<Rightarrow> string \<Rightarrow> string list \<Rightarrow> string \<Rightarrow> path option \<Rightarrow> host \<Rightarrow> (ResolveError + string) \<times> host" where
  "resolve_allowed_revision P remote_url allowed_branches revision identity_file h =
     (if starts_with remote_url ''-'' then (Err Res_InvalidRemoteUrl, h)
      else
        try_io (run P (with_args (ls_remote_args remote_url allowed_branches identity_file) (ProcessRequest_new ''git''))
                  (limits_of 20 (64 * 1024)) h) Res_Run (\<lambda>out h.
        if \<not> exited_ok out then (Err (Res_SubprocessFailed (diagnostics_from_output ''git'' out)), h)
        else (case matched_branch revision (co_bytes (po_stdout out)) of
            None \<Rightarrow> (Err Res_NotAuthorized, h)
          | Some branch \<Rightarrow> (Ok branch, h))))"

section \<open>The site's identity\<close>

record SiteIdentity =
  si_uid :: u32
  si_gid :: u32

datatype IdentityError = Id_Run ProcessRunError | Id_Lookup SubprocessDiagnostics | Id_Parse

definition run_id :: "programs \<Rightarrow> string \<Rightarrow> string \<Rightarrow> host \<Rightarrow> (IdentityError + u32) \<times> host" where
  "run_id P flag site_user h =
     try_io (run P (with_args [flag, ''--'', site_user] (ProcessRequest_new ''id'')) (limits_of 5 1024) h) Id_Run
       (\<lambda>out h.
        if \<not> exited_ok out then (Err (Id_Lookup (diagnostics_from_output ''id'' out)), h)
        else (case parse_u32 (trim (from_utf8_lossy (co_bytes (po_stdout out)))) of
            None \<Rightarrow> (Err Id_Parse, h)
          | Some n \<Rightarrow> (Ok n, h)))"

definition resolve_site_identity :: "programs \<Rightarrow> string \<Rightarrow> host \<Rightarrow> (IdentityError + SiteIdentity) \<times> host" where
  "resolve_site_identity P site_user h =
     try_io (run_id P ''-u'' site_user h) id (\<lambda>uid h.
     try_io (run_id P ''-g'' site_user h) id (\<lambda>gid h.
       (Ok \<lparr> si_uid = uid, si_gid = gid \<rparr>, h)))"

section \<open>Staging a release\<close>

datatype StagingError =
    Stg_InvalidRemoteUrl
  | Stg_Io io_error
  | Stg_AlreadyExists
  | Stg_Ownership io_error
  | Stg_Clone ProcessRunError
  | Stg_CloneFailed SubprocessDiagnostics
  | Stg_RevisionMismatch
  | Stg_Verify ProcessRunError

record StagedRelease =
  sr_release_id :: ReleaseId
  sr_relative_path :: path
  sr_absolute_path :: path

definition clone_args :: "path \<Rightarrow> string \<Rightarrow> string \<Rightarrow> path option \<Rightarrow> string list" where
  "clone_args target remote_url branch identity_file =
     (case identity_file of None \<Rightarrow> [] | Some p \<Rightarrow> [''-c'', ssh_command_config p])
     @ [''clone'', ''--branch'', branch, ''--single-branch'', ''--'', remote_url, path_display target]"

definition clone_as ::
  "programs \<Rightarrow> path \<Rightarrow> SiteIdentity \<Rightarrow> string \<Rightarrow> string \<Rightarrow> path option \<Rightarrow> host \<Rightarrow> (StagingError + unit) \<times> host" where
  "clone_as P target identity remote_url branch identity_file h =
     try_io (run P (run_as (si_uid identity) (si_gid identity)
                     (with_args (clone_args target remote_url branch identity_file) (ProcessRequest_new ''git'')))
               (limits_of 300 (64 * 1024)) h) Stg_Clone (\<lambda>out h.
       if exited_ok out then (Ok (), h) else (Err (Stg_CloneFailed (diagnostics_from_output ''git'' out)), h))"

definition verify_head ::
  "programs \<Rightarrow> path \<Rightarrow> SiteIdentity \<Rightarrow> string \<Rightarrow> host \<Rightarrow> (StagingError + unit) \<times> host" where
  "verify_head P target identity revision h =
     try_io (run P (run_as (si_uid identity) (si_gid identity)
                     (with_args [''-C'', path_display target, ''rev-parse'', ''HEAD''] (ProcessRequest_new ''git'')))
               (limits_of 5 1024) h) Stg_Verify (\<lambda>out h.
       if trim (from_utf8_lossy (co_bytes (po_stdout out))) = revision then (Ok (), h)
       else (Err Stg_RevisionMismatch, h))"

definition chown :: "path \<Rightarrow> u32 \<Rightarrow> u32 \<Rightarrow> host \<Rightarrow> unit io" where
  "chown p uid gid h = io_call h (\<lambda>h. if node_at h p = None then (Err IoNotFound, h) else (Ok (), h))"

definition staging_prepare ::
  "programs \<Rightarrow> path \<Rightarrow> SiteId \<Rightarrow> ReleaseId \<Rightarrow> SiteIdentity \<Rightarrow> string \<Rightarrow> string \<Rightarrow> string \<Rightarrow> path option \<Rightarrow> host
     \<Rightarrow> (StagingError + StagedRelease) \<times> host" where
  "staging_prepare P content_root site_id release_id identity remote_url branch revision identity_file h =
     (if starts_with remote_url ''-'' then (Err Stg_InvalidRemoteUrl, h)
      else
        try_io (ManagedRoot_open content_root h) Stg_Io (\<lambda>managed h.
        try_io (create_dir_all managed (releases_path site_id) h) Stg_Io (\<lambda>_ h.
        try_io (create_dir managed (release_path site_id release_id) h)
          (\<lambda>e. if e = IoAlreadyExists then Stg_AlreadyExists else Stg_Io e) (\<lambda>_ h.
        try_io (resolve_existing_path content_root (release_path site_id release_id) h) (\<lambda>_. Stg_Io IoOther)
          (\<lambda>release_absolute h.
        try_io (chown release_absolute (si_uid identity) (si_gid identity) h) Stg_Ownership (\<lambda>_ h.
        try_io (clone_as P release_absolute identity remote_url branch identity_file h) id (\<lambda>_ h.
        try_io (verify_head P release_absolute identity revision h) id (\<lambda>_ h.
          (Ok \<lparr> sr_release_id = release_id, sr_relative_path = release_path site_id release_id,
                sr_absolute_path = release_absolute \<rparr>, h)))))))))"

section \<open>Validating the checkout\<close>

datatype ValidateError =
    Val_Run ProcessRunError
  | Val_Corrupt SubprocessDiagnostics
  | Val_DirtyWorkingTree SubprocessDiagnostics

definition run_git :: "programs \<Rightarrow> path \<Rightarrow> SiteIdentity \<Rightarrow> string list \<Rightarrow> host \<Rightarrow> (ProcessRunError + ProcessOutput) \<times> host" where
  "run_git P checkout identity args h =
     run P (run_as (si_uid identity) (si_gid identity)
              (with_args args (with_args [''-C'', path_display checkout] (ProcessRequest_new ''git''))))
       (limits_of 60 (64 * 1024)) h"

definition run_check ::
  "programs \<Rightarrow> path \<Rightarrow> SiteIdentity \<Rightarrow> string list \<Rightarrow> (SubprocessDiagnostics \<Rightarrow> ValidateError) \<Rightarrow> host
     \<Rightarrow> (ValidateError + unit) \<times> host" where
  "run_check P checkout identity args on_failure h =
     try_io (run_git P checkout identity args h) Val_Run (\<lambda>out h.
       if exited_ok out then (Ok (), h) else (Err (on_failure (diagnostics_from_output ''git'' out)), h))"

definition validate_staged_release :: "programs \<Rightarrow> path \<Rightarrow> SiteIdentity \<Rightarrow> host \<Rightarrow> (ValidateError + unit) \<times> host" where
  "validate_staged_release P checkout identity h =
     try_io (run_check P checkout identity [''fsck'', ''--no-progress'', ''--no-dangling''] Val_Corrupt h) id (\<lambda>_ h.
     try_io (run_git P checkout identity [''status'', ''--porcelain''] h) Val_Run (\<lambda>status h.
       if \<not> exited_ok status then (Err (Val_DirtyWorkingTree (diagnostics_from_output ''git'' status)), h)
       else if co_bytes (po_stdout status) \<noteq> [] then (Err (Val_DirtyWorkingTree (diagnostics_from_output ''git'' status)), h)
       else (Ok (), h)))"

section \<open>What the programs may touch\<close>

text \<open>
  \<open>git clone\<close>, \<open>rev-parse\<close>, \<open>fsck\<close> and \<open>status\<close> run with the site's identity, \<open>id\<close> and \<open>git ls-remote\<close> with
  the engine's own. \<open>confined A P\<close> is what the properties rely on: a program leaves every entry outside
  \<open>A\<close> and the kernel's lock table as they are. The area the properties take for \<open>A\<close> is \<open>staging_area\<close>
  below: it holds the release and everything outside the content root, for instance the \<open>known_hosts\<close>
  that \<open>ssh\<close>, which \<open>git\<close> starts with \<open>accept-new\<close>, may write for the user it runs as.
\<close>

definition confined :: "(path \<Rightarrow> bool) \<Rightarrow> programs \<Rightarrow> bool" where
  "confined A P \<longleftrightarrow> (\<forall>c h. same_outside A h (snd (P c h)) \<and> flocked (snd (P c h)) = flocked h)"

definition kept :: "(path \<Rightarrow> bool) \<Rightarrow> host \<Rightarrow> host \<Rightarrow> bool" where
  "kept A h h' \<longleftrightarrow> same_outside A h h' \<and> flocked h' = flocked h"

lemma kept_refl [simp]: "kept A h h"
  by (simp add: kept_def)

lemma kept_trans: "kept A h h' \<Longrightarrow> kept A h' h'' \<Longrightarrow> kept A h h''"
  by (simp add: kept_def same_outside_def)

lemma kept_mono: "kept A h h' \<Longrightarrow> (\<And>q. A q \<Longrightarrow> B q) \<Longrightarrow> kept B h h'"
  by (auto simp: kept_def same_outside_def)

lemma kept_try_io:
  assumes "kept A h (snd r)" and "\<And>x w. r = (Ok x, w) \<Longrightarrow> kept A w (snd (k x w))"
  shows "kept A h (snd (try_io r f k))"
proof (cases rule: try_io_cases[of r f k])
  case (error e w)
  with assms(1) show ?thesis by simp
next
  case (ok x w)
  with assms(1) have "kept A h w" by simp
  with assms(2)[OF ok(1)] ok(2) show ?thesis using kept_trans by metis
qed

lemma kept_read: "node_at (snd r) = node_at h \<Longrightarrow> env (snd r) = env h \<Longrightarrow> kept A h (snd r)"
  using flocked_env[of "snd r" h] by (simp add: kept_def same_outside_read)

lemma kept_node: "env (snd r) = env h \<Longrightarrow> (\<And>q. \<not> A q \<Longrightarrow> node_at (snd r) q = node_at h q) \<Longrightarrow> kept A h (snd r)"
  using flocked_env[of "snd r" h] by (simp add: kept_def same_outside_node)

lemma kept_run: "confined A P \<Longrightarrow> kept A h (snd (run P r l h))"
  by (simp add: confined_def kept_def run_def Let_def split_beta)

section \<open>Frames of the steps\<close>

lemma kept_resolve: "confined A P \<Longrightarrow> kept A h (snd (resolve_allowed_revision P u bs rv f h))"
  by (auto simp: resolve_allowed_revision_def intro!: kept_try_io kept_run split: option.splits)

lemma kept_run_id: "confined A P \<Longrightarrow> kept A h (snd (run_id P fl u h))"
  by (auto simp: run_id_def intro!: kept_try_io kept_run split: option.splits)

lemma kept_identity: "confined A P \<Longrightarrow> kept A h (snd (resolve_site_identity P u h))"
  by (auto simp: resolve_site_identity_def intro!: kept_try_io kept_run_id)

lemma kept_validate: "confined A P \<Longrightarrow> kept A h (snd (validate_staged_release P d i h))"
  by (auto simp: validate_staged_release_def run_check_def run_git_def intro!: kept_try_io kept_run)

lemma kept_clone: "confined A P \<Longrightarrow> kept A h (snd (clone_as P d i u b f h))"
  by (auto simp: clone_as_def intro!: kept_try_io kept_run)

lemma kept_verify: "confined A P \<Longrightarrow> kept A h (snd (verify_head P d i rv h))"
  by (auto simp: verify_head_def intro!: kept_try_io kept_run)

lemma canonicalize_same [host_frame, simp]:
  "node_at (snd (canonicalize p h)) = node_at h" "env (snd (canonicalize p h)) = env h"
  by (simp_all add: canonicalize_def io_call_def split: option.splits)

lemma resolve_existing_path_same [host_frame, simp]:
  "node_at (snd (resolve_existing_path root p h)) = node_at h" "env (snd (resolve_existing_path root p h)) = env h"
  by (auto simp: resolve_existing_path_def intro!: try_io_keeps[where g = node_at] try_io_keeps[where g = env])

lemma chown_same [host_frame, simp]:
  "node_at (snd (chown p u g h)) = node_at h" "env (snd (chown p u g h)) = env h"
  by (simp_all add: chown_def io_call_def)

text \<open>
  Where a staging step and the programs it runs may write: the directories from \<open>sites\<close> down to the
  release, below the release, and anywhere outside the content root.
\<close>

definition staging_area :: "path \<Rightarrow> SiteId \<Rightarrow> ReleaseId \<Rightarrow> path \<Rightarrow> bool" where
  "staging_area content s r q \<longleftrightarrow>
     q \<in> site_dirs content s \<or> q = content @ [''sites'', s, ''releases''] \<or> below (release_dir content s r) q
     \<or> \<not> below content q"

lemma kept_staging:
  assumes "confined (staging_area content s r) P" and "uuid_wf s" and "uuid_wf r"
  shows "kept (staging_area content s r) h (snd (staging_prepare P content s r i u b rv f h))"
proof -
  note paths = release_paths[OF assms(2,3)]
  have open_root: "kept A w (snd (ManagedRoot_open content w))" for A w
    by (rule kept_read) simp_all
  have dirs: "kept (staging_area content s r) w (snd (create_dir_all content (releases_path s) w))" for w
    unfolding paths
    by (rule kept_node) (auto intro!: create_dir_all_frame
        simp: staging_area_def site_dirs_def Cons_eq_append_conv append_eq_Cons_conv)
  have dir: "kept (staging_area content s r) w (snd (create_dir content (release_path s r) w))" for w
    unfolding paths
    by (rule kept_node) (auto simp: create_dir_def io_call_def staging_area_def release_dir_def below_def path_starts_with_def)
  have reads: "kept A w (snd (resolve_existing_path content p w))" "kept A w (snd (chown d x y w))" for A p w d x y
    by (rule kept_read; simp)+
  show ?thesis
    unfolding staging_prepare_def
    using assms(1)
    by (auto intro!: kept_try_io open_root dirs dir reads kept_clone kept_verify dest!: managed_open_Ok)
qed

section \<open>What a successful step has seen\<close>

text \<open>The listing \<open>git ls-remote\<close> prints: one object id and reference per line.\<close>

definition print_refs :: "(string \<times> string) list \<Rightarrow> bytes" where
  "print_refs refs = concat (map (\<lambda>(sha, reference). sha @ tab # reference @ [line_feed]) refs)"

definition printable_ref :: "string \<times> string \<Rightarrow> bool" where
  "printable_ref sr = (case sr of (sha, reference) \<Rightarrow>
     list_all is_ascii_graphic sha \<and> list_all is_ascii_graphic reference \<and> reference \<noteq> [])"

lemma graphic_char: "is_ascii_graphic c \<Longrightarrow> c \<noteq> tab \<and> c \<noteq> line_feed \<and> c \<noteq> carriage_return \<and> byte_of c \<le> 127"
  by (auto simp: is_ascii_graphic_def byte_of_def)

lemma lines_print_refs:
  "list_all printable_ref refs \<Longrightarrow> lines (print_refs refs) = map (\<lambda>(sha, reference). sha @ tab # reference) refs"
proof (induction refs)
  case (Cons sr refs)
  obtain sha reference where sr: "sr = (sha, reference)" by fastforce
  from Cons(2) sr have g: "list_all is_ascii_graphic sha" "list_all is_ascii_graphic reference" "reference \<noteq> []"
    by (simp_all add: printable_ref_def)
  let ?l = "sha @ tab # reference"
  have "line_feed \<notin> set ?l" "last ?l \<noteq> carriage_return"
    using g graphic_char last_in_set[of reference] by (auto simp: list_all_iff)
  then have "lines (?l @ line_feed # print_refs refs) = ?l # lines (print_refs refs)"
    by (intro lines_append) auto
  with Cons sr show ?case by (simp add: print_refs_def)
qed (simp add: print_refs_def)

lemma ascii_print_refs: "list_all printable_ref refs \<Longrightarrow> list_all (\<lambda>c. byte_of c \<le> 127) (print_refs refs)"
proof (induction refs)
  case (Cons sr refs)
  then show ?case
    using graphic_char by (cases sr) (auto simp: print_refs_def printable_ref_def list_all_iff byte_of_def)
qed (simp add: print_refs_def)

lemma find_map_map: "find_map f (map g xs) = find_map (\<lambda>x. f (g x)) xs"
  by (induction xs) (auto split: option.splits)

lemma find_map_cong: "(\<And>x. x \<in> set xs \<Longrightarrow> f x = g x) \<Longrightarrow> find_map f xs = find_map g xs"
  by (induction xs) (auto split: option.splits)

lemma matched_branch_printed:
  assumes "list_all printable_ref refs"
  shows "matched_branch revision (print_refs refs) =
    find_map (\<lambda>(sha, reference). if sha = revision then strip_prefix reference ''refs/heads/'' else None) refs"
proof -
  have "split_once tab (sha @ tab # reference) = Some (sha, reference)" if "(sha, reference) \<in> set refs" for sha reference
  proof (rule split_once_append)
    have "list_all is_ascii_graphic sha" using that assms by (auto simp: list_all_iff printable_ref_def)
    then show "tab \<notin> set sha" using graphic_char by (auto simp: list_all_iff)
  qed
  then show ?thesis
    unfolding matched_branch_def from_utf8_lossy_ascii[OF ascii_print_refs[OF assms]] lines_print_refs[OF assms]
      find_map_map
    by (intro find_map_cong) (auto split: prod.splits)
qed

text \<open>
  What the engine relies on of \<open>git ls-remote\<close> (git's manual: the references matching one of the
  patterns are listed). A pattern without wildcards matches a reference that is the pattern or that
  ends with it after a slash. \<open>lists_refs P refs_of\<close>: a run that succeeds and whose output was not cut
  prints exactly the matching references among \<open>refs_of url\<close>, those the remote has.
\<close>

definition literal_pattern :: "string \<Rightarrow> bool" where
  "literal_pattern p \<longleftrightarrow> list_all (\<lambda>c. c \<notin> {CHR ''*'', CHR ''?'', CHR ''['', CHR 0x5C}) p"

definition ref_matches :: "string \<Rightarrow> string \<Rightarrow> bool" where
  "ref_matches pattern reference \<longleftrightarrow> reference = pattern \<or> ends_with reference (slash # pattern)"

definition listed_refs :: "string list \<Rightarrow> (string \<times> string) list \<Rightarrow> (string \<times> string) list" where
  "listed_refs patterns refs = filter (\<lambda>(sha, reference). patterns = [] \<or> list_ex (\<lambda>p. ref_matches p reference) patterns) refs"

definition lists_refs :: "programs \<Rightarrow> (string \<Rightarrow> (string \<times> string) list) \<Rightarrow> bool" where
  "lists_refs P refs_of \<longleftrightarrow> (\<forall>options url patterns limits h out h'.
     (options = [] \<or> (\<exists>c. options = [''-c'', c])) \<longrightarrow> list_all literal_pattern patterns \<longrightarrow>
     run P (with_args (options @ [''ls-remote'', ''--'', url] @ patterns) (ProcessRequest_new ''git'')) limits h = (Ok out, h') \<longrightarrow>
     exited_ok out \<longrightarrow> \<not> co_truncated (po_stdout out) \<longrightarrow>
     co_bytes (po_stdout out) = print_refs (listed_refs patterns (refs_of url)))"

lemma ls_remote_printed:
  assumes "lists_refs P refs_of" and "list_all literal_pattern branches"
    and "run P (with_args (ls_remote_args url branches identity_file) (ProcessRequest_new ''git'')) limits h = (Ok out, h')"
    and "exited_ok out" and "\<not> co_truncated (po_stdout out)"
  shows "co_bytes (po_stdout out) = print_refs (listed_refs (map (\<lambda>b. ''refs/heads/'' @ b) branches) (refs_of url))"
proof -
  define options where "options = (case identity_file of None \<Rightarrow> [] | Some p \<Rightarrow> [''-c'', ssh_command_config p])"
  have "options = [] \<or> (\<exists>c. options = [''-c'', c])" by (simp add: options_def split: option.split)
  moreover have "list_all literal_pattern (map (\<lambda>b. ''refs/heads/'' @ b) branches)"
    using assms(2) by (simp add: list_all_iff literal_pattern_def)
  moreover have "run P (with_args (options @ [''ls-remote'', ''--'', url] @ map (\<lambda>b. ''refs/heads/'' @ b) branches)
      (ProcessRequest_new ''git'')) limits h = (Ok out, h')"
    using assms(3) by (simp only: ls_remote_args_def options_def)
  ultimately show ?thesis using assms(1,4,5) unfolding lists_refs_def by blast
qed

lemma strip_prefix_iff: "strip_prefix r p = Some b \<longleftrightarrow> r = p @ b"
  by (auto simp: strip_prefix_def starts_with_def split: if_splits) (metis append_take_drop_id)

text \<open>A branch the remote has, and one the patterns built from the allowed branches let through.\<close>

definition tip_of :: "(string \<times> string) list \<Rightarrow> string \<Rightarrow> string \<Rightarrow> bool" where
  "tip_of refs revision branch \<longleftrightarrow> (revision, ''refs/heads/'' @ branch) \<in> set refs"

definition let_through :: "string list \<Rightarrow> string \<Rightarrow> bool" where
  "let_through allowed branch \<longleftrightarrow>
     list_ex (\<lambda>b. branch = b \<or> branch = ''refs/heads/'' @ b \<or> ends_with branch (''/refs/heads/'' @ b)) allowed"

lemma tail_after_heads:
  "ends_with (''refs/heads/'' @ branch) (''/refs/heads/'' @ b) \<longleftrightarrow>
     branch = ''refs/heads/'' @ b \<or> ends_with branch (''/refs/heads/'' @ b)"
proof
  assume "ends_with (''refs/heads/'' @ branch) (''/refs/heads/'' @ b)"
  then obtain t where t: "''refs/heads/'' @ branch = t @ ''/refs/heads/'' @ b" unfolding ends_with_iff by blast
  then have "branch = ''refs/heads/'' @ b \<or> (\<exists>t. branch = t @ ''/refs/heads/'' @ b)"
    by (auto simp: Cons_eq_append_conv)
  then show "branch = ''refs/heads/'' @ b \<or> ends_with branch (''/refs/heads/'' @ b)"
    unfolding ends_with_iff by blast
next
  assume "branch = ''refs/heads/'' @ b \<or> ends_with branch (''/refs/heads/'' @ b)"
  then show "ends_with (''refs/heads/'' @ branch) (''/refs/heads/'' @ b)"
  proof
    assume "branch = ''refs/heads/'' @ b"
    then have "''refs/heads/'' @ branch = ''refs/heads'' @ ''/refs/heads/'' @ b" by simp
    then show ?thesis unfolding ends_with_iff by blast
  next
    assume "ends_with branch (''/refs/heads/'' @ b)"
    then show ?thesis unfolding ends_with_iff by (metis append.assoc)
  qed
qed

lemma listed_branch:
  "allowed \<noteq> [] \<Longrightarrow> (sha, ''refs/heads/'' @ branch) \<in> set (listed_refs (map (\<lambda>b. ''refs/heads/'' @ b) allowed) refs)
     \<longleftrightarrow> tip_of refs sha branch \<and> let_through allowed branch"
  using tail_after_heads[of branch]
  by (auto simp: listed_refs_def tip_of_def let_through_def ref_matches_def list_ex_iff)


text \<open>
  A \<open>git\<close> in front of a remote with three branches, which prints the matching ones. One of them has a
  name that ends with the full name of an allowed branch.
\<close>

definition example_refs :: "(string \<times> string) list" where
  "example_refs = [(''aa11'', ''refs/heads/main''), (''bb22'', ''refs/heads/next''),
     (''cc33'', ''refs/heads/x/refs/heads/main'')]"

definition example_programs :: programs where
  "example_programs c h =
     (example_child [Ok (print_refs (listed_refs
        (if take 1 (cmd_args c) = [''-c''] then drop 5 (cmd_args c) else drop 3 (cmd_args c)) example_refs))], h)"

lemma example_child_started: "spawn_retrying_busy (example_child reads) 1 = Ok ()"
proof -
  have "\<exists>m \<in> {1..SPAWN_ATTEMPTS}. ch_spawn (example_child reads) m = Spawned
      \<and> (\<forall>k \<in> {1..<m}. ch_spawn (example_child reads) k = TextBusy)"
    by (rule bexI[of _ 3]) (auto simp: example_child_def SPAWN_ATTEMPTS_def)
  moreover have "(1::nat) \<le> SPAWN_ATTEMPTS" by (simp add: SPAWN_ATTEMPTS_def)
  ultimately show ?thesis using spawn_from[of 1 "example_child reads"] by blast
qed

lemma example_child_exits:
  assumes "22 < timeout_ms limits"
  shows "supervise limits (example_child reads) 0 = Ok (Exited (Some 0) True)"
proof -
  have go: "supervise limits (example_child reads) n = supervise limits (example_child reads) (Suc n)" if "n < 2" for n
    using that assms by (subst supervise.simps) (simp add: example_child_def elapsed_ms_def POLL_MS_def)
  have "supervise limits (example_child reads) 2 = Ok (Exited (Some 0) True)"
    using assms by (subst supervise.simps) (simp add: example_child_def elapsed_ms_def POLL_MS_def)
  then show ?thesis using go[of 0] go[of "Suc 0"] by (simp add: numeral_2_eq_2)
qed

lemma example_child_runs:
  assumes "22 < timeout_ms limits" and "length b \<le> max_stdout_bytes limits" and "b \<noteq> []"
  shows "spawn_and_supervise limits (example_child [Ok b]) =
    Ok \<lparr> po_termination = Exited (Some 0) True, po_stdout = \<lparr> co_bytes = b, co_truncated = False \<rparr>,
         po_stderr = \<lparr> co_bytes = [], co_truncated = False \<rparr> \<rparr>"
proof -
  have "join_capture (map_option (capture (max_stdout_bytes limits)) (ch_stdout (example_child [Ok b])))
      = Ok \<lparr> co_bytes = b, co_truncated = False \<rparr>"
    using assms(2,3) by (simp add: example_child_def join_capture_def capture_def)
  moreover have "join_capture (map_option (capture n) (ch_stderr (example_child [Ok b])))
      = Ok \<lparr> co_bytes = [], co_truncated = False \<rparr>" for n
    by (simp add: example_child_def join_capture_def capture_def)
  moreover have "ch_stdout_pipe (example_child [Ok b])" "ch_stderr_pipe (example_child [Ok b])"
    by (simp_all add: example_child_def)
  ultimately show ?thesis
    using example_child_started[of "[Ok b]"] example_child_exits[OF assms(1), of "[Ok b]"]
    by (simp add: spawn_and_supervise_def)
qed

lemma example_child_output:
  assumes "spawn_and_supervise limits (example_child [Ok b]) = Ok out" and "\<not> co_truncated (po_stdout out)"
  shows "co_bytes (po_stdout out) = b"
proof -
  let ?s = "join_capture (map_option (capture (max_stdout_bytes limits)) (ch_stdout (example_child [Ok b])))"
  from assms(1) have "?s = Ok (po_stdout out)"
    unfolding spawn_and_supervise_def by (auto simp: bind_ok_Ok_iff split: if_split_asm)
  with assms(2) show ?thesis
    by (cases "po_stdout out") (auto simp: example_child_def join_capture_def capture_def Let_def split: if_splits)
qed

lemma example_lists_refs: "lists_refs example_programs (\<lambda>_. example_refs)"
  unfolding lists_refs_def
proof (intro allI impI)
  fix options url patterns limits h out h'
  let ?r = "with_args (options @ [''ls-remote'', ''--'', url] @ patterns) (ProcessRequest_new ''git'')"
  let ?b = "print_refs (listed_refs patterns example_refs)"
  assume o: "options = [] \<or> (\<exists>c. options = [''-c'', c])" and run: "run example_programs ?r limits h = (Ok out, h')"
    and cut: "\<not> co_truncated (po_stdout out)"
  have "cmd_args (build_command ?r) = options @ [''ls-remote'', ''--'', url] @ patterns"
    by (simp add: build_command_def with_args_def ProcessRequest_new_def)
  with o have "run example_programs ?r limits h = (spawn_and_supervise limits (example_child [Ok ?b]), h)"
    by (auto simp: run_def example_programs_def)
  with run have "spawn_and_supervise limits (example_child [Ok ?b]) = Ok out" by simp
  from example_child_output[OF this cut] show "co_bytes (po_stdout out) = ?b" .
qed

definition example_output :: ProcessOutput where
  "example_output = \<lparr> po_termination = Exited (Some 0) True,
     po_stdout = \<lparr> co_bytes = print_refs (listed_refs [''refs/heads/main''] example_refs), co_truncated = False \<rparr>,
     po_stderr = \<lparr> co_bytes = [], co_truncated = False \<rparr> \<rparr>"

lemma example_run:
  "run example_programs (with_args (ls_remote_args ''git@example.com:a/b.git'' [''main''] None) (ProcessRequest_new ''git''))
     (limits_of 20 (64 * 1024)) h = (Ok example_output, h)"
proof -
  let ?b = "print_refs (listed_refs [''refs/heads/main''] example_refs)"
  have "?b \<noteq> []" "length ?b \<le> 300" by code_simp+
  then have "?b \<noteq> []" "length ?b \<le> 64 * 1024" by simp_all
  then show ?thesis
    by (simp add: run_def example_programs_def example_child_runs limits_of_def example_output_def
        build_command_def with_args_def ProcessRequest_new_def ls_remote_args_def)
qed


end
