(* ===== verification/Switching.thy ===== *)
theory Switching
  imports Staging
begin

text \<open>
  What \<open>site.deploy\<close> and \<open>site.rollback\<close> share: how a failed attempt is recorded, the cancellation
  check before the commit point, and the contract of an operation that switches the release of a
  site. The locale \<open>switching\<close> states the contract over the steps of an operation, from its checkpoint
  to the switch, and derives from it that the whole operation is all or nothing; the two operations
  interpret it.
\<close>

section \<open>Recording a failure\<close>

text \<open>What \<open>fail\<close> does before it hands the error back: both persistence steps may fail silently.\<close>

definition record_failure ::
  "crates \<Rightarrow> ManagedRoot \<Rightarrow> RequestId \<Rightarrow> TransactionState \<Rightarrow> ErrorCode \<times> string \<Rightarrow> host \<Rightarrow> host" where
  "record_failure L site_state request_id state code_message h =
     (let state = (case mark_failed h (fst code_message) (snd code_message) state of Inr s \<Rightarrow> s | Inl _ \<Rightarrow> state);
          h = snd (State_save L site_state (state_path request_id) state h)
      in snd (audit_append L site_state audit_path
               (audit_result h (ts_request_id state) False (Some (fst code_message))) h))"

section \<open>Checks before the commit point\<close>

definition precommit_check :: "(nat \<Rightarrow> bool) \<Rightarrow> 'e \<Rightarrow> host \<Rightarrow> ('e + unit) \<times> host" where
  "precommit_check cancel e h = (map_err (\<lambda>_. e) (PreCommit_check (PreCommit cancel) (tick h)), h)"

section \<open>The way to the switch\<close>

text \<open>
  A chain of steps that either stops with an error or arrives at its last call, having changed
  nothing outside \<open>A\<close> on the way.
\<close>

definition arrives :: "(path \<Rightarrow> bool) \<Rightarrow> (host \<Rightarrow> ('e + 'a) \<times> host) \<Rightarrow> host \<Rightarrow> ('e + 'a) \<times> host \<Rightarrow> bool" where
  "arrives A last_call h res \<longleftrightarrow>
     (\<exists>e h1. res = (Err e, h1) \<and> kept A h h1) \<or> (\<exists>h1. kept A h h1 \<and> res = last_call h1)"

lemma arrives_here: "arrives A last_call h (last_call h)"
  unfolding arrives_def using kept_refl by blast

lemma arrives_try_io:
  assumes "kept A h (snd r)" and "\<And>x w. r = (Ok x, w) \<Longrightarrow> arrives A last_call w (k x w)"
  shows "arrives A last_call h (try_io r f k)"
proof (cases rule: try_io_cases[of r f k])
  case (error e w)
  with assms(1) show ?thesis by (auto simp: arrives_def)
next
  case (ok x w)
  with assms(1) have "kept A h w" by simp
  with assms(2)[OF ok(1)] show ?thesis unfolding ok(2) arrives_def by (meson kept_trans)
qed

lemma kept_check: "kept A h (snd (precommit_check cancel e h))"
  by (simp add: precommit_check_def)

lemma kept_prepare: "uuid_wf i \<Longrightarrow> kept (below scope) h (snd (prepare L content scope s i oper t revision h))"
proof -
  assume i: "uuid_wf i"
  have rd: "env (snd (file_names m w)) = env w" for m w by (simp add: file_names_def io_call_def)
  have cm: "env (snd (clear_markers L scope names w)) = env w" for names w
  proof (induction names arbitrary: w)
    case (Cons n ns)
    then show ?case by (auto split: option.splits intro!: try_io_keeps[where g = env])
  qed simp
  have "env (snd (prepare L content scope s i oper t revision h)) = env h"
    unfolding prepare_def
    by (auto simp: rd cm Let_def intro!: try_io_keeps[where g = env] split: option.splits)
  from flocked_env[OF this] same_outside_prepare[OF i, of scope h L content s oper t revision] show ?thesis
    by (simp add: kept_def)
qed

lemma below_trans: "below a b \<Longrightarrow> below b q \<Longrightarrow> below a q"
  by (auto simp: below_def path_starts_with_iff)

lemma activate_flocked: "activate L c s r h = (x, h') \<Longrightarrow> flocked h' = flocked h"
  using flocked_env[OF activate_env[of L c s r h]] by simp

section \<open>Which errors a chain can end in\<close>

definition errs :: "('e \<Rightarrow> bool) \<Rightarrow> ('e + 'a) \<times> host \<Rightarrow> bool" where
  "errs P res = (case fst res of Inl e \<Rightarrow> P e | Inr _ \<Rightarrow> True)"

lemma errs_any [simp]: "errs (\<lambda>_. True) res"
  by (simp add: errs_def split: sum.splits)

lemma errs_Ok [simp]: "errs P (Ok x, h)"
  by (simp add: errs_def)

lemma errs_try_io:
  assumes "errs (\<lambda>e. P (f e)) r" and "\<And>x w. r = (Ok x, w) \<Longrightarrow> errs P (k x w)"
  shows "errs P (try_io r f k)"
proof (cases rule: try_io_cases[of r f k])
  case (error e w)
  with assms(1) show ?thesis by (simp add: errs_def)
next
  case (ok x w)
  with assms(2) show ?thesis by simp
qed

lemma errs_check [simp]: "P e \<Longrightarrow> errs P (precommit_check cancel e h)"
  by (simp add: errs_def precommit_check_def map_err_def split: sum.splits)

section \<open>The state directory of a site\<close>

lemma kept_env: "same_outside A h h' \<Longrightarrow> env h' = env h \<Longrightarrow> kept A h h'"
  using flocked_env[of h' h] by (simp add: kept_def)

lemma open_managed_Ok: "open_managed_dir r p h = (Ok d, h') \<Longrightarrow> d = r @ p"
  by (auto simp: open_managed_dir_def io_call_def split: if_splits option.splits node.splits)

lemma open_site_state_Ok:
  assumes "open_site_state engine s h = (Ok scope, h')"
  shows "scope = engine @ site_path s"
  using assms by (auto simp: open_site_state_def site_path_def Let_def try_io_Ok_iff dest: open_managed_Ok)

lemma kept_create_dirs: "kept (below engine) h (snd (create_dir_all (engine @ p) q h))"
proof (rule kept_mono)
  show "kept (below (engine @ p)) h (snd (create_dir_all (engine @ p) q h))"
    by (rule kept_env[OF same_outside_below_calls(1)]) simp
  show "below engine x" if "below (engine @ p) x" for x using that below_trans below_append by blast
qed

lemma file_at_open_site [host_frame]: "file_at r (snd (open_site_state engine s h)) = file_at r h"
  unfolding open_site_state_def Let_def
  by (intro try_io_keeps[where g = "file_at r"]) (simp_all add: file_at_cong[OF node_at_read_only(7)])

lemma kept_open_site: "kept (below engine) h (snd (open_site_state engine s h))"
proof -
  have o: "kept (below engine) w (snd (open_managed_dir engine p w))" for p w by (rule kept_read) simp_all
  have c: "kept (below engine) w (snd (create_dir_all scope q w))"
    if "open_managed_dir engine p v = (Ok scope, v')" for scope p q v v' w
    using kept_create_dirs[of engine w p q] open_managed_Ok[OF that] by simp
  show ?thesis
    unfolding open_site_state_def Let_def
    by (intro kept_try_io o) (auto intro!: kept_try_io c kept_create_dirs[where p = "[]", simplified] o)
qed

lemma kept_failure: "kept (below scope) h (record_failure L scope i s cm h)"
proof -
  have ne: "state_path i \<noteq> []" by (simp add: state_path_def)
  have sv: "kept (below scope) w (snd (State_save L scope (state_path i) t w))" for t w
    by (rule kept_env[OF same_outside_below_calls(5)[OF ne]]) simp
  have au: "kept (below scope) w (snd (audit_append L scope audit_path a w))" for a w
    by (rule kept_env[OF same_outside_below_calls(4)]) simp
  show ?thesis unfolding record_failure_def Let_def using sv au kept_trans by blast
qed

lemma cur_outside_engine:
  assumes "apart content engine"
  shows "\<not> below engine (content @ p)"
  using assms below_append unfolding apart_def by blast

lemma kept_node_at: "kept A h h' \<Longrightarrow> \<not> A q \<Longrightarrow> node_at h' q = node_at h q"
  by (simp add: kept_def same_outside_def)

section \<open>The contract of a switch\<close>

text \<open>
  \<open>switched\<close>: the link named \<open>prev\<close> (or no release) before and names \<open>target\<close> after. \<open>recorded\<close>: the
  record of the request on disk is the committed one with the given result.
\<close>

definition switched :: "crates \<Rightarrow> path \<Rightarrow> ReleaseId \<Rightarrow> ReleaseId option \<Rightarrow> host \<Rightarrow> host \<Rightarrow> bool" where
  "switched L cur target prev h h' \<longleftrightarrow>
     named_release L h cur = Some prev \<and> named_release L h' cur = Some (Some target)"

definition recorded :: "crates \<Rightarrow> ManagedRoot \<Rightarrow> host \<Rightarrow> RequestId \<Rightarrow> json \<Rightarrow> bool" where
  "recorded L scope h i result \<longleftrightarrow> (\<exists>s. stored L scope h (state_path i) = Some s
     \<and> ts_request_id s = i \<and> ts_status s = Committed
     \<and> ts_outcome s = Some \<lparr> oc_ok = True, oc_result = Some result, oc_error_code = None, oc_error_message = None \<rparr>)"

text \<open>
  What a replay answers from: on the host before the operation, the idempotency key of the request
  resolved to a request whose record is a committed one with a result that reads as the answer.
\<close>

definition replayed_from ::
  "crates \<Rightarrow> ManagedRoot \<Rightarrow> IdempotencyKey option \<Rightarrow> host \<Rightarrow> (json \<Rightarrow> bool) \<Rightarrow> bool" where
  "replayed_from L scope key h reads \<longleftrightarrow> (\<exists>k j t oc v. key = Some k \<and> owner L scope h k = Some j
     \<and> stored L scope h (state_path j) = Some t \<and> ts_status t = Committed
     \<and> ts_outcome t = Some oc \<and> oc_result oc = Some v \<and> reads v)"

lemma switched_cong:
  assumes "node_at h0 cur = node_at h cur" and "node_at h1' cur = node_at h' cur"
  shows "switched L cur target prev h h' = switched L cur target prev h0 h1'"
  using assms by (simp add: switched_def named_release_def)

lemma recorded_saved:
  assumes "crates_ok L" and "preflight_run L scope i key oper w = (Ok (Proceed a), w')" and "uuid_wf i"
    and "mark_committed h v (ad_state a) = Ok s" and "v \<noteq> JNull"
    and "State_save L scope (state_path i) s h1 = (Ok (), h2)"
  shows "recorded L scope h2 i v"
proof -
  note p = admitted_promise[OF assms(2,1,3)]
  have s: "s = (ad_state a)\<lparr>ts_status := Committed, ts_outcome := Some \<lparr> oc_ok = True, oc_result = Some v,
      oc_error_code = None, oc_error_message = None \<rparr>, ts_finished_at := Some (unix_now_secs h)\<rparr>"
    using assms(4) by (auto simp: mark_committed_def finish_Ok_iff)
  have "state_valid s"
    using stored_wf[OF assms(1) p(4)] assms(5) by (simp add: s state_valid_def outcome_valid_def)
  from State_save_Ok[OF assms(6) _ assms(1) this] p(6) show ?thesis
    unfolding recorded_def by (intro exI[of _ s]) (simp add: s)
qed

lemma preflight_area_below: "preflight_area root q \<Longrightarrow> below root q"
  using below_append[of root] unfolding preflight_area_def by blast

section \<open>A chain that ends in the switch\<close>

definition deploy_area :: "path \<Rightarrow> path \<Rightarrow> SiteId \<Rightarrow> ReleaseId \<Rightarrow> path \<Rightarrow> bool" where
  "deploy_area scope content s r q \<longleftrightarrow> below scope q \<or> staging_area content s r q"

lemma cur_outside:
  assumes "apart content engine" and "uuid_wf s"
  shows "\<not> below (engine @ p) (content @ current_path s)"
    and "\<not> deploy_area (engine @ p) content s r (content @ current_path s)"
proof -
  have "\<not> below engine (content @ current_path s)" using assms(1) below_append unfolding apart_def by blast
  then show *: "\<not> below (engine @ p) (content @ current_path s)" using below_trans below_append by blast
  have "content @ current_path s = cur_link content s" using assms(2) by (simp add: link_paths)
  then show "\<not> deploy_area (engine @ p) content s r (content @ current_path s)"
    using * below_append[of content "current_path s"] by (auto simp: deploy_area_def staging_area_def release_dir_def cur_link_def below_def path_starts_with_iff
        site_dirs_def)
qed

lemma arrives_switches:
  assumes "crates_ok L" and "uuid_wf s" and "uuid_wf r" and "r \<noteq> nil_uuid"
    and "\<not> A (content @ current_path s)"
    and "arrives A (\<lambda>h. try_io (activate L content s r h) f (\<lambda>p h. (Ok p, h))) h (x, h')"
  shows "flocked h' = flocked h \<and> (case x of
      Inl e \<Rightarrow> node_at h' (content @ current_path s) = node_at h (content @ current_path s)
    | Inr prev \<Rightarrow> switched L (content @ current_path s) r prev h h')"
proof -
  let ?cur = "content @ current_path s"
  note cl = link_paths(1)[OF assms(2,3), of content]
  have at: "node_at h1 ?cur = node_at h ?cur" "flocked h1 = flocked h" if "kept A h h1" for h1
    using that assms(5) by (simp_all add: kept_def same_outside_def)
  consider e where "x = Err e" "kept A h h'"
    | h1 where "kept A h h1" "(x, h') = try_io (activate L content s r h1) f (\<lambda>p h. (Ok p, h))"
    using assms(6) unfolding arrives_def by (elim disjE exE conjE) simp_all
  then show ?thesis
  proof cases
    case 1
    with at[OF 1(2)] show ?thesis by simp
  next
    case (2 h1)
    obtain a h2 where a: "activate L content s r h1 = (a, h2)" by fastforce
    have h': "h' = h2" "x = map_err f a" using 2(2) unfolding a by (cases a; simp)+
    have "case a of Inl e \<Rightarrow> node_at h2 ?cur = node_at h1 ?cur | Inr prev \<Rightarrow> switched L ?cur r prev h1 h2"
      using assms(2,3)
    proof (cases rule: activate_cases[where L = L and content = content and h = h1])
      case (failed e g)
      with a have "a = Err e" "h2 = g" by auto
      with failed show ?thesis by (simp add: cl)
    next
      case (switched prev g)
      with a have "a = Ok prev" "h2 = g" by auto
      with switched show ?thesis
        using parse_release_target[OF crates_okD(2)[OF assms(1)] assms(3,4)] by (simp add: cl named_release_def switched_def)
    qed
    then show ?thesis
      using at[OF 2(1)] h' activate_flocked[OF a] switched_cong[of h ?cur h1 h2 h2 L r "projr a"]
      by (cases a) simp_all
  qed
qed

locale switching =
  fixes admissible :: "'m \<Rightarrow> bool"
    and L :: "'m \<Rightarrow> crates" and content engine :: "'m \<Rightarrow> path" and site :: "'m \<Rightarrow> SiteId" and i :: "'m \<Rightarrow> RequestId"
    and cur scope :: "'m \<Rightarrow> path"
    and key :: "'m \<Rightarrow> IdempotencyKey option" and operation :: string and target :: "'m \<Rightarrow> ReleaseId"
    and steps :: "'m \<Rightarrow> ManagedRoot \<Rightarrow> host \<Rightarrow> ('e + ReleaseId option) \<times> host"
    and replay :: "'m \<Rightarrow> ManagedRoot \<Rightarrow> RequestId \<Rightarrow> host \<Rightarrow> ('e + 'r) or_panic \<times> host"
    and refuse_io :: "io_error \<Rightarrow> 'e" and refuse :: "PreflightError \<Rightarrow> 'e" and unrecorded :: "'r \<Rightarrow> StateError \<Rightarrow> 'e"
    and protocol :: "'e \<Rightarrow> ErrorCode \<times> string"
    and result :: "'m \<Rightarrow> ReleaseId option \<Rightarrow> u64 \<Rightarrow> 'r" and result_json :: "'r \<Rightarrow> json"
    and conclude :: "'m \<Rightarrow> ManagedRoot \<Rightarrow> Admitted \<Rightarrow> ReleaseId option \<Rightarrow> host \<Rightarrow> ('e + 'r) or_panic \<times> host"
    and execute :: "'m \<Rightarrow> host \<Rightarrow> ('e + 'r) or_panic \<times> host"
  assumes cur_eq: "cur m = content m @ current_path (site m)" and scope_eq: "scope m = engine m @ site_path (site m)"
    and libraries: "admissible m \<Longrightarrow> crates_ok (L m)" and site_wf: "admissible m \<Longrightarrow> uuid_wf (site m)"
    and request_wf: "admissible m \<Longrightarrow> uuid_wf (i m)" and target_wf: "admissible m \<Longrightarrow> uuid_wf (target m)"
    and roots_apart: "admissible m \<Longrightarrow> apart (content m) (engine m)"
    and steps_switch: "admissible m \<Longrightarrow> steps m (scope m) h = (x, h') \<Longrightarrow>
      flocked h' = flocked h \<and> (case x of Inl e \<Rightarrow> node_at h' (cur m) = node_at h (cur m)
        | Inr prev \<Rightarrow> switched (L m) (cur m) (target m) prev h h')"
    and replay_reads: "node_at (snd (replay m root j h)) = node_at h" "env (snd (replay m root j h)) = env h"
    and result_present: "result_json r \<noteq> JNull"
    and conclude_eq: "conclude m root a prev h =
      (let r = result m prev (unix_now_secs h) in
       (case mark_committed h (result_json r) (ad_state a) of
          Inl _ \<Rightarrow> (Panics, h)
        | Inr state \<Rightarrow>
            (case State_save (L m) root (state_path (i m)) state h of
               (Inl cause, h) \<Rightarrow> (Returns (Err (unrecorded r cause)), release (ad_lock a) h)
             | (Inr _, h) \<Rightarrow>
                 let h = snd (audit_append (L m) root audit_path (audit_result h (i m) True None) h);
                     h = release (ad_lock a) h;
                     h = snd (prune_old_releases (L m) (content m) (site m) (target m) DEFAULT_RETAIN_COUNT h)
                 in (Returns (Ok r), h))))"
    and execute_eq: "admissible m \<Longrightarrow> execute m h =
      (case open_site_state (engine m) (site m) h of
         (Inl e, h) \<Rightarrow> (Returns (Err (refuse_io e)), h)
       | (Inr root, h) \<Rightarrow>
           (case preflight_run (L m) root (i m) (key m) operation h of
              (Inl e, h) \<Rightarrow> (Returns (Err (refuse e)), h)
            | (Inr (Replay original), h) \<Rightarrow> replay m root original h
            | (Inr (Proceed admitted), h) \<Rightarrow>
                (case steps m root h of
                   (Inl e, h) \<Rightarrow>
                     (Returns (Err e), release (ad_lock admitted) (record_failure (L m) root (i m) (ad_state admitted) (protocol e) h))
                 | (Inr previous, h) \<Rightarrow> conclude m root admitted previous h)))"
begin

lemma cur_elsewhere: "admissible m \<Longrightarrow> \<not> below (engine m) (cur m)" "admissible m \<Longrightarrow> \<not> below (scope m) (cur m)"
proof -
  assume "admissible m"
  with cur_outside_engine[OF roots_apart] show *: "\<not> below (engine m) (cur m)" by (simp add: cur_eq)
  then show "\<not> below (scope m) (cur m)"
    using below_trans[of "engine m" "scope m" "cur m"] below_append[of "engine m"] by (auto simp: scope_eq)
qed

lemma saved_keeps_link:
  assumes "admissible m"
  shows "node_at (snd (State_save (L m) (scope m) (state_path j) s h)) (cur m) = node_at h (cur m)"
    and "node_at (snd (audit_append (L m) (scope m) audit_path a h)) (cur m) = node_at h (cur m)"
  using same_outside_below_calls(5)[of "state_path j" "scope m" h "L m" s] cur_elsewhere(2)[OF assms]
    same_outside_below_calls(4)[of "scope m" h "L m" audit_path a]
  by (simp_all add: same_outside_def state_path_def)

lemma retention_keeps:
  assumes "admissible m"
  shows "node_at (snd (prune_old_releases (L m) (content m) (site m) (target m) k h)) (cur m) = node_at h (cur m)"
    and "node_at (snd (prune_old_releases (L m) (content m) (site m) (target m) k h)) (scope m @ p) = node_at h (scope m @ p)"
    and "flocked (snd (prune_old_releases (L m) (content m) (site m) (target m) k h)) = flocked h"
proof -
  have cur: "\<not> below (release_dir (content m) (site m) r) (cur m)" for r
    using link_paths(1)[OF site_wf[OF assms] target_wf[OF assms], of "content m"]
    by (auto simp: cur_eq release_dir_def cur_link_def below_def path_starts_with_iff)
  have eng: "\<not> below (release_dir (content m) (site m) r) (scope m @ p)" for r
  proof
    assume "below (release_dir (content m) (site m) r) (scope m @ p)"
    then have "below (content m) (engine m @ site_path (site m) @ p)"
      unfolding release_dir_def scope_eq append_assoc using below_trans below_append by blast
    with roots_apart[OF assms] below_append show False unfolding apart_def by blast
  qed
  note fr = prune_old_frame[OF crates_okD(2)[OF libraries[OF assms]] site_wf[OF assms], of "target m" "content m" _ k h]
  show "node_at (snd (prune_old_releases (L m) (content m) (site m) (target m) k h)) (cur m) = node_at h (cur m)"
    by (rule fr(1)[OF cur])
  show "node_at (snd (prune_old_releases (L m) (content m) (site m) (target m) k h)) (scope m @ p) = node_at h (scope m @ p)"
    by (rule fr(1)[OF eng])
  show "flocked (snd (prune_old_releases (L m) (content m) (site m) (target m) k h)) = flocked h"
    by (rule flocked_env[OF fr(2)[OF cur]])
qed

lemma conclude_effect:
  assumes ok: "admissible m" and run: "preflight_run (L m) (scope m) (i m) (key m) oper w = (Ok (Proceed a), w')"
    and end': "conclude m (scope m) a prev h = (out, h')"
  shows "flocked h' = (flocked h)(ad_lock a := False)"
    and "node_at h' (cur m) = node_at h (cur m)"
    and "(\<exists>c. out = Returns (Err (unrecorded (result m prev (unix_now_secs h)) c)))
      \<or> out = Returns (Ok (result m prev (unix_now_secs h)))
        \<and> recorded (L m) (scope m) h' (i m) (result_json (result m prev (unix_now_secs h)))"
proof -
  let ?scope = "scope m" and ?r = "result m prev (unix_now_secs h)"
  note p = admitted_promise[OF run libraries[OF ok] request_wf[OF ok]]
  obtain s where s: "mark_committed h (result_json ?r) (ad_state a) = Ok s"
    using p(5) by (simp add: mark_committed_def finish_def)
  obtain x h1 where sv: "State_save (L m) ?scope (state_path (i m)) s h = (x, h1)" by fastforce
  have k1: "node_at h1 (cur m) = node_at h (cur m)" using saved_keeps_link(1)[OF ok, of "i m" s h] sv by simp
  have f1: "flocked h1 = flocked h" using flocked_env[of h1 h] State_env(2)[of "L m" ?scope "state_path (i m)" s h] sv by simp
  have "flocked h' = (flocked h)(ad_lock a := False)
    \<and> node_at h' (cur m) = node_at h (cur m)
    \<and> ((\<exists>c. out = Returns (Err (unrecorded ?r c))) \<or> out = Returns (Ok ?r) \<and> recorded (L m) ?scope h' (i m) (result_json ?r))"
  proof (cases x)
    case (Inl c)
    with end' s sv k1 f1 show ?thesis by (auto simp: conclude_eq Let_def)
  next
    case (Inr u)
    let ?h2 = "snd (audit_append (L m) ?scope audit_path (audit_result h1 (i m) True None) h1)"
    let ?h3 = "snd (prune_old_releases (L m) (content m) (site m) (target m) DEFAULT_RETAIN_COUNT (release (ad_lock a) ?h2))"
    have out: "out = Returns (Ok ?r)" "h' = ?h3" using end' s sv Inr by (simp_all add: conclude_eq Let_def)
    have "recorded (L m) ?scope h1 (i m) (result_json ?r)"
      using recorded_saved[OF libraries[OF ok] run request_wf[OF ok] s result_present] sv Inr by simp
    moreover have "node_at ?h3 (?scope @ state_path (i m)) = node_at h1 (?scope @ state_path (i m))"
      using retention_keeps(2)[OF ok, of DEFAULT_RETAIN_COUNT "release (ad_lock a) ?h2" "state_path (i m)"]
        audit_append_frame[of "?scope @ state_path (i m)" ?scope audit_path "L m" "audit_result h1 (i m) True None" h1] by simp
    ultimately have "recorded (L m) ?scope ?h3 (i m) (result_json ?r)"
      using stored_node[of ?h3 ?scope "state_path (i m)" h1 "L m"] by (simp add: recorded_def)
    moreover have "flocked ?h3 = (flocked h)(ad_lock a := False)"
      using retention_keeps(3)[OF ok] flocked_env[OF audit_append_env[of "L m" ?scope audit_path "audit_result h1 (i m) True None" h1]] f1 by simp
    moreover have "node_at ?h3 (cur m) = node_at h (cur m)"
      using retention_keeps(1)[OF ok] saved_keeps_link(2)[OF ok, of "audit_result h1 (i m) True None" h1] k1 by simp
    ultimately show ?thesis using out by simp
  qed
  then show "flocked h' = (flocked h)(ad_lock a := False)"
    and "node_at h' (cur m) = node_at h (cur m)"
    and "(\<exists>c. out = Returns (Err (unrecorded ?r c))) \<or> out = Returns (Ok ?r) \<and> recorded (L m) ?scope h' (i m) (result_json ?r)"
    by blast+
qed

text \<open>The ways the whole operation ends; every one leaves the locks as they were.\<close>

lemma execute_cases:
  assumes ok: "admissible m" and run: "execute m h = (out, h')"
  obtains (refused) e where "out = Returns (Err e)" "e \<in> range refuse_io \<union> range refuse"
      "node_at h' (cur m) = node_at h (cur m)" "flocked h' = flocked h"
  | (replayed) k j t w where "key m = Some k" "owner (L m) (scope m) h k = Some j"
      "stored (L m) (scope m) h (state_path j) = Some t" "stored (L m) (scope m) w (state_path j) = Some t"
      "replay m (scope m) j w = (out, h')"
      "node_at h' (cur m) = node_at h (cur m)" "flocked h' = flocked h"
  | (failed) e w w' a where "steps m (scope m) w = (Err e, w')" "out = Returns (Err e)"
      "node_at h' (cur m) = node_at h (cur m)" "flocked h' = flocked h"
      "preflight_run (L m) (scope m) (i m) (key m) operation (snd (open_site_state (engine m) (site m) h)) = (Ok (Proceed a), w)"
  | (committed) prev t w a where "switched (L m) (cur m) (target m) prev h h'" "flocked h' = flocked h"
      "preflight_run (L m) (scope m) (i m) (key m) operation (snd (open_site_state (engine m) (site m) h)) = (Ok (Proceed a), w)"
      "(\<exists>c. out = Returns (Err (unrecorded (result m prev t) c)))
        \<or> out = Returns (Ok (result m prev t)) \<and> recorded (L m) (scope m) h' (i m) (result_json (result m prev t))"
proof -
  let ?cur = "cur m" and ?scope = "scope m"
  obtain o1 h1 where o1: "open_site_state (engine m) (site m) h = (o1, h1)" by fastforce
  with kept_open_site[of "engine m" h "site m"] have "kept (below (engine m)) h h1" by simp
  with cur_elsewhere(1)[OF ok] have k1: "node_at h1 ?cur = node_at h ?cur" "flocked h1 = flocked h"
    by (simp_all add: kept_def same_outside_def)
  show thesis
  proof (cases o1)
    case (Inl e)
    with run o1 k1 refused show thesis by (auto simp: execute_eq[OF ok])
  next
    case (Inr root)
    with o1 open_site_state_Ok have scope: "root = ?scope" unfolding scope_eq by blast
    obtain p h2 where p: "preflight_run (L m) ?scope (i m) (key m) operation h1 = (p, h2)" by fastforce
    have "\<not> preflight_area ?scope ?cur"
      using preflight_area_below[of ?scope ?cur] cur_elsewhere(2)[OF ok] by blast
    with same_outside_run[of ?scope h1 "L m" "i m" "key m" operation] p
    have k2: "node_at h2 ?cur = node_at h ?cur" using k1 by (simp add: same_outside_def)
    note f2 = preflight_run_flocked[OF p]
    consider e where "p = Err e" | j where "p = Ok (Replay j)" | a where "p = Ok (Proceed a)"
      by (metis Outcome.exhaust sumE)
    then show thesis
    proof cases
      case 1
      with run o1 Inr scope p k2 f2 k1 refused show thesis by (auto simp: execute_eq[OF ok])
    next
      case (2 j)
      with run o1 Inr scope p have r: "replay m ?scope j h2 = (out, h')" by (simp add: execute_eq[OF ok])
      with replay_reads[of m ?scope j h2] have "node_at h' = node_at h2" "flocked h' = flocked h2"
        using flocked_env[of h' h2] by simp_all
      moreover obtain k t where "key m = Some k" "owner (L m) ?scope h1 k = Some j"
          "stored (L m) ?scope h1 (state_path j) = Some t" "stored (L m) ?scope h2 (state_path j) = Some t"
        using p[unfolded 2] by (rule preflight_replay_recorded)
      moreover have "owner (L m) ?scope h1 = owner (L m) ?scope h" "stored (L m) ?scope h1 = stored (L m) ?scope h"
        using file_at_open_site[of ?scope "engine m" "site m" h] o1 owner_cong[of ?scope h1 _ h "L m"]
        by (simp_all add: stored_def fun_eq_iff)
      ultimately show thesis using 2 r k2 f2 k1 replayed by simp
    next
      case (3 a)
      obtain x h3 where st: "steps m ?scope h2 = (x, h3)" by fastforce
      note sw = steps_switch[OF ok st]
      have pf: "preflight_run (L m) ?scope (i m) (key m) operation (snd (open_site_state (engine m) (site m) h)) = (Ok (Proceed a), h2)"
        using p 3 o1 by simp
      from f2 3 have lk: "\<not> flocked h1 (ad_lock a)" "flocked h2 = (flocked h1)(ad_lock a := True)" by simp_all
      have fl: "(flocked h2)(ad_lock a := False) = flocked h" using lk k1 by (auto simp: fun_eq_iff)
      show thesis
      proof (cases x)
        case (Inl e)
        let ?h4 = "record_failure (L m) ?scope (i m) (ad_state a) (protocol e) h3"
        have out: "out = Returns (Err e)" "h' = release (ad_lock a) ?h4"
          using run o1 \<open>o1 = Inr root\<close> scope p 3 st Inl by (simp_all add: execute_eq[OF ok])
        note kf = kept_failure[of ?scope h3 "L m" "i m" "ad_state a" "protocol e"]
        have "node_at ?h4 ?cur = node_at h3 ?cur" using kept_node_at[OF kf cur_elsewhere(2)[OF ok]] .
        with failed[OF st[unfolded Inl] _ _ _ pf] sw out kf fl k2 Inl show thesis by (simp add: kept_def)
      next
        case (Inr prev)
        with run o1 \<open>o1 = Inr root\<close> scope p 3 st have c: "conclude m ?scope a prev h3 = (out, h')"
          by (simp add: execute_eq[OF ok])
        note ce = conclude_effect[OF ok p[unfolded 3] c]
        have "switched (L m) ?cur (target m) prev h h'"
          using sw Inr switched_cong[of h ?cur h2 h' h3 "L m" "target m" prev] k2 ce(2) by simp
        with committed[OF _ _ pf ce(3)] ce(1) sw fl show thesis by simp
      qed
    qed
  qed
qed

end

end
