(* ===== verification/Deploy.thy ===== *)
theory Deploy
  imports Switching
begin

text \<open>
  The \<open>site.deploy\<close> operation (\<open>src/src/deploy/mod.rs\<close>, \<open>src/src/deploy/execute.rs\<close>): the request,
  its result, the pipeline from admission to the recorded outcome, and the replay of an earlier
  request. \<open>cancel\<close> is what the cancellation token says at each moment (the call counter of the
  host); the failpoints of the source do nothing outside fault-injection builds.
\<close>

section \<open>Requests and results\<close>

definition DEPLOY_OPERATION :: string where "DEPLOY_OPERATION = ''site.deploy''"

record DeployRequest =
  dr_site_id :: SiteId
  dr_revision :: string
  dr_request_id :: RequestId
  dr_idempotency_key :: "IdempotencyKey option"

datatype DeployRequestError =
    Dre_InvalidSiteId | Dre_InvalidRevision | Dre_InvalidRequestId | Dre_InvalidIdempotencyKey

definition transpose_key :: "string option \<Rightarrow> IdentifierError + IdempotencyKey option" where
  "transpose_key key = (case key of None \<Rightarrow> Ok None | Some k \<Rightarrow> map_ok Some (IdempotencyKey_parse k))"

definition DeployRequest_parse ::
  "(string \<Rightarrow> uuid option) \<Rightarrow> string \<Rightarrow> string \<Rightarrow> string \<Rightarrow> string option \<Rightarrow> DeployRequestError + DeployRequest" where
  "DeployRequest_parse parse_str site_id revision request_id idempotency_key =
     bind_ok (map_err (\<lambda>_. Dre_InvalidSiteId) (SiteId_parse parse_str site_id)) (\<lambda>site.
     bind_ok (map_err (\<lambda>_. Dre_InvalidRevision) (GitCommitSha_parse revision)) (\<lambda>sha.
     bind_ok (map_err (\<lambda>_. Dre_InvalidRequestId) (RequestId_parse parse_str request_id)) (\<lambda>request.
     bind_ok (map_err (\<lambda>_. Dre_InvalidIdempotencyKey) (transpose_key idempotency_key)) (\<lambda>key.
       Ok \<lparr> dr_site_id = site, dr_revision = sha, dr_request_id = request, dr_idempotency_key = key \<rparr>))))"

record DeployResult =
  dp_release_id :: ReleaseId
  dp_previous_release_id :: "ReleaseId option"
  dp_commit :: string
  dp_activated_at :: u64

definition DeployResult_json :: "DeployResult \<Rightarrow> json" where
  "DeployResult_json r = value_map
     [(''releaseId'', JStr (dp_release_id r)), (''previousReleaseId'', opt_json JStr (dp_previous_release_id r)),
      (''commit'', JStr (dp_commit r)), (''activatedAtUnixSecs'', json_u64 (dp_activated_at r))]"

definition DeployResult_of_json :: "(string \<Rightarrow> uuid option) \<Rightarrow> json \<Rightarrow> DeployResult option" where
  "DeployResult_of_json parse_str v = Option.bind (as_obj v) (\<lambda>kvs.
     Option.bind (req (uuid_of_json parse_str) (field_of ''releaseId'' kvs)) (\<lambda>release.
     Option.bind (opt (uuid_of_json parse_str) (field_of ''previousReleaseId'' kvs)) (\<lambda>previous.
     Option.bind (req as_str (field_of ''commit'' kvs)) (\<lambda>commit.
     Option.bind (req as_u64 (field_of ''activatedAtUnixSecs'' kvs)) (\<lambda>at.
       Some \<lparr> dp_release_id = release, dp_previous_release_id = previous, dp_commit = commit,
              dp_activated_at = at \<rparr>)))))"

record DeployContext =
  dc_content_root :: path
  dc_credential_root :: path
  dc_engine_state :: ManagedRoot

section \<open>Errors\<close>

datatype DeployError =
    De_Io io_error
  | De_ContentRootMismatch
  | De_Preflight PreflightError
  | De_ReplayInProgress
  | De_Identity IdentityError
  | De_Resolve ResolveError
  | De_Staging StagingError
  | De_Validate ValidateError
  | De_Activate ActivateError
  | De_State StateError
  | De_Cancelled
  | De_Recovery RecoveryError
  | De_PostCommitRecordFailed DeployResult StateError
  | De_Replayed ErrorCode string

fun DeployError_protocol :: "DeployError \<Rightarrow> ErrorCode \<times> string" where
  "DeployError_protocol (De_Io _) = (Internal, ''internal deploy error'')"
| "DeployError_protocol De_ContentRootMismatch = (Internal, ''internal deploy error'')"
| "DeployError_protocol (De_State _) = (Internal, ''internal deploy error'')"
| "DeployError_protocol (De_Preflight (Pf_Lock _)) =
     (Conflict, ''another mutation is already in progress for this site'')"
| "DeployError_protocol (De_Preflight _) = (Internal, ''preflight failed'')"
| "DeployError_protocol De_ReplayInProgress =
     (Conflict, ''the original request for this idempotency key is still in progress'')"
| "DeployError_protocol (De_Identity (Id_Run e)) =
     (spawn_error_code e, ''could not resolve the site's system identity'')"
| "DeployError_protocol (De_Identity _) = (Internal, ''could not resolve the site's system identity'')"
| "DeployError_protocol (De_Resolve Res_InvalidRemoteUrl) = (InvalidInput, ''repository URL is not valid'')"
| "DeployError_protocol (De_Resolve Res_NotAuthorized) =
     (InvalidInput, ''revision is not the current tip of an allowed branch'')"
| "DeployError_protocol (De_Resolve (Res_Run e)) = (spawn_error_code e, ''could not query the remote repository'')"
| "DeployError_protocol (De_Resolve (Res_SubprocessFailed _)) =
     (SubprocessFailed, ''querying the remote repository failed'')"
| "DeployError_protocol (De_Staging Stg_InvalidRemoteUrl) = (InvalidInput, ''repository URL is not valid'')"
| "DeployError_protocol (De_Staging Stg_RevisionMismatch) =
     (Conflict, ''the remote branch changed while the release was being staged'')"
| "DeployError_protocol (De_Staging (Stg_Clone e)) = (spawn_error_code e, ''staging the release failed'')"
| "DeployError_protocol (De_Staging (Stg_Verify e)) = (spawn_error_code e, ''staging the release failed'')"
| "DeployError_protocol (De_Staging (Stg_CloneFailed _)) = (SubprocessFailed, ''cloning the release failed'')"
| "DeployError_protocol (De_Staging _) = (Internal, ''staging the release failed'')"
| "DeployError_protocol (De_Validate (Val_Run e)) = (spawn_error_code e, ''validating the release failed'')"
| "DeployError_protocol (De_Validate _) = (SubprocessFailed, ''validating the release failed'')"
| "DeployError_protocol (De_Activate _) = (Internal, ''activating the release failed'')"
| "DeployError_protocol (De_Recovery e) = RecoveryError_protocol e"
| "DeployError_protocol De_Cancelled = (Cancelled, ''cancelled before the commit point'')"
| "DeployError_protocol (De_PostCommitRecordFailed _ _) = (Internal, ''internal deploy error'')"
| "DeployError_protocol (De_Replayed code message) = (code, message)"

section \<open>Recording a failure\<close>

definition deploy_fail ::
  "crates \<Rightarrow> ManagedRoot \<Rightarrow> RequestId \<Rightarrow> TransactionState \<Rightarrow> DeployError \<Rightarrow> host \<Rightarrow> DeployError \<times> host" where
  "deploy_fail L site_state request_id state error h =
     (error, record_failure L site_state request_id state (DeployError_protocol error) h)"

section \<open>The pipeline\<close>

definition credential_path :: "DeployContext \<Rightarrow> SiteManifest \<Rightarrow> path" where
  "credential_path ctx manifest =
     TrustedRoot_join (dc_credential_root ctx) (expect_path (rp_credential_id (sm_repository manifest)))"

text \<open>The statements from the checkpoint to the switch: the errors that are handed to \<open>fail\<close>.\<close>

definition deploy_steps ::
  "crates \<Rightarrow> programs \<Rightarrow> (nat \<Rightarrow> bool) \<Rightarrow> DeployContext \<Rightarrow> SiteManifest \<Rightarrow> DeployRequest \<Rightarrow> ManagedRoot \<Rightarrow> host
     \<Rightarrow> (DeployError + ReleaseId option) \<times> host" where
  "deploy_steps L P cancel ctx manifest request site_state h =
     (let content = dc_content_root ctx; site = dr_site_id request; repo = sm_repository manifest;
          release_id = ReleaseId_from (dr_request_id request); cred = credential_path ctx manifest in
      try_io (prepare L content site_state site (dr_request_id request) DEPLOY_OPERATION release_id
                (Some (dr_revision request)) h) De_Recovery (\<lambda>_ h.
      try_io (resolve_site_identity P (sm_site_user manifest) h) De_Identity (\<lambda>identity h.
      try_io (precommit_check cancel De_Cancelled h) id (\<lambda>_ h.
      try_io (resolve_allowed_revision P (rp_url repo) (rp_allowed_branches repo) (dr_revision request)
                (Some cred) h) De_Resolve (\<lambda>branch h.
      try_io (precommit_check cancel De_Cancelled h) id (\<lambda>_ h.
      try_io (staging_prepare P content site release_id identity (rp_url repo) branch (dr_revision request)
                (Some cred) h) De_Staging (\<lambda>staged h.
      try_io (precommit_check cancel De_Cancelled h) id (\<lambda>_ h.
      try_io (validate_staged_release P (sr_absolute_path staged) identity h) De_Validate (\<lambda>_ h.
      try_io (precommit_check cancel De_Cancelled h) id (\<lambda>_ h.
      try_io (activate L content site release_id h) De_Activate (\<lambda>previous h. (Ok previous, h))))))))))))"

text \<open>
  From the commit point on: record the outcome, give the lock back, apply retention. Marking the
  record committed is \<open>expect\<close>ed to succeed.
\<close>

definition deploy_record ::
  "crates \<Rightarrow> DeployContext \<Rightarrow> DeployRequest \<Rightarrow> ManagedRoot \<Rightarrow> Admitted \<Rightarrow> ReleaseId option \<Rightarrow> host
     \<Rightarrow> (DeployError + DeployResult) or_panic \<times> host" where
  "deploy_record L ctx request site_state admitted previous h =
     (let release_id = ReleaseId_from (dr_request_id request);
          result = \<lparr> dp_release_id = release_id, dp_previous_release_id = previous,
                     dp_commit = dr_revision request, dp_activated_at = unix_now_secs h \<rparr>
      in (case mark_committed h (DeployResult_json result) (ad_state admitted) of
            Inl _ \<Rightarrow> (Panics, h)
          | Inr state \<Rightarrow>
              (case State_save L site_state (state_path (dr_request_id request)) state h of
                 (Inl cause, h) \<Rightarrow> (Returns (Err (De_PostCommitRecordFailed result cause)), release (ad_lock admitted) h)
               | (Inr _, h) \<Rightarrow>
                   let h = snd (audit_append L site_state audit_path (audit_result h (dr_request_id request) True None) h);
                       h = release (ad_lock admitted) h;
                       h = snd (prune_old_releases L (dc_content_root ctx) (dr_site_id request) release_id
                                  DEFAULT_RETAIN_COUNT h)
                   in (Returns (Ok result), h))))"

definition deploy_replay ::
  "crates \<Rightarrow> ManagedRoot \<Rightarrow> RequestId \<Rightarrow> host \<Rightarrow> (DeployError + DeployResult) or_panic \<times> host" where
  "deploy_replay L site_state original h =
     (case State_load L site_state (state_path original) h of
        (Inl e, h) \<Rightarrow> (Returns (Err (De_State e)), h)
      | (Inr s, h) \<Rightarrow>
          ((case ts_status s of
              InProgress \<Rightarrow> Returns (Err De_ReplayInProgress)
            | Committed \<Rightarrow>
                (case ts_outcome s of
                   None \<Rightarrow> Panics
                 | Some outcome \<Rightarrow>
                     (case oc_result outcome of
                        None \<Rightarrow> Panics
                      | Some v \<Rightarrow>
                          (case DeployResult_of_json (cr_uuid L) v of
                             None \<Rightarrow> Returns (Err (De_State State_Corrupt))
                           | Some r \<Rightarrow> Returns (Ok r))))
            | Failed \<Rightarrow>
                (case ts_outcome s of
                   None \<Rightarrow> Panics
                 | Some outcome \<Rightarrow> Returns (Err (De_Replayed
                     (case oc_error_code outcome of None \<Rightarrow> Internal | Some c \<Rightarrow> c)
                     (case oc_error_message outcome of None \<Rightarrow> [] | Some m \<Rightarrow> m))))), h))"

definition deploy_execute ::
  "crates \<Rightarrow> programs \<Rightarrow> (nat \<Rightarrow> bool) \<Rightarrow> DeployContext \<Rightarrow> SiteManifest \<Rightarrow> DeployRequest \<Rightarrow> host
     \<Rightarrow> (DeployError + DeployResult) or_panic \<times> host" where
  "deploy_execute L P cancel ctx manifest request h =
     (if sm_site_id manifest \<noteq> dr_site_id request then (Returns (Err De_ContentRootMismatch), h)
      else if sm_content_root manifest \<noteq> current_path (dr_site_id request)
      then (Returns (Err De_ContentRootMismatch), h)
      else (case open_site_state (dc_engine_state ctx) (dr_site_id request) h of
         (Inl e, h) \<Rightarrow> (Returns (Err (De_Io e)), h)
       | (Inr site_state, h) \<Rightarrow>
           (case preflight_run L site_state (dr_request_id request) (dr_idempotency_key request) DEPLOY_OPERATION h of
              (Inl e, h) \<Rightarrow> (Returns (Err (De_Preflight e)), h)
            | (Inr (Replay original), h) \<Rightarrow> deploy_replay L site_state original h
            | (Inr (Proceed admitted), h) \<Rightarrow>
                (case deploy_steps L P cancel ctx manifest request site_state h of
                   (Inl e, h) \<Rightarrow>
                     (case deploy_fail L site_state (dr_request_id request) (ad_state admitted) e h of
                        (e, h) \<Rightarrow> (Returns (Err e), release (ad_lock admitted) h))
                 | (Inr previous, h) \<Rightarrow> deploy_record L ctx request site_state admitted previous h))))"

section \<open>The way to the switch\<close>

lemma deploy_steps_arrive:
  assumes "confined (staging_area (dc_content_root ctx) (dr_site_id rq) (dr_request_id rq)) P"
    and "uuid_wf (dr_site_id rq)" and "uuid_wf (dr_request_id rq)"
  shows "arrives (deploy_area scope (dc_content_root ctx) (dr_site_id rq) (dr_request_id rq))
    (\<lambda>h. try_io (activate L (dc_content_root ctx) (dr_site_id rq) (dr_request_id rq) h) De_Activate (\<lambda>p h. (Ok p, h)))
    h (deploy_steps L P cancel ctx m rq scope h)"
proof -
  let ?A = "deploy_area scope (dc_content_root ctx) (dr_site_id rq) (dr_request_id rq)"
  have confined: "confined ?A P"
    using assms(1) by (auto simp: confined_def same_outside_def deploy_area_def)
  have stage: "kept ?A w (snd (staging_prepare P (dc_content_root ctx) (dr_site_id rq) (dr_request_id rq) i u b rv f w))" for w i u b rv f
    by (rule kept_mono[OF kept_staging[OF assms]]) (simp add: deploy_area_def)
  have prep: "kept ?A w (snd (prepare L c scope s (dr_request_id rq) oper t revision w))" for w c s oper t revision
    by (rule kept_mono[OF kept_prepare[OF assms(3)]]) (simp add: deploy_area_def)
  show ?thesis
    unfolding deploy_steps_def Let_def ReleaseId_from_def
    by (intro arrives_try_io arrives_here prep stage kept_check kept_identity[OF confined] kept_resolve[OF confined]
        kept_validate[OF confined])
qed

lemma deploy_steps_effect:
  assumes "crates_ok L" and "confined (staging_area (dc_content_root ctx) (dr_site_id rq) (dr_request_id rq)) P"
    and "uuid_wf (dr_site_id rq)" and "uuid_wf (dr_request_id rq)" and "dr_request_id rq \<noteq> nil_uuid"
    and "apart (dc_content_root ctx) engine"
    and "deploy_steps L P cancel ctx m rq (engine @ p) h = (x, h')"
  shows "flocked h' = flocked h \<and> (case x of
      Inl e \<Rightarrow> node_at h' (dc_content_root ctx @ current_path (dr_site_id rq)) = node_at h (dc_content_root ctx @ current_path (dr_site_id rq))
    | Inr prev \<Rightarrow> switched L (dc_content_root ctx @ current_path (dr_site_id rq)) (dr_request_id rq) prev h h')"
  by (rule arrives_switches[where A = "deploy_area (engine @ p) (dc_content_root ctx) (dr_site_id rq) (dr_request_id rq)",
        OF assms(1,3-5) cur_outside(2)[OF assms(6,3)] deploy_steps_arrive[OF assms(2-4), of "engine @ p" L h cancel m, unfolded assms(7)]])

section \<open>The contract of a switch, for deploy\<close>

lemma deploy_replay_reads:
  "node_at (snd (deploy_replay L scope j h)) = node_at h" "env (snd (deploy_replay L scope j h)) = env h"
proof -
  obtain x w where ld: "State_load L scope (state_path j) h = (x, w)" by fastforce
  then have "node_at w = node_at h" "env w = env h"
    using node_at_State_load[of L scope "state_path j" h] State_env(3)[of L scope "state_path j" h] by simp_all
  with ld show "node_at (snd (deploy_replay L scope j h)) = node_at h" "env (snd (deploy_replay L scope j h)) = env h"
    by (simp_all add: deploy_replay_def split: sum.splits)
qed

lemma deploy_replay_Ok:
  assumes "deploy_replay L scope j h = (Returns (Ok r), h')"
  shows "\<exists>t oc v. stored L scope h (state_path j) = Some t \<and> ts_status t = Committed \<and> ts_outcome t = Some oc
    \<and> oc_result oc = Some v \<and> DeployResult_of_json (cr_uuid L) v = Some r"
proof -
  obtain x w where ld: "State_load L scope (state_path j) h = (x, w)" by fastforce
  with assms obtain t where t: "x = Ok t" "w = h'" by (cases x) (auto simp: deploy_replay_def)
  from State_load_Ok[OF ld[unfolded t]] assms ld t show ?thesis
    by (auto simp: deploy_replay_def split: TransactionStatus.splits option.splits)
qed

fun after_the_switch :: "DeployError \<Rightarrow> bool" where
  "after_the_switch (De_PostCommitRecordFailed _ _) = True"
| "after_the_switch _ = False"

lemma deploy_steps_errs: "errs (\<lambda>e. \<not> after_the_switch e) (deploy_steps L P cancel ctx m rq scope h)"
  unfolding deploy_steps_def Let_def by (intro errs_try_io) simp_all

lemma deploy_replay_errs: "deploy_replay L scope j h = (Returns (Err e), h') \<Longrightarrow> \<not> after_the_switch e"
  by (auto simp: deploy_replay_def split: prod.splits sum.splits TransactionStatus.splits option.splits)

text \<open>A call of the operation: the parameters of \<open>execute\<close>.\<close>

record deploy_call =
  dl_crates :: crates
  dl_programs :: programs
  dl_cancel :: "nat \<Rightarrow> bool"
  dl_context :: DeployContext
  dl_manifest :: SiteManifest
  dl_request :: DeployRequest

definition deploy_admissible :: "deploy_call \<Rightarrow> bool" where
  "deploy_admissible c \<longleftrightarrow> (let rq = dl_request c; content = dc_content_root (dl_context c) in
     crates_ok (dl_crates c) \<and> uuid_wf (dr_site_id rq) \<and> uuid_wf (dr_request_id rq) \<and> dr_request_id rq \<noteq> nil_uuid
     \<and> apart content (dc_engine_state (dl_context c))
     \<and> confined (staging_area content (dr_site_id rq) (dr_request_id rq)) (dl_programs c)
     \<and> sm_site_id (dl_manifest c) = dr_site_id rq \<and> sm_content_root (dl_manifest c) = current_path (dr_site_id rq))"

interpretation deploy: switching deploy_admissible dl_crates "\<lambda>c. dc_content_root (dl_context c)"
  "\<lambda>c. dc_engine_state (dl_context c)" "\<lambda>c. dr_site_id (dl_request c)" "\<lambda>c. dr_request_id (dl_request c)"
  "\<lambda>c. dc_content_root (dl_context c) @ current_path (dr_site_id (dl_request c))"
  "\<lambda>c. dc_engine_state (dl_context c) @ site_path (dr_site_id (dl_request c))"
  "\<lambda>c. dr_idempotency_key (dl_request c)" DEPLOY_OPERATION "\<lambda>c. dr_request_id (dl_request c)"
  "\<lambda>c. deploy_steps (dl_crates c) (dl_programs c) (dl_cancel c) (dl_context c) (dl_manifest c) (dl_request c)"
  "\<lambda>c. deploy_replay (dl_crates c)" De_Io De_Preflight De_PostCommitRecordFailed DeployError_protocol
  "\<lambda>c prev t. \<lparr> dp_release_id = dr_request_id (dl_request c), dp_previous_release_id = prev,
     dp_commit = dr_revision (dl_request c), dp_activated_at = t \<rparr>" DeployResult_json
  "\<lambda>c. deploy_record (dl_crates c) (dl_context c) (dl_request c)"
  "\<lambda>c. deploy_execute (dl_crates c) (dl_programs c) (dl_cancel c) (dl_context c) (dl_manifest c) (dl_request c)"
proof (unfold_locales, goal_cases)
  case (7 c h x h')
  then show ?case
    using deploy_steps_effect[of "dl_crates c" "dl_context c" "dl_request c" "dl_programs c" "dc_engine_state (dl_context c)"
        "dl_cancel c" "dl_manifest c" "site_path (dr_site_id (dl_request c))" h x h']
    by (auto simp: deploy_admissible_def Let_def)
next
  case (11 c root a prev h)
  show ?case by (simp add: deploy_record_def ReleaseId_from_def Let_def)
next
  case (12 c h)
  then show ?case
    unfolding deploy_execute_def deploy_fail_def prod.case by (simp add: deploy_admissible_def Let_def)
qed (auto simp: deploy_admissible_def deploy_replay_reads DeployResult_json_def value_map_def Let_def)

section \<open>Reading a recorded result back\<close>

lemma DeployResult_json_sorted: "DeployResult_json r = JObj
  [(''activatedAtUnixSecs'', json_u64 (dp_activated_at r)), (''commit'', JStr (dp_commit r)),
   (''previousReleaseId'', opt_json JStr (dp_previous_release_id r)), (''releaseId'', JStr (dp_release_id r))]"
  by (simp add: DeployResult_json_def value_map_def less_list_code less_eq_list_code less_char_def less_eq_char_def)

definition result_valid :: "ReleaseId \<Rightarrow> ReleaseId option \<Rightarrow> bool" where
  "result_valid r prev \<longleftrightarrow> uuid_wf r \<and> (case prev of None \<Rightarrow> True | Some p \<Rightarrow> uuid_wf p)"

interpretation dp_json: json_record DeployResult_json "DeployResult_of_json ps"
  "\<lambda>r. uuid_parse_ok ps \<and> result_valid (dp_release_id r) (dp_previous_release_id r)" for ps
proof unfold_locales
  fix r :: DeployResult assume r: "uuid_parse_ok ps \<and> result_valid (dp_release_id r) (dp_previous_release_id r)"
  then have "opt (uuid_of_json ps) (Present (opt_json JStr (dp_previous_release_id r))) = Some (dp_previous_release_id r)"
    by (intro opt_Present_opt_json) (auto simp: result_valid_def uuid_of_json_JStr)
  with r show "DeployResult_of_json ps (DeployResult_json r) = Some r"
    by (simp add: DeployResult_json_sorted DeployResult_of_json_def field_of_def result_valid_def uuid_of_json_JStr)
qed

section \<open>Properties\<close>

text \<open>
  What each answer says of the link \<open>cur\<close> and of the records below \<open>scope\<close>, between the host \<open>h\<close> before
  the operation and the host \<open>h'\<close> after it.
\<close>

fun deploy_answer ::
  "crates \<Rightarrow> path \<Rightarrow> ManagedRoot \<Rightarrow> DeployRequest \<Rightarrow> host \<Rightarrow> host \<Rightarrow> (DeployError + DeployResult) or_panic \<Rightarrow> bool" where
  "deploy_answer L cur scope rq h h' (Returns (Inr r)) \<longleftrightarrow>
     (switched L cur (dp_release_id r) (dp_previous_release_id r) h h'
        \<and> dp_release_id r = dr_request_id rq \<and> dp_commit r = dr_revision rq
        \<and> recorded L scope h' (dr_request_id rq) (DeployResult_json r))
     \<or> (node_at h' cur = node_at h cur \<and> replayed_from L scope (dr_idempotency_key rq) h (\<lambda>v. DeployResult_of_json (cr_uuid L) v = Some r))"
| "deploy_answer L cur scope rq h h' (Returns (Inl (De_PostCommitRecordFailed r _))) \<longleftrightarrow>
     switched L cur (dp_release_id r) (dp_previous_release_id r) h h' \<and> dp_release_id r = dr_request_id rq"
| "deploy_answer L cur scope rq h h' _ \<longleftrightarrow> node_at h' cur = node_at h cur"

lemma deploy_answer_unswitched:
  assumes "\<not> after_the_switch e" and "node_at h' cur = node_at h cur"
  shows "deploy_answer L cur scope rq h h' (Returns (Err e))"
  using assms by (cases e) simp_all

lemma deploy_replay_answer:
  assumes "deploy_replay L scope j w = (out, h')" and "node_at h' cur = node_at h cur"
    and "dr_idempotency_key rq = Some k" and "owner L scope h k = Some j"
    and "stored L scope h (state_path j) = Some t" and "stored L scope w (state_path j) = Some t"
  shows "deploy_answer L cur scope rq h h' out"
proof (cases out)
  case (Returns x)
  show ?thesis
  proof (cases x)
    case (Inl e)
    with assms Returns show ?thesis
      using deploy_replay_errs[of L scope j w e h'] deploy_answer_unswitched by simp
  next
    case (Inr r)
    with assms(1) Returns have "deploy_replay L scope j w = (Returns (Ok r), h')" by simp
    from deploy_replay_Ok[OF this] assms Returns Inr show ?thesis by (auto simp: replayed_from_def)
  qed
qed (use assms in simp)

lemma deploy_effect:
  assumes "crates_ok L" and "uuid_wf (dr_site_id rq)" and "uuid_wf (dr_request_id rq)" and "dr_request_id rq \<noteq> nil_uuid"
    and "apart (dc_content_root ctx) (dc_engine_state ctx)"
    and "confined (staging_area (dc_content_root ctx) (dr_site_id rq) (dr_request_id rq)) P"
    and "deploy_execute L P cancel ctx m rq h = (out, h')"
    and "cur = dc_content_root ctx @ current_path (dr_site_id rq)" and "scope = dc_engine_state ctx @ site_path (dr_site_id rq)"
  shows "flocked h' = flocked h \<and> deploy_answer L cur scope rq h h' out"
proof -
  let ?c = "\<lparr> dl_crates = L, dl_programs = P, dl_cancel = cancel, dl_context = ctx, dl_manifest = m, dl_request = rq \<rparr>"
  show ?thesis
  proof (cases "sm_site_id m = dr_site_id rq \<and> sm_content_root m = current_path (dr_site_id rq)")
    case False
    with assms(7) show ?thesis by (auto simp: deploy_execute_def split: if_splits)
  next
    case True
    with assms(1-6) have ok: "deploy_admissible ?c" by (simp add: deploy_admissible_def Let_def)
    have run: "deploy_execute (dl_crates ?c) (dl_programs ?c) (dl_cancel ?c) (dl_context ?c) (dl_manifest ?c) (dl_request ?c) h = (out, h')"
      using assms(7) by simp
    show ?thesis
    proof (cases rule: deploy.execute_cases[OF ok run])
      case (1 e)
      with assms(8) show ?thesis by (auto intro: deploy_answer_unswitched)
    next
      case (2 k j t w)
      with assms(8,9) show ?thesis
        using deploy_replay_answer[of L scope j w out h' cur h rq k t] by simp
    next
      case (3 e w w' a)
      with assms(8) show ?thesis
        using deploy_steps_errs[of L P cancel ctx m rq scope w] assms(9)
        by (auto simp: errs_def intro: deploy_answer_unswitched)
    next
      case (4 prev t w a)
      with assms(8,9) show ?thesis by auto
    qed
  qed
qed

text \<open>
  (C1) A deploy is all or nothing, and its answer tells which. However it ends, it leaves every lock as it
  found it. When it reports success, then either \<open>current\<close> named the reported previous release before
  and names the release of the request after, and the record of this request on disk is the committed
  one with exactly this result; or \<open>current\<close> is what it was, and the request carried an idempotency key
  that, on the host as the operation found it, belonged to a request with a committed record, and the
  answer is the result in that record. So a success without a key, or with a key that had no such
  owner, is a switch. When it reports that recording failed after the switch, the switch has happened;
  on every other answer \<open>current\<close> is what it was.
\<close>

theorem deploy_is_all_or_nothing:
  assumes "crates_ok L" and "uuid_wf (dr_site_id rq)" and "uuid_wf (dr_request_id rq)" and "dr_request_id rq \<noteq> nil_uuid"
    and "apart (dc_content_root ctx) (dc_engine_state ctx)"
    and "confined (staging_area (dc_content_root ctx) (dr_site_id rq) (dr_request_id rq)) P"
    and "deploy_execute L P cancel ctx m rq h = (out, h')"
    and "cur = dc_content_root ctx @ current_path (dr_site_id rq)" and "scope = dc_engine_state ctx @ site_path (dr_site_id rq)"
  shows "flocked h' = flocked h \<and> deploy_answer L cur scope rq h h' out"
  using assms by (rule deploy_effect)

section \<open>A closed example\<close>

text \<open>Programs that answer at once and touch nothing.\<close>

definition example_sha1 :: string where "example_sha1 = replicate 40 CHR ''a''"

definition quick_child :: "bytes \<Rightarrow> child" where
  "quick_child text =
     \<lparr> ch_spawn = (\<lambda>_. Spawned), ch_stdin_pipe = True, ch_stdout_pipe = True, ch_stderr_pipe = True,
       ch_cancelled = (\<lambda>_. False), ch_cancelled_again = (\<lambda>_. False), ch_lag_ms = (\<lambda>_. 0),
       ch_try_wait = (\<lambda>_. Ok (Some (Some 0, True))), ch_kill = (\<lambda>_. Ok ()), ch_wait = (\<lambda>_. Ok ()),
       ch_stdout = Some [Ok text], ch_stderr = Some [], ch_stdin_write = Some (Ok ()) \<rparr>"

definition example_id_text :: bytes where "example_id_text = ''1000'' @ [line_feed]"

definition example_refs_text :: bytes where
  "example_refs_text = example_sha1 @ [tab] @ ''refs/heads/main'' @ [line_feed]"

definition example_head_text :: bytes where "example_head_text = example_sha1 @ [line_feed]"

definition example_answer :: "string \<Rightarrow> string list \<Rightarrow> bytes" where
  "example_answer program args =
     (if program = ''id'' then example_id_text
      else if args ! 2 = ''ls-remote'' then example_refs_text
      else if args ! 2 = ''rev-parse'' then example_head_text else [])"

definition example_tools :: programs where
  "example_tools c h = (quick_child (example_answer (cmd_program c) (cmd_args c)), h)"

lemma example_tools_confined: "confined A example_tools"
  by (simp add: confined_def example_tools_def)

definition example_deploy_context :: DeployContext where
  "example_deploy_context = \<lparr> dc_content_root = [''srv''], dc_credential_root = [''st'', ''credentials''], dc_engine_state = [''st''] \<rparr>"

definition example_deploy_request :: DeployRequest where
  "example_deploy_request = \<lparr> dr_site_id = example_id, dr_revision = example_sha1, dr_request_id = example_id2,
     dr_idempotency_key = None \<rparr>"

definition example_deploy_result :: DeployResult where
  "example_deploy_result = \<lparr> dp_release_id = example_id2, dp_previous_release_id = None, dp_commit = example_sha1,
     dp_activated_at = 0 \<rparr>"

definition example_deploy_crates :: crates where
  "example_deploy_crates = table_crates
     [TransactionState_json example_open_record,
      LockRecord_json \<lparr> lr_schema_version = LOCK_SCHEMA_VERSION, lr_holder = example_id2, lr_acquired_at = 0 \<rparr>,
      AuditRecord_json (audit_mutation_start (example_host []) example_id2 None DEPLOY_OPERATION),
      Checkpoint_json \<lparr> ck_site_id = example_id, ck_request_id = example_id2, ck_operation = DEPLOY_OPERATION,
        ck_target = example_id2, ck_previous = None, ck_revision = Some example_sha1 \<rparr>,
      TransactionState_json (case mark_committed (example_host []) (DeployResult_json example_deploy_result)
        example_open_record of Inr s \<Rightarrow> s | Inl _ \<Rightarrow> example_open_record),
      AuditRecord_json (audit_result (example_host []) example_id2 True None)]"

definition example_deploy_host :: host where
  "example_deploy_host = (example_host [([''st''], Dir), ([''srv''], Dir)])\<lparr>realpath := Some\<rparr>"

definition example_deploy :: "(DeployError + DeployResult) or_panic \<times> host" where
  "example_deploy = deploy_execute example_deploy_crates example_tools (\<lambda>_. False) example_deploy_context
     example_manifest example_deploy_request example_deploy_host"

lemma quick_child_runs:
  assumes "0 < timeout_ms limits" and "length text \<le> max_stdout_bytes limits"
  shows "spawn_and_supervise limits (quick_child text) =
    Ok \<lparr> po_termination = Exited (Some 0) True, po_stdout = \<lparr> co_bytes = text, co_truncated = False \<rparr>,
         po_stderr = \<lparr> co_bytes = [], co_truncated = False \<rparr> \<rparr>"
proof -
  have "spawn_retrying_busy (quick_child text) 1 = Ok ()"
    by (subst spawn_retrying_busy.simps) (simp add: quick_child_def)
  moreover have "supervise limits (quick_child text) 0 = Ok (Exited (Some 0) True)"
    using assms(1) by (subst supervise.simps) (simp add: quick_child_def elapsed_ms_def)
  moreover have "join_capture (map_option (capture n) (ch_stderr (quick_child text))) = Ok \<lparr> co_bytes = [], co_truncated = False \<rparr>" for n
    by (simp add: quick_child_def join_capture_def capture_def)
  moreover have "join_capture (map_option (capture (max_stdout_bytes limits)) (ch_stdout (quick_child text)))
      = Ok \<lparr> co_bytes = text, co_truncated = False \<rparr>"
    using assms(2) by (cases "text = []") (simp_all add: quick_child_def join_capture_def capture_def)
  ultimately show ?thesis by (simp add: spawn_and_supervise_def quick_child_def)
qed

lemma example_id_parses: "parse_u32 (trim (from_utf8_lossy example_id_text)) = Some 1000"
proof -
  have "trim (from_utf8_lossy example_id_text) = ''1000''" by code_simp
  then show ?thesis by (simp add: parse_u32_def digits_value_def byte_of_def ascii_defs)
qed

lemma example_texts:
  "trim (from_utf8_lossy example_head_text) = example_sha1"
  "matched_branch example_sha1 example_refs_text = Some ''main''"
  "starts_with ''git@example.com:a/b.git'' ''-'' = False"
  by code_simp+

lemma example_answer_length: "length (example_answer p args) \<le> 1024"
  by (simp add: example_answer_def example_id_text_def example_refs_text_def example_head_text_def example_sha1_def)

lemma example_tools_run:
  assumes "0 < timeout_ms limits" and "1024 \<le> max_stdout_bytes limits"
  shows "run example_tools r limits h =
    (Ok \<lparr> po_termination = Exited (Some 0) True,
       po_stdout = \<lparr> co_bytes = example_answer (pr_program r) (pr_args r), co_truncated = False \<rparr>,
       po_stderr = \<lparr> co_bytes = [], co_truncated = False \<rparr> \<rparr>, h)"
  using assms order_trans[OF example_answer_length assms(2)]
  by (simp add: run_def example_tools_def quick_child_runs build_command_def)

lemmas example_tool_defs = run_id_def resolve_site_identity_def resolve_allowed_revision_def clone_as_def verify_head_def
  validate_staged_release_def run_check_def run_git_def exited_ok_def example_tools_run example_texts example_id_parses limits_of_def
  ProcessRequest_new_def with_args_def run_as_def ls_remote_args_def clone_args_def example_answer_def

lemma example_steps_answer:
  "resolve_site_identity example_tools u h = (Ok \<lparr> si_uid = 1000, si_gid = 1000 \<rparr>, h)"
  "resolve_allowed_revision example_tools ''git@example.com:a/b.git'' bs example_sha1 (Some f) h = (Ok ''main'', h)"
  "clone_as example_tools d i ''git@example.com:a/b.git'' b (Some f) h = (Ok (), h)"
  "verify_head example_tools d i example_sha1 h = (Ok (), h)"
  "validate_staged_release example_tools d i h = (Ok (), h)"
  by (simp_all add: example_tool_defs)

text \<open>The steps with the programs' answers put in.\<close>

definition example_steps :: "ManagedRoot \<Rightarrow> host \<Rightarrow> (DeployError + ReleaseId option) \<times> host" where
  "example_steps scope h =
     try_io (prepare example_deploy_crates [''srv''] scope example_id example_id2 DEPLOY_OPERATION example_id2
               (Some example_sha1) h) De_Recovery (\<lambda>_ h.
     try_io (ManagedRoot_open [''srv''] h) (De_Staging \<circ> Stg_Io) (\<lambda>managed h.
     try_io (create_dir_all managed (releases_path example_id) h) (De_Staging \<circ> Stg_Io) (\<lambda>_ h.
     try_io (create_dir managed (release_path example_id example_id2) h)
       (De_Staging \<circ> (\<lambda>e. if e = IoAlreadyExists then Stg_AlreadyExists else Stg_Io e)) (\<lambda>_ h.
     try_io (resolve_existing_path [''srv''] (release_path example_id example_id2) h)
       (De_Staging \<circ> (\<lambda>_. Stg_Io IoOther)) (\<lambda>d h.
     try_io (chown d 1000 1000 h) (De_Staging \<circ> Stg_Ownership) (\<lambda>_ h.
     try_io (activate example_deploy_crates [''srv''] example_id example_id2 h) De_Activate (\<lambda>p h. (Ok p, h))))))))"

lemma try_io_assoc: "try_io (try_io r f k) g k' = try_io r (g \<circ> f) (\<lambda>x h. try_io (k x h) g k')"
  by (cases rule: try_io_cases[of r f k]) simp_all

lemma never_cancelled: "precommit_check (\<lambda>_. False) e h = (Ok (), h)"
  by (simp add: precommit_check_def PreCommit_check_def)

lemma example_steps_eq:
  "deploy_steps example_deploy_crates example_tools (\<lambda>_. False) example_deploy_context example_manifest
     example_deploy_request = example_steps"
  by (intro ext)
     (simp add: deploy_steps_def example_steps_def example_deploy_context_def example_manifest_def
        example_deploy_request_def Let_def ReleaseId_from_def never_cancelled example_steps_answer staging_prepare_def
        example_texts try_io_assoc)

definition example_run_deploy :: "(DeployError + DeployResult) or_panic \<times> host" where
  "example_run_deploy =
     (case open_site_state [''st''] example_id example_deploy_host of
         (Inl e, h) \<Rightarrow> (Returns (Err (De_Io e)), h)
       | (Inr site_state, h) \<Rightarrow>
           (case preflight_run example_deploy_crates site_state (dr_request_id example_deploy_request)
                   (dr_idempotency_key example_deploy_request) DEPLOY_OPERATION h of
              (Inl e, h) \<Rightarrow> (Returns (Err (De_Preflight e)), h)
            | (Inr (Replay original), h) \<Rightarrow> deploy_replay example_deploy_crates site_state original h
            | (Inr (Proceed admitted), h) \<Rightarrow>
                (case example_steps site_state h of
                   (Inl e, h) \<Rightarrow>
                     (case deploy_fail example_deploy_crates site_state (dr_request_id example_deploy_request) (ad_state admitted) e h of
                        (e, h) \<Rightarrow> (Returns (Err e), release (ad_lock admitted) h))
                 | (Inr previous, h) \<Rightarrow> deploy_record example_deploy_crates example_deploy_context
                     example_deploy_request site_state admitted previous h)))"

lemma example_deploy_eq: "example_deploy = example_run_deploy"
proof -
  have "current_path example_id = [''sites'', example_id, ''current'']" by (simp add: release_paths[OF example_id_wf example_id_wf])
  then show ?thesis
    unfolding example_deploy_def deploy_execute_def example_run_deploy_def example_steps_eq
    by (simp add: example_deploy_context_def example_manifest_def example_deploy_request_def)
qed

lemma example_run_deploy_succeeds:
  "case example_run_deploy of (r, h) \<Rightarrow> r = Returns (Ok example_deploy_result)
     \<and> node_at h [''srv'', ''sites'', example_id, ''current''] \<noteq> None"
  by code_simp

theorem deploy_is_all_or_nothing_witness:
  "switched example_deploy_crates [''srv'', ''sites'', example_id, ''current''] example_id2 None
     example_deploy_host (snd example_deploy)
   \<and> recorded example_deploy_crates [''st'', ''sites'', example_id] (snd example_deploy) example_id2
       (DeployResult_json example_deploy_result)"
proof -
  obtain h' where run: "example_deploy = (Returns (Ok example_deploy_result), h')"
    and cur: "node_at h' [''srv'', ''sites'', example_id, ''current''] \<noteq> None"
    using example_run_deploy_succeeds by (auto simp: example_deploy_eq)
  have paths: "current_path example_id = [''sites'', example_id, ''current'']" "site_path example_id = [''sites'', example_id]"
    by (simp_all add: release_paths[OF example_id_wf example_id_wf])
  have ok: "crates_ok example_deploy_crates" by (simp add: example_deploy_crates_def)
  have ne: "example_id2 \<noteq> nil_uuid" by (simp add: example_id2_def nil_uuid_def)
  have roots: "apart [''srv''] [''st'']" by (auto simp: apart_def below_def path_starts_with_iff)
  have "deploy_answer example_deploy_crates [''srv'', ''sites'', example_id, ''current''] [''st'', ''sites'', example_id]
      example_deploy_request example_deploy_host h' (Returns (Ok example_deploy_result))"
    using deploy_is_all_or_nothing[of example_deploy_crates example_deploy_request example_deploy_context example_tools
        "\<lambda>_. False" example_manifest example_deploy_host "Returns (Ok example_deploy_result)" h',
        OF ok _ _ _ _ example_tools_confined run[unfolded example_deploy_def] refl refl] ne roots
    by (simp add: example_deploy_request_def example_deploy_context_def paths del: deploy_answer.simps)
  with cur show ?thesis
    unfolding run by (auto simp: example_deploy_result_def example_deploy_request_def example_deploy_host_def node_at_def example_host_def)
qed

text \<open>The record of the example on disk.\<close>

definition example_recorded_host :: host where
  "example_recorded_host = example_host [([''st'', ''transactions'', example_id2 @ ''.json''], File ''aaaa'')]"

lemma example_recorded:
  "recorded example_deploy_crates [''st''] example_recorded_host example_id2 (DeployResult_json example_deploy_result)"
proof -
  have "case stored example_deploy_crates [''st''] example_recorded_host (state_path example_id2) of None \<Rightarrow> False
    | Some s \<Rightarrow> ts_request_id s = example_id2 \<and> ts_status s = Committed
      \<and> ts_outcome s = Some \<lparr> oc_ok = True, oc_result = Some (DeployResult_json example_deploy_result),
           oc_error_code = None, oc_error_message = None \<rparr>"
    by code_simp
  then show ?thesis unfolding recorded_def by (auto split: option.splits)
qed

text \<open>
  A retry gets the answer of the original. When the record of a request is the committed one of a
  deploy with some result, as it is after a fresh success, replaying the request returns exactly this
  result; the only error it can return is that the record could not be read.
\<close>

theorem recorded_deploy_replays:
  assumes "crates_ok L" and "recorded L scope h j (DeployResult_json r)"
    and "result_valid (dp_release_id r) (dp_previous_release_id r)"
  shows "fst (deploy_replay L scope j h) \<in> {Returns (Ok r), Returns (Err (De_State State_Io))}"
proof -
  from assms(2) obtain s where s: "stored L scope h (state_path j) = Some s" "ts_status s = Committed"
    "ts_outcome s = Some \<lparr> oc_ok = True, oc_result = Some (DeployResult_json r), oc_error_code = None, oc_error_message = None \<rparr>"
    unfolding recorded_def by blast
  obtain x w where ld: "State_load L scope (state_path j) h = (x, w)" by fastforce
  with State_load_stored[OF s(1)] have "x \<in> {Ok s, Err State_Io}" by simp
  moreover have "DeployResult_of_json (cr_uuid L) (DeployResult_json r) = Some r"
    using assms crates_okD(2) dp_json.of_to by blast
  ultimately show ?thesis using ld s by (auto simp: deploy_replay_def)
qed

theorem recorded_deploy_replays_witness:
  "fst (deploy_replay example_deploy_crates [''st''] example_id2 example_recorded_host)
     \<in> {Returns (Ok example_deploy_result), Returns (Err (De_State State_Io))}"
  using recorded_deploy_replays[OF _ example_recorded]
  by (simp add: example_deploy_crates_def example_deploy_result_def result_valid_def)

end
