(* ===== verification/Rollback.thy ===== *)
theory Rollback
  imports Deploy
begin

text \<open>
  The \<open>site.rollback\<close> operation (\<open>src/src/rollback/mod.rs\<close>, \<open>eligibility.rs\<close>, \<open>execute.rs\<close>): the request,
  which releases may be switched back to, the pipeline and the replay of an earlier request. It
  interprets the contract of \<open>Switching\<close> with the requested release as the target.
\<close>

section \<open>Requests and results\<close>

definition ROLLBACK_OPERATION :: string where "ROLLBACK_OPERATION = ''site.rollback''"

record RollbackRequest =
  rr_site_id :: SiteId
  rr_release_id :: ReleaseId
  rr_request_id :: RequestId
  rr_idempotency_key :: "IdempotencyKey option"

datatype RollbackRequestError =
    Rre_InvalidSiteId | Rre_InvalidReleaseId | Rre_InvalidRequestId | Rre_InvalidIdempotencyKey

definition RollbackRequest_parse ::
  "(string \<Rightarrow> uuid option) \<Rightarrow> string \<Rightarrow> string \<Rightarrow> string \<Rightarrow> string option \<Rightarrow> RollbackRequestError + RollbackRequest" where
  "RollbackRequest_parse parse_str site_id release_id request_id idempotency_key =
     bind_ok (map_err (\<lambda>_. Rre_InvalidSiteId) (SiteId_parse parse_str site_id)) (\<lambda>site.
     bind_ok (map_err (\<lambda>_. Rre_InvalidReleaseId) (ReleaseId_parse parse_str release_id)) (\<lambda>release.
     bind_ok (map_err (\<lambda>_. Rre_InvalidRequestId) (RequestId_parse parse_str request_id)) (\<lambda>request.
     bind_ok (map_err (\<lambda>_. Rre_InvalidIdempotencyKey) (transpose_key idempotency_key)) (\<lambda>key.
       Ok \<lparr> rr_site_id = site, rr_release_id = release, rr_request_id = request, rr_idempotency_key = key \<rparr>))))"

record RollbackResult =
  rb_release_id :: ReleaseId
  rb_previous_release_id :: "ReleaseId option"
  rb_activated_at :: u64

definition RollbackResult_json :: "RollbackResult \<Rightarrow> json" where
  "RollbackResult_json r = value_map
     [(''releaseId'', JStr (rb_release_id r)), (''previousReleaseId'', opt_json JStr (rb_previous_release_id r)),
      (''activatedAtUnixSecs'', json_u64 (rb_activated_at r))]"

definition RollbackResult_of_json :: "(string \<Rightarrow> uuid option) \<Rightarrow> json \<Rightarrow> RollbackResult option" where
  "RollbackResult_of_json parse_str v = Option.bind (as_obj v) (\<lambda>kvs.
     Option.bind (req (uuid_of_json parse_str) (field_of ''releaseId'' kvs)) (\<lambda>release.
     Option.bind (opt (uuid_of_json parse_str) (field_of ''previousReleaseId'' kvs)) (\<lambda>previous.
     Option.bind (req as_u64 (field_of ''activatedAtUnixSecs'' kvs)) (\<lambda>at.
       Some \<lparr> rb_release_id = release, rb_previous_release_id = previous, rb_activated_at = at \<rparr>))))"

record RollbackContext =
  rc_content_root :: path
  rc_engine_state :: ManagedRoot

section \<open>Which releases are eligible\<close>

datatype EligibilityError = Elig_NotFound | Elig_Io io_error

definition resolve_retained_release ::
  "path \<Rightarrow> SiteId \<Rightarrow> ReleaseId \<Rightarrow> host \<Rightarrow> (EligibilityError + path) \<times> host" where
  "resolve_retained_release content_root site_id release_id h =
     try_io (ManagedRoot_open content_root h) Elig_Io (\<lambda>managed h.
       (case exists_path managed (release_path site_id release_id) h of (found, h) \<Rightarrow>
          if \<not> found then (Err Elig_NotFound, h)
          else (case resolve_existing_path content_root (release_path site_id release_id) h of
              (Inr p, h) \<Rightarrow> (Ok p, h)
            | (Inl _, h) \<Rightarrow> (Err Elig_NotFound, h))))"

section \<open>Errors\<close>

datatype RollbackError =
    Rb_Io io_error
  | Rb_ContentRootMismatch
  | Rb_Preflight PreflightError
  | Rb_ReplayInProgress
  | Rb_Identity IdentityError
  | Rb_NotFound EligibilityError
  | Rb_Validate ValidateError
  | Rb_Activate ActivateError
  | Rb_State StateError
  | Rb_Cancelled
  | Rb_Recovery RecoveryError
  | Rb_PostCommitRecordFailed RollbackResult StateError
  | Rb_Replayed ErrorCode string

fun RollbackError_protocol :: "RollbackError \<Rightarrow> ErrorCode \<times> string" where
  "RollbackError_protocol (Rb_Io _) = (Internal, ''internal rollback error'')"
| "RollbackError_protocol Rb_ContentRootMismatch = (Internal, ''internal rollback error'')"
| "RollbackError_protocol (Rb_State _) = (Internal, ''internal rollback error'')"
| "RollbackError_protocol (Rb_Preflight (Pf_Lock _)) =
     (Conflict, ''another mutation is already in progress for this site'')"
| "RollbackError_protocol (Rb_Preflight _) = (Internal, ''preflight failed'')"
| "RollbackError_protocol Rb_ReplayInProgress =
     (Conflict, ''the original request for this idempotency key is still in progress'')"
| "RollbackError_protocol (Rb_Identity (Id_Run e)) =
     (spawn_error_code e, ''could not resolve the site's system identity'')"
| "RollbackError_protocol (Rb_Identity _) = (Internal, ''could not resolve the site's system identity'')"
| "RollbackError_protocol (Rb_NotFound _) =
     (InvalidInput, ''release is not a retained rollback target for this site'')"
| "RollbackError_protocol (Rb_Validate (Val_Run e)) = (spawn_error_code e, ''validating the release failed'')"
| "RollbackError_protocol (Rb_Validate _) = (SubprocessFailed, ''the retained release failed integrity validation'')"
| "RollbackError_protocol (Rb_Activate _) = (Internal, ''activating the release failed'')"
| "RollbackError_protocol (Rb_Recovery e) = RecoveryError_protocol e"
| "RollbackError_protocol Rb_Cancelled = (Cancelled, ''cancelled before the commit point'')"
| "RollbackError_protocol (Rb_PostCommitRecordFailed _ _) = (Internal, ''internal rollback error'')"
| "RollbackError_protocol (Rb_Replayed code message) = (code, message)"

definition rollback_fail ::
  "crates \<Rightarrow> ManagedRoot \<Rightarrow> RequestId \<Rightarrow> TransactionState \<Rightarrow> RollbackError \<Rightarrow> host \<Rightarrow> RollbackError \<times> host" where
  "rollback_fail L site_state request_id state error h =
     (error, record_failure L site_state request_id state (RollbackError_protocol error) h)"

section \<open>The pipeline\<close>

text \<open>The statements from the checkpoint to the switch: the errors that are handed to \<open>fail\<close>.\<close>

definition rollback_steps ::
  "crates \<Rightarrow> programs \<Rightarrow> (nat \<Rightarrow> bool) \<Rightarrow> RollbackContext \<Rightarrow> SiteManifest \<Rightarrow> RollbackRequest \<Rightarrow> ManagedRoot \<Rightarrow> host
     \<Rightarrow> (RollbackError + ReleaseId option) \<times> host" where
  "rollback_steps L P cancel ctx manifest request site_state h =
     (let content = rc_content_root ctx; site = rr_site_id request; release_id = rr_release_id request in
      try_io (prepare L content site_state site (rr_request_id request) ROLLBACK_OPERATION release_id None h)
        Rb_Recovery (\<lambda>_ h.
      try_io (resolve_site_identity P (sm_site_user manifest) h) Rb_Identity (\<lambda>identity h.
      try_io (precommit_check cancel Rb_Cancelled h) id (\<lambda>_ h.
      try_io (resolve_retained_release content site release_id h) Rb_NotFound (\<lambda>path h.
      try_io (precommit_check cancel Rb_Cancelled h) id (\<lambda>_ h.
      try_io (validate_staged_release P path identity h) Rb_Validate (\<lambda>_ h.
      try_io (precommit_check cancel Rb_Cancelled h) id (\<lambda>_ h.
      try_io (activate L content site release_id h) Rb_Activate (\<lambda>previous h. (Ok previous, h))))))))))"

text \<open>From the commit point on, as in a deploy.\<close>

definition rollback_record ::
  "crates \<Rightarrow> RollbackContext \<Rightarrow> RollbackRequest \<Rightarrow> ManagedRoot \<Rightarrow> Admitted \<Rightarrow> ReleaseId option \<Rightarrow> host
     \<Rightarrow> (RollbackError + RollbackResult) or_panic \<times> host" where
  "rollback_record L ctx request site_state admitted previous h =
     (let result = \<lparr> rb_release_id = rr_release_id request, rb_previous_release_id = previous,
                     rb_activated_at = unix_now_secs h \<rparr>
      in (case mark_committed h (RollbackResult_json result) (ad_state admitted) of
            Inl _ \<Rightarrow> (Panics, h)
          | Inr state \<Rightarrow>
              (case State_save L site_state (state_path (rr_request_id request)) state h of
                 (Inl cause, h) \<Rightarrow> (Returns (Err (Rb_PostCommitRecordFailed result cause)), release (ad_lock admitted) h)
               | (Inr _, h) \<Rightarrow>
                   let h = snd (audit_append L site_state audit_path (audit_result h (rr_request_id request) True None) h);
                       h = release (ad_lock admitted) h;
                       h = snd (prune_old_releases L (rc_content_root ctx) (rr_site_id request) (rr_release_id request)
                                  DEFAULT_RETAIN_COUNT h)
                   in (Returns (Ok result), h))))"

definition rollback_replay ::
  "crates \<Rightarrow> ManagedRoot \<Rightarrow> RequestId \<Rightarrow> host \<Rightarrow> (RollbackError + RollbackResult) or_panic \<times> host" where
  "rollback_replay L site_state original h =
     (case State_load L site_state (state_path original) h of
        (Inl e, h) \<Rightarrow> (Returns (Err (Rb_State e)), h)
      | (Inr s, h) \<Rightarrow>
          ((case ts_status s of
              InProgress \<Rightarrow> Returns (Err Rb_ReplayInProgress)
            | Committed \<Rightarrow>
                (case ts_outcome s of
                   None \<Rightarrow> Panics
                 | Some outcome \<Rightarrow>
                     (case oc_result outcome of
                        None \<Rightarrow> Panics
                      | Some v \<Rightarrow>
                          (case RollbackResult_of_json (cr_uuid L) v of
                             None \<Rightarrow> Returns (Err (Rb_State State_Corrupt))
                           | Some r \<Rightarrow> Returns (Ok r))))
            | Failed \<Rightarrow>
                (case ts_outcome s of
                   None \<Rightarrow> Panics
                 | Some outcome \<Rightarrow> Returns (Err (Rb_Replayed
                     (case oc_error_code outcome of None \<Rightarrow> Internal | Some c \<Rightarrow> c)
                     (case oc_error_message outcome of None \<Rightarrow> [] | Some m \<Rightarrow> m))))), h))"

definition rollback_execute ::
  "crates \<Rightarrow> programs \<Rightarrow> (nat \<Rightarrow> bool) \<Rightarrow> RollbackContext \<Rightarrow> SiteManifest \<Rightarrow> RollbackRequest \<Rightarrow> host
     \<Rightarrow> (RollbackError + RollbackResult) or_panic \<times> host" where
  "rollback_execute L P cancel ctx manifest request h =
     (if sm_site_id manifest \<noteq> rr_site_id request then (Returns (Err Rb_ContentRootMismatch), h)
      else if sm_content_root manifest \<noteq> current_path (rr_site_id request)
      then (Returns (Err Rb_ContentRootMismatch), h)
      else (case open_site_state (rc_engine_state ctx) (rr_site_id request) h of
         (Inl e, h) \<Rightarrow> (Returns (Err (Rb_Io e)), h)
       | (Inr site_state, h) \<Rightarrow>
           (case preflight_run L site_state (rr_request_id request) (rr_idempotency_key request) ROLLBACK_OPERATION h of
              (Inl e, h) \<Rightarrow> (Returns (Err (Rb_Preflight e)), h)
            | (Inr (Replay original), h) \<Rightarrow> rollback_replay L site_state original h
            | (Inr (Proceed admitted), h) \<Rightarrow>
                (case rollback_steps L P cancel ctx manifest request site_state h of
                   (Inl e, h) \<Rightarrow>
                     (case rollback_fail L site_state (rr_request_id request) (ad_state admitted) e h of
                        (e, h) \<Rightarrow> (Returns (Err e), release (ad_lock admitted) h))
                 | (Inr previous, h) \<Rightarrow> rollback_record L ctx request site_state admitted previous h))))"

section \<open>The way to the switch\<close>

lemma retained_same [host_frame, simp]:
  "node_at (snd (resolve_retained_release content s r h)) = node_at h"
  "env (snd (resolve_retained_release content s r h)) = env h"
proof -
  let ?p = "release_path s r"
  have k: "node_at (snd (case exists_path m ?p w of (found, h) \<Rightarrow> if \<not> found then (Err Elig_NotFound, h)
      else (case resolve_existing_path content ?p h of (Inr p, h) \<Rightarrow> (Ok p, h) | (Inl _, h) \<Rightarrow> (Err Elig_NotFound, h)))) = node_at w"
    "env (snd (case exists_path m ?p w of (found, h) \<Rightarrow> if \<not> found then (Err Elig_NotFound, h)
      else (case resolve_existing_path content ?p h of (Inr p, h) \<Rightarrow> (Ok p, h) | (Inl _, h) \<Rightarrow> (Err Elig_NotFound, h)))) = env w" for m w
  proof -
    obtain b w1 where e: "exists_path m ?p w = (b, w1)" by fastforce
    obtain x w2 where r: "resolve_existing_path content ?p w1 = (x, w2)" by fastforce
    have "node_at (snd (exists_path m ?p w)) = node_at w" "env (snd (exists_path m ?p w)) = env w" by simp_all
    moreover have "node_at (snd (resolve_existing_path content ?p w1)) = node_at w1"
      "env (snd (resolve_existing_path content ?p w1)) = env w1" by simp_all
    ultimately show "node_at (snd (case exists_path m ?p w of (found, h) \<Rightarrow> if \<not> found then (Err Elig_NotFound, h)
      else (case resolve_existing_path content ?p h of (Inr p, h) \<Rightarrow> (Ok p, h) | (Inl _, h) \<Rightarrow> (Err Elig_NotFound, h)))) = node_at w"
    "env (snd (case exists_path m ?p w of (found, h) \<Rightarrow> if \<not> found then (Err Elig_NotFound, h)
      else (case resolve_existing_path content ?p h of (Inr p, h) \<Rightarrow> (Ok p, h) | (Inl _, h) \<Rightarrow> (Err Elig_NotFound, h)))) = env w" unfolding e r by (cases b; cases x; simp add: r)+
  qed
  show "node_at (snd (resolve_retained_release content s r h)) = node_at h"
    "env (snd (resolve_retained_release content s r h)) = env h"
    unfolding resolve_retained_release_def
    by (auto simp: k intro!: try_io_keeps[where g = node_at] try_io_keeps[where g = env])
qed

lemma rollback_steps_arrive:
  assumes "confined (staging_area (rc_content_root ctx) (rr_site_id rq) (rr_release_id rq)) P" and "uuid_wf (rr_request_id rq)"
  shows "arrives (deploy_area scope (rc_content_root ctx) (rr_site_id rq) (rr_release_id rq))
    (\<lambda>h. try_io (activate L (rc_content_root ctx) (rr_site_id rq) (rr_release_id rq) h) Rb_Activate (\<lambda>p h. (Ok p, h)))
    h (rollback_steps L P cancel ctx m rq scope h)"
proof -
  let ?A = "deploy_area scope (rc_content_root ctx) (rr_site_id rq) (rr_release_id rq)"
  have confined: "confined ?A P"
    using assms(1) by (auto simp: confined_def same_outside_def deploy_area_def)
  have prep: "kept ?A w (snd (prepare L c scope s (rr_request_id rq) oper t revision w))" for w c s oper t revision
    by (rule kept_mono[OF kept_prepare[OF assms(2)]]) (simp add: deploy_area_def)
  have elig: "kept ?A w (snd (resolve_retained_release c s r w))" for c s r w by (rule kept_read) simp_all
  show ?thesis
    unfolding rollback_steps_def Let_def
    by (intro arrives_try_io arrives_here prep elig kept_check kept_identity[OF confined] kept_validate[OF confined])
qed

lemma rollback_steps_effect:
  assumes "crates_ok L" and "confined (staging_area (rc_content_root ctx) (rr_site_id rq) (rr_release_id rq)) P"
    and "uuid_wf (rr_site_id rq)" and "uuid_wf (rr_request_id rq)" and "uuid_wf (rr_release_id rq)" and "rr_release_id rq \<noteq> nil_uuid"
    and "apart (rc_content_root ctx) engine"
    and "rollback_steps L P cancel ctx m rq (engine @ p) h = (x, h')"
  shows "flocked h' = flocked h \<and> (case x of
      Inl e \<Rightarrow> node_at h' (rc_content_root ctx @ current_path (rr_site_id rq)) = node_at h (rc_content_root ctx @ current_path (rr_site_id rq))
    | Inr prev \<Rightarrow> switched L (rc_content_root ctx @ current_path (rr_site_id rq)) (rr_release_id rq) prev h h')"
  by (rule arrives_switches[where A = "deploy_area (engine @ p) (rc_content_root ctx) (rr_site_id rq) (rr_release_id rq)",
        OF assms(1,3,5,6) cur_outside(2)[OF assms(7,3)] rollback_steps_arrive[OF assms(2,4), of "engine @ p" L h cancel m, unfolded assms(8)]])

section \<open>The contract of a switch, for rollback\<close>

lemma rollback_replay_reads:
  "node_at (snd (rollback_replay L scope j h)) = node_at h" "env (snd (rollback_replay L scope j h)) = env h"
proof -
  obtain x w where ld: "State_load L scope (state_path j) h = (x, w)" by fastforce
  then have "node_at w = node_at h" "env w = env h"
    using node_at_State_load[of L scope "state_path j" h] State_env(3)[of L scope "state_path j" h] by simp_all
  with ld show "node_at (snd (rollback_replay L scope j h)) = node_at h" "env (snd (rollback_replay L scope j h)) = env h"
    by (simp_all add: rollback_replay_def split: sum.splits)
qed

lemma rollback_replay_Ok:
  assumes "rollback_replay L scope j h = (Returns (Ok r), h')"
  shows "\<exists>t oc v. stored L scope h (state_path j) = Some t \<and> ts_status t = Committed \<and> ts_outcome t = Some oc
    \<and> oc_result oc = Some v \<and> RollbackResult_of_json (cr_uuid L) v = Some r"
proof -
  obtain x w where ld: "State_load L scope (state_path j) h = (x, w)" by fastforce
  with assms obtain t where t: "x = Ok t" "w = h'" by (cases x) (auto simp: rollback_replay_def)
  from State_load_Ok[OF ld[unfolded t]] assms ld t show ?thesis
    by (auto simp: rollback_replay_def split: TransactionStatus.splits option.splits)
qed

record rollback_call =
  rl_crates :: crates
  rl_programs :: programs
  rl_cancel :: "nat \<Rightarrow> bool"
  rl_context :: RollbackContext
  rl_manifest :: SiteManifest
  rl_request :: RollbackRequest

definition rollback_admissible :: "rollback_call \<Rightarrow> bool" where
  "rollback_admissible c \<longleftrightarrow> (let rq = rl_request c; content = rc_content_root (rl_context c) in
     crates_ok (rl_crates c) \<and> uuid_wf (rr_site_id rq) \<and> uuid_wf (rr_request_id rq)
     \<and> uuid_wf (rr_release_id rq) \<and> rr_release_id rq \<noteq> nil_uuid
     \<and> apart content (rc_engine_state (rl_context c))
     \<and> confined (staging_area content (rr_site_id rq) (rr_release_id rq)) (rl_programs c)
     \<and> sm_site_id (rl_manifest c) = rr_site_id rq \<and> sm_content_root (rl_manifest c) = current_path (rr_site_id rq))"

interpretation rollback: switching rollback_admissible rl_crates "\<lambda>c. rc_content_root (rl_context c)"
  "\<lambda>c. rc_engine_state (rl_context c)" "\<lambda>c. rr_site_id (rl_request c)" "\<lambda>c. rr_request_id (rl_request c)"
  "\<lambda>c. rc_content_root (rl_context c) @ current_path (rr_site_id (rl_request c))"
  "\<lambda>c. rc_engine_state (rl_context c) @ site_path (rr_site_id (rl_request c))"
  "\<lambda>c. rr_idempotency_key (rl_request c)" ROLLBACK_OPERATION "\<lambda>c. rr_release_id (rl_request c)"
  "\<lambda>c. rollback_steps (rl_crates c) (rl_programs c) (rl_cancel c) (rl_context c) (rl_manifest c) (rl_request c)"
  "\<lambda>c. rollback_replay (rl_crates c)" Rb_Io Rb_Preflight Rb_PostCommitRecordFailed RollbackError_protocol
  "\<lambda>c prev t. \<lparr> rb_release_id = rr_release_id (rl_request c), rb_previous_release_id = prev, rb_activated_at = t \<rparr>"
  RollbackResult_json
  "\<lambda>c. rollback_record (rl_crates c) (rl_context c) (rl_request c)"
  "\<lambda>c. rollback_execute (rl_crates c) (rl_programs c) (rl_cancel c) (rl_context c) (rl_manifest c) (rl_request c)"
proof (unfold_locales, goal_cases)
  case (8 c h x h')
  then show ?case
    using rollback_steps_effect[of "rl_crates c" "rl_context c" "rl_request c" "rl_programs c" "rc_engine_state (rl_context c)"
        "rl_cancel c" "rl_manifest c" "site_path (rr_site_id (rl_request c))" h x h']
    by (auto simp: rollback_admissible_def Let_def)
next
  case (12 c root a prev h)
  show ?case by (simp add: rollback_record_def Let_def)
next
  case (13 c h)
  then show ?case
    unfolding rollback_execute_def rollback_fail_def prod.case by (simp add: rollback_admissible_def Let_def)
qed (auto simp: rollback_admissible_def rollback_replay_reads RollbackResult_json_def value_map_def Let_def)

section \<open>Properties\<close>

fun rollback_after_switch :: "RollbackError \<Rightarrow> bool" where
  "rollback_after_switch (Rb_PostCommitRecordFailed _ _) = True"
| "rollback_after_switch _ = False"

lemma rollback_steps_errs: "errs (\<lambda>e. \<not> rollback_after_switch e) (rollback_steps L P cancel ctx m rq scope h)"
  unfolding rollback_steps_def Let_def by (intro errs_try_io) simp_all

lemma rollback_replay_errs: "rollback_replay L scope j h = (Returns (Err e), h') \<Longrightarrow> \<not> rollback_after_switch e"
  by (auto simp: rollback_replay_def split: prod.splits sum.splits TransactionStatus.splits option.splits)

text \<open>What each answer says of the link \<open>cur\<close> and of the records below \<open>scope\<close>.\<close>

fun rollback_answer ::
  "crates \<Rightarrow> path \<Rightarrow> ManagedRoot \<Rightarrow> RollbackRequest \<Rightarrow> host \<Rightarrow> host \<Rightarrow> (RollbackError + RollbackResult) or_panic \<Rightarrow> bool" where
  "rollback_answer L cur scope rq h h' (Returns (Inr r)) \<longleftrightarrow>
     (switched L cur (rb_release_id r) (rb_previous_release_id r) h h' \<and> rb_release_id r = rr_release_id rq
        \<and> recorded L scope h' (rr_request_id rq) (RollbackResult_json r))
     \<or> (node_at h' cur = node_at h cur \<and> replayed_from L scope (rr_idempotency_key rq) h (\<lambda>v. RollbackResult_of_json (cr_uuid L) v = Some r))"
| "rollback_answer L cur scope rq h h' (Returns (Inl (Rb_PostCommitRecordFailed r _))) \<longleftrightarrow>
     switched L cur (rb_release_id r) (rb_previous_release_id r) h h' \<and> rb_release_id r = rr_release_id rq"
| "rollback_answer L cur scope rq h h' _ \<longleftrightarrow> node_at h' cur = node_at h cur"

lemma rollback_answer_unswitched:
  assumes "\<not> rollback_after_switch e" and "node_at h' cur = node_at h cur"
  shows "rollback_answer L cur scope rq h h' (Returns (Err e))"
  using assms by (cases e) simp_all

lemma rollback_replay_answer:
  assumes "rollback_replay L scope j w = (out, h')" and "node_at h' cur = node_at h cur"
    and "rr_idempotency_key rq = Some k" and "owner L scope h k = Some j"
    and "stored L scope h (state_path j) = Some t" and "stored L scope w (state_path j) = Some t"
  shows "rollback_answer L cur scope rq h h' out"
proof (cases out)
  case (Returns x)
  show ?thesis
  proof (cases x)
    case (Inl e)
    with assms Returns show ?thesis
      using rollback_replay_errs[of L scope j w e h'] rollback_answer_unswitched by simp
  next
    case (Inr r)
    with assms(1) Returns have "rollback_replay L scope j w = (Returns (Ok r), h')" by simp
    from rollback_replay_Ok[OF this] assms Returns Inr show ?thesis by (auto simp: replayed_from_def)
  qed
qed (use assms in simp)

lemma rollback_effect:
  assumes "crates_ok L" and "uuid_wf (rr_site_id rq)" and "uuid_wf (rr_request_id rq)" and "uuid_wf (rr_release_id rq)"
    and "rr_release_id rq \<noteq> nil_uuid"
    and "apart (rc_content_root ctx) (rc_engine_state ctx)"
    and "confined (staging_area (rc_content_root ctx) (rr_site_id rq) (rr_release_id rq)) P"
    and "rollback_execute L P cancel ctx m rq h = (out, h')"
    and "cur = rc_content_root ctx @ current_path (rr_site_id rq)" and "scope = rc_engine_state ctx @ site_path (rr_site_id rq)"
  shows "flocked h' = flocked h \<and> rollback_answer L cur scope rq h h' out"
proof (cases "sm_site_id m = rr_site_id rq \<and> sm_content_root m = current_path (rr_site_id rq)")
  case False
  with assms(8) show ?thesis by (auto simp: rollback_execute_def split: if_splits)
next
  case True
  let ?c = "\<lparr> rl_crates = L, rl_programs = P, rl_cancel = cancel, rl_context = ctx, rl_manifest = m, rl_request = rq \<rparr>"
  from True assms(1-7) have ok: "rollback_admissible ?c" by (simp add: rollback_admissible_def Let_def)
  have run: "rollback_execute (rl_crates ?c) (rl_programs ?c) (rl_cancel ?c) (rl_context ?c) (rl_manifest ?c) (rl_request ?c) h = (out, h')"
    using assms(8) by simp
  show ?thesis
  proof (cases rule: rollback.execute_cases[OF ok run])
    case (1 e)
    with assms(9) show ?thesis by (auto intro: rollback_answer_unswitched)
  next
    case (2 k j t w)
    with assms(9,10) show ?thesis
      using rollback_replay_answer[of L scope j w out h' cur h rq k t] by simp
  next
    case (3 e w w' a)
    with assms(9) show ?thesis
      using rollback_steps_errs[of L P cancel ctx m rq scope w] assms(10)
      by (auto simp: errs_def intro: rollback_answer_unswitched)
  next
    case (4 prev t w a)
    with assms(9,10) show ?thesis by auto
  qed
qed

text \<open>
  (C2) A rollback is all or nothing, and its answer tells which, as for a deploy. On success either
  \<open>current\<close> names the requested release, the result names the one it replaced and the committed record
  of this request with this result is on disk; or \<open>current\<close> is what it was, and the key of the request
  belonged, on the host as the operation found it, to a request with a committed record whose result is
  the answer. After a failure to record it the switch has happened; on every other answer \<open>current\<close> is
  what it was. However it ends, every lock is as it was.
\<close>

theorem rollback_is_all_or_nothing:
  assumes "crates_ok L" and "uuid_wf (rr_site_id rq)" and "uuid_wf (rr_request_id rq)" and "uuid_wf (rr_release_id rq)"
    and "rr_release_id rq \<noteq> nil_uuid"
    and "apart (rc_content_root ctx) (rc_engine_state ctx)"
    and "confined (staging_area (rc_content_root ctx) (rr_site_id rq) (rr_release_id rq)) P"
    and "rollback_execute L P cancel ctx m rq h = (out, h')"
    and "cur = rc_content_root ctx @ current_path (rr_site_id rq)" and "scope = rc_engine_state ctx @ site_path (rr_site_id rq)"
  shows "flocked h' = flocked h \<and> rollback_answer L cur scope rq h h' out"
  using assms by (rule rollback_effect)

section \<open>Reading a recorded result back\<close>

lemma RollbackResult_of_deploy:
  assumes "uuid_parse_ok ps" and "result_valid (dp_release_id r) (dp_previous_release_id r)"
  shows "RollbackResult_of_json ps (DeployResult_json r) = Some \<lparr> rb_release_id = dp_release_id r,
    rb_previous_release_id = dp_previous_release_id r, rb_activated_at = dp_activated_at r \<rparr>"
proof -
  have "opt (uuid_of_json ps) (Present (opt_json JStr (dp_previous_release_id r))) = Some (dp_previous_release_id r)"
    using assms by (intro opt_Present_opt_json) (auto simp: result_valid_def uuid_of_json_JStr)
  with assms show ?thesis
    by (simp add: DeployResult_json_sorted RollbackResult_of_json_def field_of_def result_valid_def uuid_of_json_JStr)
qed

text \<open>What a rollback replays is taken from the record as it is, a deploy's too.\<close>

lemma rollback_replay_of_deploy:
  assumes "crates_ok L" and "recorded L scope h j (DeployResult_json r)"
    and "result_valid (dp_release_id r) (dp_previous_release_id r)"
  shows "fst (rollback_replay L scope j h) \<in> {Returns (Ok \<lparr> rb_release_id = dp_release_id r,
      rb_previous_release_id = dp_previous_release_id r, rb_activated_at = dp_activated_at r \<rparr>),
    Returns (Err (Rb_State State_Io))}"
proof -
  from assms(2) obtain s where s: "stored L scope h (state_path j) = Some s" "ts_status s = Committed"
    "ts_outcome s = Some \<lparr> oc_ok = True, oc_result = Some (DeployResult_json r), oc_error_code = None, oc_error_message = None \<rparr>"
    unfolding recorded_def by blast
  obtain x w where ld: "State_load L scope (state_path j) h = (x, w)" by fastforce
  with State_load_stored[OF s(1)] have "x \<in> {Ok s, Err State_Io}" by simp
  with ld s RollbackResult_of_deploy[OF crates_okD(2)[OF assms(1)] assms(3)] show ?thesis
    by (auto simp: rollback_replay_def)
qed


section \<open>A closed example\<close>

definition example_rollback_context :: RollbackContext where
  "example_rollback_context = \<lparr> rc_content_root = [''srv''], rc_engine_state = [''st''] \<rparr>"

definition example_rollback_request :: RollbackRequest where
  "example_rollback_request = \<lparr> rr_site_id = example_id, rr_release_id = example_id, rr_request_id = example_id2,
     rr_idempotency_key = None \<rparr>"

definition example_rollback_result :: RollbackResult where
  "example_rollback_result = \<lparr> rb_release_id = example_id, rb_previous_release_id = None, rb_activated_at = 0 \<rparr>"

definition example_rollback_record :: TransactionState where
  "example_rollback_record = TransactionState_start (example_host []) example_id2 None ROLLBACK_OPERATION"

definition example_rollback_crates :: crates where
  "example_rollback_crates = table_crates
     [TransactionState_json example_rollback_record,
      LockRecord_json \<lparr> lr_schema_version = LOCK_SCHEMA_VERSION, lr_holder = example_id2, lr_acquired_at = 0 \<rparr>,
      AuditRecord_json (audit_mutation_start (example_host []) example_id2 None ROLLBACK_OPERATION),
      Checkpoint_json \<lparr> ck_site_id = example_id, ck_request_id = example_id2, ck_operation = ROLLBACK_OPERATION,
        ck_target = example_id, ck_previous = None, ck_revision = None \<rparr>,
      TransactionState_json (case mark_committed (example_host []) (RollbackResult_json example_rollback_result)
        example_rollback_record of Inr s \<Rightarrow> s | Inl _ \<Rightarrow> example_rollback_record),
      AuditRecord_json (audit_result (example_host []) example_id2 True None)]"

definition example_rollback_host :: host where
  "example_rollback_host = (example_host [([''st''], Dir), ([''srv''], Dir), ([''srv'', ''sites''], Dir),
     ([''srv'', ''sites'', example_id], Dir), ([''srv'', ''sites'', example_id, ''releases''], Dir),
     ([''srv'', ''sites'', example_id, ''releases'', example_id], Dir)])\<lparr>realpath := Some\<rparr>"

definition example_rollback :: "(RollbackError + RollbackResult) or_panic \<times> host" where
  "example_rollback = rollback_execute example_rollback_crates example_tools (\<lambda>_. False) example_rollback_context
     example_manifest example_rollback_request example_rollback_host"

text \<open>The steps with the programs' answers put in.\<close>

definition example_rollback_steps :: "ManagedRoot \<Rightarrow> host \<Rightarrow> (RollbackError + ReleaseId option) \<times> host" where
  "example_rollback_steps scope h =
     try_io (prepare example_rollback_crates [''srv''] scope example_id example_id2 ROLLBACK_OPERATION example_id None h)
       Rb_Recovery (\<lambda>_ h.
     try_io (resolve_retained_release [''srv''] example_id example_id h) Rb_NotFound (\<lambda>_ h.
     try_io (activate example_rollback_crates [''srv''] example_id example_id h) Rb_Activate (\<lambda>p h. (Ok p, h))))"

lemma example_rollback_steps_eq:
  "rollback_steps example_rollback_crates example_tools (\<lambda>_. False) example_rollback_context example_manifest
     example_rollback_request = example_rollback_steps"
  by (intro ext)
     (simp add: rollback_steps_def example_rollback_steps_def example_rollback_context_def example_manifest_def
        example_rollback_request_def Let_def never_cancelled example_steps_answer)

definition example_run_rollback :: "(RollbackError + RollbackResult) or_panic \<times> host" where
  "example_run_rollback =
     (case open_site_state [''st''] example_id example_rollback_host of
         (Inl e, h) \<Rightarrow> (Returns (Err (Rb_Io e)), h)
       | (Inr site_state, h) \<Rightarrow>
           (case preflight_run example_rollback_crates site_state (rr_request_id example_rollback_request)
                   (rr_idempotency_key example_rollback_request) ROLLBACK_OPERATION h of
              (Inl e, h) \<Rightarrow> (Returns (Err (Rb_Preflight e)), h)
            | (Inr (Replay original), h) \<Rightarrow> rollback_replay example_rollback_crates site_state original h
            | (Inr (Proceed admitted), h) \<Rightarrow>
                (case example_rollback_steps site_state h of
                   (Inl e, h) \<Rightarrow>
                     (case rollback_fail example_rollback_crates site_state (rr_request_id example_rollback_request) (ad_state admitted) e h of
                        (e, h) \<Rightarrow> (Returns (Err e), release (ad_lock admitted) h))
                 | (Inr previous, h) \<Rightarrow> rollback_record example_rollback_crates example_rollback_context
                     example_rollback_request site_state admitted previous h)))"

lemma example_rollback_eq: "example_rollback = example_run_rollback"
proof -
  have "current_path example_id = [''sites'', example_id, ''current'']" by (simp add: release_paths[OF example_id_wf example_id_wf])
  then show ?thesis
    unfolding example_rollback_def rollback_execute_def example_run_rollback_def example_rollback_steps_eq
    by (simp add: example_rollback_context_def example_manifest_def example_rollback_request_def)
qed

lemma example_run_rollback_succeeds:
  "case example_run_rollback of (r, h) \<Rightarrow> r = Returns (Ok example_rollback_result)
     \<and> node_at h [''srv'', ''sites'', example_id, ''current''] \<noteq> None"
  by code_simp

theorem rollback_is_all_or_nothing_witness:
  "switched example_rollback_crates [''srv'', ''sites'', example_id, ''current''] example_id None
     example_rollback_host (snd example_rollback)
   \<and> recorded example_rollback_crates [''st'', ''sites'', example_id] (snd example_rollback) example_id2
       (RollbackResult_json example_rollback_result)"
proof -
  obtain h' where run: "example_rollback = (Returns (Ok example_rollback_result), h')"
    and cur: "node_at h' [''srv'', ''sites'', example_id, ''current''] \<noteq> None"
    using example_run_rollback_succeeds by (auto simp: example_rollback_eq)
  have paths: "current_path example_id = [''sites'', example_id, ''current'']" "site_path example_id = [''sites'', example_id]"
    by (simp_all add: release_paths[OF example_id_wf example_id_wf])
  have ok: "crates_ok example_rollback_crates" by (simp add: example_rollback_crates_def)
  have ne: "example_id \<noteq> nil_uuid" by (simp add: example_id_def nil_uuid_def)
  have roots: "apart [''srv''] [''st'']" by (auto simp: apart_def below_def path_starts_with_iff)
  have "rollback_answer example_rollback_crates [''srv'', ''sites'', example_id, ''current''] [''st'', ''sites'', example_id]
      example_rollback_request example_rollback_host h' (Returns (Ok example_rollback_result))"
    using rollback_is_all_or_nothing[of example_rollback_crates example_rollback_request example_rollback_context example_tools
        "\<lambda>_. False" example_manifest example_rollback_host "Returns (Ok example_rollback_result)" h',
        OF ok _ _ _ _ _ example_tools_confined run[unfolded example_rollback_def] refl refl] ne roots
    by (simp add: example_rollback_request_def example_rollback_context_def paths del: rollback_answer.simps)
  with cur show ?thesis
    unfolding run by (auto simp: example_rollback_result_def example_rollback_request_def example_rollback_host_def node_at_def example_host_def)
qed

text \<open>A site whose one deploy has committed, and a rollback that is sent with the deploy's key.\<close>

definition example_deployed :: TransactionState where
  "example_deployed = example_done\<lparr>ts_outcome := Some \<lparr> oc_ok = True, oc_result = Some (DeployResult_json example_deploy_result),
     oc_error_code = None, oc_error_message = None \<rparr>\<rparr>"

definition example_deployed_crates :: crates where
  "example_deployed_crates = table_crates
     [TransactionState_json example_deployed,
      IndexRecord_json (new_index_record example_key example_id (example_host [])),
      IndexRecord_json (new_index_record example_key example_id2 ((example_host [])\<lparr>clock := \<lambda>_. 160\<rparr>))]"

definition example_deployed_host :: host where
  "example_deployed_host = (example_host [([''st''], Dir), ([''srv''], Dir), ([''st'', ''sites''], Dir),
     ([''st'', ''sites'', example_id], Dir), ([''st'', ''sites'', example_id, ''locks''], Dir),
     ([''st'', ''sites'', example_id, ''audit''], Dir), ([''st'', ''sites'', example_id, ''transactions''], Dir),
     ([''st'', ''sites'', example_id, ''transactions'', ''idempotency''], Dir),
     ([''st'', ''sites'', example_id] @ index_path example_key, File ''a''),
     ([''st'', ''sites'', example_id] @ state_path example_id, File [])])\<lparr>clock := \<lambda>_. 160\<rparr>"

definition example_keyed_request :: RollbackRequest where
  "example_keyed_request = example_rollback_request\<lparr>rr_idempotency_key := Some example_key\<rparr>"

definition example_opened_host :: host where
  "example_opened_host = example_deployed_host\<lparr>tick := 5\<rparr>"

definition example_misread :: "(RollbackError + RollbackResult) or_panic \<times> host" where
  "example_misread = rollback_execute example_deployed_crates example_tools (\<lambda>_. False) example_rollback_context
     example_manifest example_keyed_request example_deployed_host"

definition answers_ok :: "('e + 'a) or_panic \<Rightarrow> bool" where
  "answers_ok out = (case out of Returns (Inr _) \<Rightarrow> True | _ \<Rightarrow> False)"

lemma host_eqI: "tree h = tree h' \<Longrightarrow> tick h = tick h' \<Longrightarrow> env h = env h' \<Longrightarrow> h = h'"
  by (simp add: env_def)

lemma example_opened:
  "open_site_state [''st''] example_id example_deployed_host = (Ok [''st'', ''sites'', example_id], example_opened_host)"
proof -
  have ok: "fst (open_site_state [''st''] example_id example_deployed_host) = Ok [''st'', ''sites'', example_id]"
    and t: "tree (snd (open_site_state [''st''] example_id example_deployed_host)) = tree example_deployed_host"
      "tick (snd (open_site_state [''st''] example_id example_deployed_host)) = 5"
    by code_simp+
  have "env (snd (open_site_state [''st''] example_id h)) = env h" for h
    unfolding open_site_state_def Let_def by (intro try_io_keeps[where g = env]) simp_all
  moreover have "env example_opened_host = env example_deployed_host" by (simp add: example_opened_host_def env_def)
  ultimately have "snd (open_site_state [''st''] example_id example_deployed_host) = example_opened_host"
    using t by (intro host_eqI) (simp_all add: example_opened_host_def)
  with ok show ?thesis by (metis prod.collapse)
qed

definition replays :: "RequestId \<Rightarrow> PreflightError + Outcome \<Rightarrow> bool" where
  "replays j r = (case r of Inr (Replay i) \<Rightarrow> i = j | _ \<Rightarrow> False)"

lemma replaysD: "replays j (fst x) \<Longrightarrow> \<exists>h'. x = (Ok (Replay j), h')"
  by (cases x) (auto simp: replays_def split: sum.splits Outcome.splits)

definition example_replay :: "(PreflightError + Outcome) \<times> host" where
  "example_replay = preflight_run example_deployed_crates [''st'', ''sites'', example_id] example_id2 (Some example_key)
     ROLLBACK_OPERATION example_opened_host"

lemma example_replays: "replays example_id (fst example_replay)"
  by code_simp

lemma example_replay_answered:
  "answers_ok (fst (rollback_replay example_deployed_crates [''st'', ''sites'', example_id] example_id (snd example_replay)))"
  by code_simp

lemma example_misread_ok: "answers_ok (fst example_misread)"
proof -
  obtain h2 where p: "example_replay = (Ok (Replay example_id), h2)" using replaysD[OF example_replays] by blast
  have "current_path example_id = [''sites'', example_id, ''current'']"
    by (simp add: release_paths[OF example_id_wf example_id_wf])
  with p example_replay_answered show ?thesis
    unfolding example_misread_def rollback_execute_def example_replay_def
    by (simp add: example_rollback_context_def example_manifest_def example_keyed_request_def example_rollback_request_def
        example_opened)
qed

lemma example_misread_facts:
  "owner example_deployed_crates [''st'', ''sites'', example_id] example_deployed_host example_key = Some example_id"
  "stored example_deployed_crates [''st'', ''sites'', example_id] example_deployed_host (state_path example_id)
     = Some example_deployed"
  "names_ok example_opened_host"
  "\<not> due DEFAULT_COMPLETED_RETENTION (sweep_time example_opened_host) example_deployed"
  "ts_request_id example_deployed = example_id" "ts_status example_deployed = Committed"
  by code_simp+

lemma example_deployed_decode:
  assumes "State_decode example_deployed_crates b = Ok t"
  shows "t = example_deployed"
  by (rule table_decode[OF assms[unfolded example_deployed_crates_def]]) code_simp


end
