(* ===== verification/JournalEntry.thy ===== *)
theory JournalEntry
  imports RustText SiteTypes
begin

text \<open>
  The fields of a change journal entry and their validation (\<open>src/src/journal.rs\<close>). Strings are their
  UTF-8 bytes; every class of characters the source tests is an ASCII one, so a character outside
  ASCII and each of its bytes are treated alike, and the number of characters is the number of bytes
  that continue none.
\<close>

section \<open>Fields\<close>

datatype Source = Api | Engine

definition Source_parse :: "string \<Rightarrow> Source option" where
  "Source_parse value = (if value = ''api'' then Some Api else if value = ''engine'' then Some Engine else None)"

datatype Environment = Production | Staging_env | Development

definition Environment_parse :: "string \<Rightarrow> Environment option" where
  "Environment_parse value =
     (if value = ''production'' then Some Production else if value = ''staging'' then Some Staging_env
      else if value = ''development'' then Some Development else None)"

datatype JournalResult = Jr_Ok | Jr_Failed | Jr_Denied | Jr_Cancelled

definition JournalResult_parse :: "string \<Rightarrow> JournalResult option" where
  "JournalResult_parse value =
     (if value = ''ok'' then Some Jr_Ok else if value = ''failed'' then Some Jr_Failed
      else if value = ''denied'' then Some Jr_Denied else if value = ''cancelled'' then Some Jr_Cancelled else None)"

text \<open>A rejection names the field only.\<close>

type_synonym Rejected = string

record RawEntry =
  re_actor :: string
  re_action :: string
  re_result :: string
  re_site :: "string option"
  re_subsite :: "string option"
  re_environment :: "string option"
  re_operation_id :: "string option"
  re_target :: "string option"
  re_error_code :: "string option"
  re_summary :: "string option"

record NewEntry =
  ne_actor :: string
  ne_action :: string
  ne_result :: JournalResult
  ne_site :: "string option"
  ne_subsite :: "string option"
  ne_environment :: "Environment option"
  ne_operation_id :: "string option"
  ne_target :: "string option"
  ne_error_code :: "string option"
  ne_summary :: "string option"

definition MAX_ACTOR_LEN :: nat where "MAX_ACTOR_LEN = 64"
definition MAX_ACTION_LEN :: nat where "MAX_ACTION_LEN = 64"
definition MAX_SITE_LEN :: nat where "MAX_SITE_LEN = 64"
definition MAX_OPERATION_ID_LEN :: nat where "MAX_OPERATION_ID_LEN = 64"
definition MAX_TARGET_LEN :: nat where "MAX_TARGET_LEN = 64"
definition MAX_ERROR_CODE_LEN :: nat where "MAX_ERROR_CODE_LEN = 48"
definition MAX_SUMMARY_CHARS :: nat where "MAX_SUMMARY_CHARS = 200"

definition ACTION_NAMESPACES :: "string list" where
  "ACTION_NAMESPACES =
     [''agent'', ''auth'', ''backup'', ''cms'', ''compose'', ''cron'', ''db'', ''docker'', ''drupal'', ''engine'',
      ''file'', ''ingress'', ''joomla'', ''panel'', ''runtime'', ''site'', ''stack'', ''system'', ''tool'', ''wordpress'']"

section \<open>Identifiers\<close>

definition opaque_char :: "char \<Rightarrow> bool" where
  "opaque_char c = (is_ascii_alphanumeric c \<or> c \<in> {CHR ''+'', CHR ''/'', CHR ''=''})"

fun opaque_run :: "nat \<Rightarrow> nat \<Rightarrow> string \<Rightarrow> nat" where
  "opaque_run longest current [] = longest"
| "opaque_run longest current (c # s) =
     (if opaque_char c then opaque_run (max longest (Suc current)) (Suc current) s
      else opaque_run longest 0 s)"

definition longest_opaque_run :: "string \<Rightarrow> nat" where
  "longest_opaque_run value = opaque_run 0 0 value"

definition token_char :: "string \<Rightarrow> char \<Rightarrow> bool" where
  "token_char extra c = (is_ascii_alphanumeric c \<or> c \<in> {CHR ''.'', CHR ''_'', CHR ''-''} \<or> c \<in> set extra)"

definition token :: "string \<Rightarrow> nat \<Rightarrow> string \<Rightarrow> Rejected \<Rightarrow> Rejected + string" where
  "token value limit extra rejected =
     (if value = [] \<or> limit < length value \<or> \<not> list_all (token_char extra) value
         \<or> 40 \<le> longest_opaque_run value
      then Err rejected else Ok value)"

definition journal_error_code :: "string \<Rightarrow> Rejected + string" where
  "journal_error_code value =
     (if value = [] \<or> MAX_ERROR_CODE_LEN < length value
         \<or> \<not> list_all (\<lambda>b. is_ascii_uppercase b \<or> is_ascii_digit b \<or> b = CHR ''_'') value
      then Err ''error-code is invalid'' else Ok value)"

definition action_segment :: "string \<Rightarrow> bool" where
  "action_segment segment =
     (case segment of
        [] \<Rightarrow> False
      | c # rest \<Rightarrow> is_ascii_lowercase c \<and> length segment \<le> 24 \<and> list_all is_ascii_alphanumeric rest)"

definition action_name :: "string \<Rightarrow> Rejected + string" where
  "action_name value =
     (if MAX_ACTION_LEN < length value then Err ''action is invalid''
      else let segments = split_on CHR ''.'' value in
        if \<not> (2 \<le> length segments \<and> length segments \<le> 4) \<or> hd segments \<notin> set ACTION_NAMESPACES
        then Err ''action is invalid''
        else if \<not> list_all action_segment segments then Err ''action is invalid''
        else Ok value)"

section \<open>Free text\<close>

definition SECRET_WORDS :: "string list" where
  "SECRET_WORDS =
     [''password'', ''passwd'', ''passphrase'', ''secret'', ''token'', ''apikey'', ''api_key'', ''api-key'',
      ''authorization'', ''cookie'', ''credential'', ''private key'', ''privatekey'', ''nonce'', ''signature'']"

definition SECRET_PREFIXES :: "string list" where
  "SECRET_PREFIXES = [''eyj'', ''akia'', ''ghp_'', ''gho_'', ''github_pat_'', ''xoxb-'', ''xoxp-'']"

definition char_count :: "string \<Rightarrow> nat" where
  "char_count s = length (filter (\<lambda>c. \<not> cont_byte c) s)"

fun contains :: "string \<Rightarrow> string \<Rightarrow> bool" where
  "contains [] needle = (needle = [])"
| "contains (c # s) needle = (starts_with (c # s) needle \<or> contains s needle)"

definition query_name_char :: "char \<Rightarrow> bool" where
  "query_name_char c = (is_ascii_alphanumeric c \<or> c \<in> {CHR ''_'', CHR ''-'', CHR ''.''})"

definition query_pair_here :: "string \<Rightarrow> bool" where
  "query_pair_here rest =
     (takeWhile query_name_char rest \<noteq> []
      \<and> (case dropWhile query_name_char rest of [] \<Rightarrow> False | c # _ \<Rightarrow> c = CHR ''=''))"

fun has_query_pair :: "string \<Rightarrow> bool" where
  "has_query_pair [] = False"
| "has_query_pair (c # s) = (c \<in> {CHR ''?'', CHR ''&''} \<and> query_pair_here s \<or> has_query_pair s)"

text \<open>What follows each of the non-overlapping matches of a word, from the left (\<open>match_indices\<close>).\<close>

function after_matches :: "string \<Rightarrow> string \<Rightarrow> string list" where
  "after_matches word s =
     (if word = [] \<or> s = [] then []
      else if starts_with s word then drop (length word) s # after_matches word (drop (length word) s)
      else after_matches word (tl s))"
  by pat_completeness auto
termination by (relation "measure (\<lambda>(w, s). length s)") (auto simp: neq_Nil_conv)

declare after_matches.simps [simp del]

definition secret_gap :: "char \<Rightarrow> bool" where
  "secret_gap c = (c \<in> {CHR '' '', CHR 0x22, CHR 0x27})"

definition assigns :: "string \<Rightarrow> bool" where
  "assigns rest = (case dropWhile secret_gap rest of [] \<Rightarrow> False | c # _ \<Rightarrow> c = CHR ''='' \<or> c = CHR '':'')"

definition has_secret_assignment :: "string \<Rightarrow> bool" where
  "has_secret_assignment lower = list_ex (\<lambda>word. list_ex assigns (after_matches word lower)) SECRET_WORDS"

definition word_char :: "char \<Rightarrow> bool" where
  "word_char c = (is_ascii_alphanumeric c \<or> c = CHR ''_'' \<or> c = CHR ''-'')"

fun words_of :: "string \<Rightarrow> string list" where
  "words_of [] = [[]]"
| "words_of (c # s) =
     (case words_of s of
        [] \<Rightarrow> []
      | w # ws \<Rightarrow> if word_char c then (c # w) # ws else [] # w # ws)"

definition journal_summary :: "string \<Rightarrow> Rejected + string" where
  "journal_summary value =
     (if value = [] \<or> MAX_SUMMARY_CHARS < char_count value \<or> has_control value then Err ''summary is not allowed''
      else let lower = map to_ascii_lowercase value in
        if contains lower ''://'' \<or> contains lower ''www.'' \<or> contains lower ''bearer ''
           \<or> contains lower ''-----begin'' \<or> 32 \<le> longest_opaque_run value
           \<or> has_query_pair lower \<or> has_secret_assignment lower
           \<or> list_ex (\<lambda>word. list_ex (starts_with word) SECRET_PREFIXES) (words_of lower)
        then Err ''summary is not allowed'' else Ok value)"

section \<open>Entries\<close>

text \<open>\<open>value.map(f).transpose()?\<close>.\<close>

definition transpose_with :: "('a \<Rightarrow> 'e + 'b) \<Rightarrow> 'a option \<Rightarrow> 'e + 'b option" where
  "transpose_with f x = (case x of None \<Rightarrow> Ok None | Some v \<Rightarrow> map_ok Some (f v))"

definition ok_or :: "'a option \<Rightarrow> 'e \<Rightarrow> 'e + 'a" where
  "ok_or x e = (case x of None \<Rightarrow> Err e | Some v \<Rightarrow> Ok v)"

definition NewEntry_parse :: "RawEntry \<Rightarrow> Rejected + NewEntry" where
  "NewEntry_parse raw =
     bind_ok (token (re_actor raw) MAX_ACTOR_LEN ''@:+'' ''actor is invalid'') (\<lambda>actor.
     bind_ok (action_name (re_action raw)) (\<lambda>action.
     bind_ok (ok_or (JournalResult_parse (re_result raw)) ''result is invalid'') (\<lambda>result.
     bind_ok (transpose_with (\<lambda>v. token v MAX_SITE_LEN [] ''site is invalid'') (re_site raw)) (\<lambda>site.
     bind_ok (transpose_with (\<lambda>v. token v MAX_SITE_LEN [] ''subsite is invalid'') (re_subsite raw)) (\<lambda>subsite.
     bind_ok (transpose_with (\<lambda>v. ok_or (Environment_parse v) ''environment is invalid'') (re_environment raw)) (\<lambda>environment.
     bind_ok (transpose_with (\<lambda>v. token v MAX_OPERATION_ID_LEN '':'' ''operation-id is invalid'') (re_operation_id raw)) (\<lambda>operation_id.
     bind_ok (transpose_with (\<lambda>v. token v MAX_TARGET_LEN ''@:+'' ''target is invalid'') (re_target raw)) (\<lambda>target.
     bind_ok (transpose_with journal_error_code (re_error_code raw)) (\<lambda>error_code.
     bind_ok (transpose_with journal_summary (re_summary raw)) (\<lambda>summary.
       Ok \<lparr> ne_actor = actor, ne_action = action, ne_result = result, ne_site = site, ne_subsite = subsite,
            ne_environment = environment, ne_operation_id = operation_id, ne_target = target,
            ne_error_code = error_code, ne_summary = summary \<rparr>))))))))))"

section \<open>What the tests exclude\<close>

lemma starts_with_iff: "starts_with s p \<longleftrightarrow> (\<exists>r. s = p @ r)"
proof
  assume "starts_with s p"
  then have "s = p @ drop (length p) s" using append_take_drop_id[of "length p" s] by (simp add: starts_with_def)
  then show "\<exists>r. s = p @ r" ..
qed auto

lemma contains_iff: "contains s needle \<longleftrightarrow> (\<exists>a b. s = a @ needle @ b)"
proof (induction s)
  case (Cons c s)
  note IH = Cons.IH
  show ?case
  proof
    assume "contains (c # s) needle"
    then consider "starts_with (c # s) needle" | "contains s needle" by auto
    then show "\<exists>a b. c # s = a @ needle @ b"
    proof cases
      case 1
      then have "\<exists>b. c # s = [] @ needle @ b" by (simp add: starts_with_iff)
      then show ?thesis by blast
    next
      case 2
      then obtain a b where "s = a @ needle @ b" using IH by blast
      then have "c # s = (c # a) @ needle @ b" by simp
      then show ?thesis by blast
    qed
  next
    assume "\<exists>a b. c # s = a @ needle @ b"
    then obtain a b where e: "c # s = a @ needle @ b" by blast
    show "contains (c # s) needle"
    proof (cases a)
      case Nil
      with e have "starts_with (c # s) needle" by simp
      then show ?thesis by simp
    next
      case (Cons d a')
      with e have "s = a' @ needle @ b" by simp
      then show ?thesis using IH by auto
    qed
  qed
qed simp

lemma opaque_run_ge: "longest \<le> opaque_run longest current s"
proof (induction s arbitrary: longest current)
  case (Cons c s)
  have "longest \<le> max longest (Suc current)" by simp
  also have "\<dots> \<le> opaque_run (max longest (Suc current)) (Suc current) s" by (rule Cons)
  finally show ?case using Cons by simp
qed simp

lemma opaque_run_counts:
  "run \<noteq> [] \<Longrightarrow> list_all opaque_char run \<Longrightarrow> current + length run \<le> opaque_run longest current (run @ b)"
proof (induction run arbitrary: longest current)
  case (Cons c run)
  show ?case
  proof (cases "run = []")
    case True
    have "Suc current \<le> max longest (Suc current)" by simp
    then show ?thesis using Cons.prems True le_trans[OF _ opaque_run_ge] by simp
  next
    case False
    then show ?thesis using Cons.IH[of "Suc current" "max longest (Suc current)"] Cons.prems by simp
  qed
qed simp

lemma longest_run_bound:
  assumes "list_all opaque_char run"
  shows "length run \<le> longest_opaque_run (a @ run @ b)"
proof -
  have "run \<noteq> [] \<Longrightarrow> length run \<le> opaque_run longest current (a @ run @ b)" for longest current
  proof (induction a arbitrary: longest current)
    case Nil
    then show ?case using opaque_run_counts[OF _ assms, of current longest b] by simp
  qed simp
  then show ?thesis by (cases "run = []") (simp_all add: longest_opaque_run_def)
qed

definition border_free :: "string \<Rightarrow> bool" where
  "border_free w = list_all (\<lambda>k. take k w \<noteq> drop (length w - k) w) [1..<length w]"

lemma after_matches_complete:
  assumes "border_free w" and "w \<noteq> []"
  shows "s = a @ w @ r \<Longrightarrow> r \<in> set (after_matches w s)"
proof (induction "length s" arbitrary: s a rule: less_induct)
  case less
  then have ne: "s \<noteq> []" using assms(2) by simp
  show ?case
  proof (cases "starts_with s w")
    case True
    then obtain t where t: "s = w @ t" by (auto simp: starts_with_iff)
    have step: "after_matches w s = t # after_matches w t"
      using True ne assms(2) t by (subst after_matches.simps) simp
    show ?thesis
    proof (cases "length w \<le> length a")
      case True
      have eq: "w @ t = a @ w @ r" using t less.prems by simp
      then have "take (length w) (w @ t) = take (length w) (a @ w @ r)" by simp
      with True have "w = take (length w) a" by simp
      then have "a = w @ drop (length w) a" using append_take_drop_id[of "length w" a] by simp
      then obtain a' where a': "a = w @ a'" ..
      with eq have "t = a' @ w @ r" by simp
      with a' show ?thesis using less.hyps[of t a'] t assms(2) step by simp
    next
      case False
      show ?thesis
      proof (cases "a = []")
        case True
        then show ?thesis using t less.prems step by simp
      next
        case False
        have eq: "w @ t = a @ w @ r" using t less.prems by simp
        then have "take (length a) (w @ t) = take (length a) (a @ w @ r)" by simp
        with \<open>\<not> length w \<le> length a\<close> have "take (length a) w = a" by simp
        then have "w = a @ drop (length a) w" using append_take_drop_id[of "length a" w] by simp
        then obtain v where v: "w = a @ v" ..
        with eq have "v @ t = w @ r" by simp
        then have "take (length v) (w @ r) = v" by (metis append_eq_conv_conj)
        then have "take (length v) w = v" using v by (simp add: take_Cons')
        moreover have "drop (length w - length v) w = v" using v by simp
        moreover have "1 \<le> length v" "length v < length w"
          using False v \<open>\<not> length w \<le> length a\<close> by (auto simp: Suc_le_eq)
        ultimately have "length v \<in> set [1..<length w]" "take (length v) w = drop (length w - length v) w" by auto
        then show ?thesis using assms(1) unfolding border_free_def list_all_iff by blast
      qed
    qed
  next
    case False
    then obtain c a' where a: "a = c # a'" using less.prems by (cases a) auto
    then have "after_matches w s = after_matches w (a' @ w @ r)"
      using False less.prems assms(2) by (subst after_matches.simps) simp
    then show ?thesis using less.hyps[of "a' @ w @ r" a'] less.prems a by simp
  qed
qed

lemma secret_words_border_free: "list_all (\<lambda>w. border_free w \<and> w \<noteq> []) SECRET_WORDS"
  by code_simp

lemma assigns_intro: "list_all secret_gap gap \<Longrightarrow> sep \<in> {CHR ''='', CHR '':''} \<Longrightarrow> assigns (gap @ sep # b)"
  by (induction gap) (auto simp: assigns_def secret_gap_def)

lemma no_assignment:
  assumes "\<not> has_secret_assignment lower" and "word \<in> set SECRET_WORDS" and "list_all secret_gap gap"
    and "sep \<in> {CHR ''='', CHR '':''}"
  shows "lower \<noteq> a @ word @ gap @ sep # b"
proof
  assume "lower = a @ word @ gap @ sep # b"
  moreover have "border_free word" "word \<noteq> []"
    using secret_words_border_free assms(2) by (auto simp: list_all_iff)
  ultimately have "gap @ sep # b \<in> set (after_matches word lower)" using after_matches_complete by blast
  moreover have "assigns (gap @ sep # b)" using assms(3,4) by (rule assigns_intro)
  ultimately show False using assms(1,2) by (auto simp: has_secret_assignment_def list_ex_iff)
qed

lemma token_Ok: "token v limit extra e = Ok x \<Longrightarrow> x = v \<and> v \<noteq> [] \<and> length v \<le> limit
    \<and> list_all (token_char extra) v \<and> longest_opaque_run v < 40"
  by (auto simp: token_def split: if_splits)

lemma transpose_with_Ok: "transpose_with f x = Ok y \<Longrightarrow> (case y of None \<Rightarrow> x = None | Some v \<Rightarrow> \<exists>u. x = Some u \<and> f u = Ok v)"
  by (cases x; cases y) (auto simp: transpose_with_def map_ok_def split: sum.splits)

lemma bind_ok_OkD: "bind_ok r k = Ok y \<Longrightarrow> \<exists>x. r = Ok x \<and> k x = Ok y"
  by (cases r) auto

lemma NewEntry_parse_summary:
  assumes "NewEntry_parse raw = Ok e" and "ne_summary e = Some t"
  shows "journal_summary t = Ok t"
proof -
  from assms have "\<exists>u. journal_summary u = Ok t"
    unfolding NewEntry_parse_def
    by (auto dest!: bind_ok_OkD transpose_with_Ok)
  then show ?thesis by (auto simp: journal_summary_def Let_def split: if_splits)
qed

text \<open>
  (C23) The only free text of a journal entry carries no secret the validation knows of: an accepted
  summary, in lower case, contains no scheme of an address, no bearer value, no key header, and no
  secret word that is followed, after blanks or quotes, by an equals sign or a colon; it contains no
  run of 32 or more characters of an encoded token, no control character, and is at most 200
  characters long.
\<close>

theorem journal_summary_carries_no_secret:
  assumes "NewEntry_parse raw = Ok e" and "ne_summary e = Some t" and "lower = map to_ascii_lowercase t"
  shows "(\<forall>needle \<in> {''://'', ''www.'', ''bearer '', ''-----begin''}. \<forall>a b. lower \<noteq> a @ needle @ b)
    \<and> (\<forall>word \<in> set SECRET_WORDS. \<forall>a gap sep b. list_all secret_gap gap \<and> sep \<in> {CHR ''='', CHR '':''} \<longrightarrow>
         lower \<noteq> a @ word @ gap @ sep # b)
    \<and> (\<forall>a run b. list_all opaque_char run \<and> t = a @ run @ b \<longrightarrow> length run < 32)
    \<and> \<not> has_control t \<and> t \<noteq> [] \<and> char_count t \<le> 200"
proof -
  from NewEntry_parse_summary[OF assms(1,2)] assms(3)
  have ok: "t \<noteq> []" "char_count t \<le> 200" "\<not> has_control t"
    and no: "\<not> contains lower ''://''" "\<not> contains lower ''www.''" "\<not> contains lower ''bearer ''"
      "\<not> contains lower ''-----begin''"
    and run: "longest_opaque_run t < 32" and sec: "\<not> has_secret_assignment lower"
    by (auto simp: journal_summary_def MAX_SUMMARY_CHARS_def Let_def split: if_splits)
  have 3: "length run < 32" if "list_all opaque_char run" "t = a @ run @ b" for a run b
    using longest_run_bound[OF that(1), of a b] that(2) run by simp
  have 1: "lower \<noteq> a @ needle @ b" if "needle \<in> {''://'', ''www.'', ''bearer '', ''-----begin''}" for needle a b
  proof -
    have "\<not> contains lower needle" using that no by blast
    then show ?thesis unfolding contains_iff by blast
  qed
  have 2: "lower \<noteq> a @ word @ gap @ sep # b"
    if "word \<in> set SECRET_WORDS" "list_all secret_gap gap \<and> sep \<in> {CHR ''='', CHR '':''}" for word a gap sep b
    using no_assignment[OF sec that(1)] that(2) by blast
  show ?thesis
    by (intro conjI ballI allI impI) (fact ok | erule 1 | erule (1) 2 | elim conjE, erule (1) 3)+
qed

definition example_raw_entry :: RawEntry where
  "example_raw_entry = \<lparr> re_actor = ''alice@example.com'', re_action = ''site.deploy'', re_result = ''ok'',
     re_site = Some ''shop'', re_subsite = None, re_environment = Some ''production'', re_operation_id = None,
     re_target = None, re_error_code = None, re_summary = Some ''token rotated, 2 files'' \<rparr>"

lemma journal_summary_accepts:
  assumes "t \<noteq> []" "char_count t < 30" "\<not> has_control t" "map to_ascii_lowercase t = t"
    "list_all (\<lambda>needle. \<not> contains t needle) [''://'', ''www.'', ''bearer '', ''-----begin'']"
    "longest_opaque_run t < 20" "\<not> has_query_pair t" "\<not> has_secret_assignment t"
    "\<not> list_ex (\<lambda>word. list_ex (starts_with word) SECRET_PREFIXES) (words_of t)"
  shows "journal_summary t = Ok t"
  using assms by (simp add: journal_summary_def MAX_SUMMARY_CHARS_def)

lemma example_summary_accepted: "journal_summary ''token rotated, 2 files'' = Ok ''token rotated, 2 files''"
  by (rule journal_summary_accepts; code_simp)

lemma token_accepts:
  assumes "v \<noteq> []" "length v < 20" "list_all (token_char extra) v" "longest_opaque_run v < 20"
  shows "token v 64 extra e = Ok v"
  using assms by (simp add: token_def)

lemma example_entry_accepted:
  "\<exists>e. NewEntry_parse example_raw_entry = Ok e \<and> ne_summary e = Some ''token rotated, 2 files''"
proof -
  have "token ''alice@example.com'' MAX_ACTOR_LEN ''@:+'' ''actor is invalid'' = Ok ''alice@example.com''"
    unfolding MAX_ACTOR_LEN_def by (rule token_accepts; code_simp)
  moreover have "action_name ''site.deploy'' = Ok ''site.deploy''"
    by code_simp
  moreover have "token ''shop'' MAX_SITE_LEN [] ''site is invalid'' = Ok ''shop''"
    unfolding MAX_SITE_LEN_def by (rule token_accepts; code_simp)
  ultimately show ?thesis
    by (simp add: NewEntry_parse_def example_raw_entry_def transpose_with_def ok_or_def map_ok_def
        JournalResult_parse_def Environment_parse_def example_summary_accepted)
qed

theorem journal_summary_carries_no_secret_witness:
  "\<forall>a b. ''token rotated, 2 files'' \<noteq> a @ ''token'' @ '' '' @ CHR ''='' # b"
proof -
  obtain e where e: "NewEntry_parse example_raw_entry = Ok e" "ne_summary e = Some ''token rotated, 2 files''"
    using example_entry_accepted by blast
  have low: "''token rotated, 2 files'' = map to_ascii_lowercase ''token rotated, 2 files''" by code_simp
  have "''token'' \<in> set SECRET_WORDS" "list_all secret_gap '' '' \<and> CHR ''='' \<in> {CHR ''='', CHR '':''}"
    by (simp_all add: SECRET_WORDS_def secret_gap_def)
  with journal_summary_carries_no_secret[OF e low] show ?thesis by blast
qed

end
