(* ===== verification/Journal.thy ===== *)
theory Journal
  imports JournalEntry SiteLock
begin

text \<open>
  The segments of the change journal and its operations (\<open>src/src/journal.rs\<close>): appending an entry,
  rotating and removing segments, and listing a page.

  Two parameters stand for what the host record does not hold. \<open>modes\<close> gives the permission bits a
  \<open>metadata\<close> call reports, at each path and call; changing them is a call that may fail and has no
  effect on the tree. \<open>W\<close> is the rest of the machine during the wait for the journal lock: whether the
  holder has let go by an attempt, and how much longer than the slept 5 ms per attempt it has taken.
  An opened file is the bytes it had when it was opened; the lock keeps other processes away.
\<close>

section \<open>Constants\<close>

definition JOURNAL_SCHEMA_VERSION :: u32 where "JOURNAL_SCHEMA_VERSION = 1"
definition JOURNAL_DIR :: string where "JOURNAL_DIR = ''journal''"
definition ACTIVE :: string where "ACTIVE = ''events.jsonl''"
definition JOURNAL_LOCK :: string where "JOURNAL_LOCK = ''journal.lock''"
definition ROTATED_PREFIX :: string where "ROTATED_PREFIX = ''events.''"
definition ROTATED_SUFFIX :: string where "ROTATED_SUFFIX = ''.jsonl''"
definition MAX_SEGMENT_BYTES :: nat where "MAX_SEGMENT_BYTES = 2 * 1024 * 1024"
definition MAX_SEGMENTS :: nat where "MAX_SEGMENTS = 10"
definition RETENTION :: nat where "RETENTION = 400 * 24 * 60 * 60"
definition MAX_LINE_BYTES :: nat where "MAX_LINE_BYTES = 2048"
definition TAIL_BYTES :: nat where "TAIL_BYTES = 256 * 1024"
definition LOCK_WAIT :: nat where "LOCK_WAIT = 3000"
definition LIST_DEFAULT_LIMIT :: nat where "LIST_DEFAULT_LIMIT = 50"
definition LIST_MAX_LIMIT :: nat where "LIST_MAX_LIMIT = 200"

definition U64_MAX :: nat where "U64_MAX = 2 ^ 64 - 1"

datatype JournalError = J_Busy | J_Io

section \<open>Stored entries\<close>

record Entry =
  en_schema_version :: u32
  en_seq :: u64
  en_id :: RequestId
  en_at_unix_secs :: u64
  en_source :: Source
  en_actor :: string
  en_action :: string
  en_result :: JournalResult
  en_site :: "string option"
  en_subsite :: "string option"
  en_environment :: "Environment option"
  en_operation_id :: "string option"
  en_target :: "string option"
  en_error_code :: "string option"
  en_summary :: "string option"
  en_idempotency_key :: "string option"

definition Source_json :: "Source \<Rightarrow> json" where
  "Source_json s = JStr (case s of Api \<Rightarrow> ''api'' | Engine \<Rightarrow> ''engine'')"

definition Environment_json :: "Environment \<Rightarrow> json" where
  "Environment_json e = JStr (case e of Production \<Rightarrow> ''production'' | Staging_env \<Rightarrow> ''staging''
     | Development \<Rightarrow> ''development'')"

definition JournalResult_json :: "JournalResult \<Rightarrow> json" where
  "JournalResult_json r = JStr (case r of Jr_Ok \<Rightarrow> ''ok'' | Jr_Failed \<Rightarrow> ''failed''
     | Jr_Denied \<Rightarrow> ''denied'' | Jr_Cancelled \<Rightarrow> ''cancelled'')"

text \<open>A field that is skipped when it is \<open>None\<close>.\<close>

definition skip_none :: "string \<Rightarrow> ('a \<Rightarrow> json) \<Rightarrow> 'a option \<Rightarrow> (string \<times> json) list" where
  "skip_none k e x = (case x of None \<Rightarrow> [] | Some v \<Rightarrow> [(k, e v)])"

definition Entry_json :: "Entry \<Rightarrow> json" where
  "Entry_json e = JObj
     ([(''schemaVersion'', json_u32 (en_schema_version e)), (''seq'', json_u64 (en_seq e)),
       (''id'', JStr (en_id e)), (''atUnixSecs'', json_u64 (en_at_unix_secs e)),
       (''source'', Source_json (en_source e)), (''actor'', JStr (en_actor e)),
       (''action'', JStr (en_action e)), (''result'', JournalResult_json (en_result e))]
      @ skip_none ''site'' JStr (en_site e) @ skip_none ''subsite'' JStr (en_subsite e)
      @ skip_none ''environment'' Environment_json (en_environment e)
      @ skip_none ''operationId'' JStr (en_operation_id e) @ skip_none ''target'' JStr (en_target e)
      @ skip_none ''errorCode'' JStr (en_error_code e) @ skip_none ''summary'' JStr (en_summary e)
      @ skip_none ''idempotencyKey'' JStr (en_idempotency_key e))"

definition Entry_of_json :: "(string \<Rightarrow> uuid option) \<Rightarrow> json \<Rightarrow> Entry option" where
  "Entry_of_json parse_str v =
     Option.bind (as_obj v) (\<lambda>kvs.
     Option.bind (req as_u32 (field_of ''schemaVersion'' kvs)) (\<lambda>sv.
     Option.bind (req as_u64 (field_of ''seq'' kvs)) (\<lambda>sq.
     Option.bind (req (uuid_of_json parse_str) (field_of ''id'' kvs)) (\<lambda>i.
     Option.bind (req as_u64 (field_of ''atUnixSecs'' kvs)) (\<lambda>at.
     Option.bind (req (\<lambda>v. Option.bind (as_str v) Source_parse) (field_of ''source'' kvs)) (\<lambda>src.
     Option.bind (req as_str (field_of ''actor'' kvs)) (\<lambda>actor.
     Option.bind (req as_str (field_of ''action'' kvs)) (\<lambda>action.
     Option.bind (req (\<lambda>v. Option.bind (as_str v) JournalResult_parse) (field_of ''result'' kvs)) (\<lambda>result.
     Option.bind (opt as_str (field_of ''site'' kvs)) (\<lambda>site.
     Option.bind (opt as_str (field_of ''subsite'' kvs)) (\<lambda>subsite.
     Option.bind (opt (\<lambda>v. Option.bind (as_str v) Environment_parse) (field_of ''environment'' kvs)) (\<lambda>environment.
     Option.bind (opt as_str (field_of ''operationId'' kvs)) (\<lambda>operation_id.
     Option.bind (opt as_str (field_of ''target'' kvs)) (\<lambda>target.
     Option.bind (opt as_str (field_of ''errorCode'' kvs)) (\<lambda>error_code.
     Option.bind (opt as_str (field_of ''summary'' kvs)) (\<lambda>summary.
     Option.bind (opt as_str (field_of ''idempotencyKey'' kvs)) (\<lambda>key.
       Some \<lparr> en_schema_version = sv, en_seq = sq, en_id = i, en_at_unix_secs = at, en_source = src,
              en_actor = actor, en_action = action, en_result = result, en_site = site, en_subsite = subsite,
              en_environment = environment, en_operation_id = operation_id, en_target = target,
              en_error_code = error_code, en_summary = summary, en_idempotency_key = key \<rparr>)))))))))))))))))"

record AppendOutcome =
  ao_entry :: Entry
  ao_replayed :: bool

record ListOutcome =
  lo_entries :: "Entry list"
  lo_next_cursor :: "u64 option"
  lo_skipped :: nat

section \<open>Segment names\<close>

definition dec_digit :: "nat \<Rightarrow> char" where
  "dec_digit v = char_of (48 + v mod 10)"

fun dec_fixed :: "nat \<Rightarrow> nat \<Rightarrow> string" where
  "dec_fixed 0 v = []"
| "dec_fixed (Suc n) v = dec_fixed n (v div 10) @ [dec_digit v]"

definition rotated_name :: "u64 \<Rightarrow> string" where
  "rotated_name last_seq = ROTATED_PREFIX @ dec_fixed 20 (unat last_seq) @ ROTATED_SUFFIX"

definition rotated_seq :: "string \<Rightarrow> u64 option" where
  "rotated_seq name =
     Option.bind (strip_prefix name ROTATED_PREFIX) (\<lambda>rest.
     Option.bind (strip_suffix rest ROTATED_SUFFIX) (\<lambda>digits.
       if length digits = 20 \<and> list_all is_ascii_digit digits \<and> digits_value digits \<le> U64_MAX
       then Some (of_nat (digits_value digits)) else None))"

text \<open>Oldest first. The sequence number determines the name, so it alone is the sort key.\<close>

definition rotated_segments :: "ManagedRoot \<Rightarrow> host \<Rightarrow> (u64 \<times> string) list io" where
  "rotated_segments dir h =
     try_io (file_names dir h) id (\<lambda>names h.
       (Ok (sort_key fst (List.map_filter (\<lambda>name. map_option (\<lambda>s. (s, name)) (rotated_seq name)) names)), h))"

section \<open>Opening and locking\<close>

type_synonym modes = "path \<Rightarrow> nat \<Rightarrow> nat"

definition mode :: "modes \<Rightarrow> path \<Rightarrow> host \<Rightarrow> nat io" where
  "mode modes p h = io_call h (\<lambda>h.
     case node_at h p of None \<Rightarrow> (Err IoNotFound, h) | Some _ \<Rightarrow> (Ok (modes p (tick h)), h))"

definition set_mode :: "path \<Rightarrow> host \<Rightarrow> unit io" where
  "set_mode p h = io_call h (\<lambda>h.
     case node_at h p of None \<Rightarrow> (Err IoNotFound, h) | Some _ \<Rightarrow> (Ok (), h))"

text \<open>\<open>0o600\<close> and \<open>0o700\<close>.\<close>

definition ensure_mode :: "modes \<Rightarrow> nat \<Rightarrow> path \<Rightarrow> host \<Rightarrow> (JournalError + unit) \<times> host" where
  "ensure_mode modes bits p h =
     try_io (mode modes p h) (\<lambda>_. J_Io) (\<lambda>m h.
       if m \<noteq> bits then try_io (set_mode p h) (\<lambda>_. J_Io) (\<lambda>_ h. (Ok (), h)) else (Ok (), h))"

definition create_private :: "modes \<Rightarrow> ManagedRoot \<Rightarrow> string \<Rightarrow> host \<Rightarrow> (JournalError + unit) \<times> host" where
  "create_private modes dir name h =
     (case open_new (dir @ [name]) h of
        (Inr _, h) \<Rightarrow> (Ok (), h)
      | (Inl e, h) \<Rightarrow>
          if e = IoAlreadyExists then ensure_mode modes (6 * 64) (dir @ [name]) h else (Err J_Io, h))"

definition open_dir :: "modes \<Rightarrow> ManagedRoot \<Rightarrow> bool \<Rightarrow> host \<Rightarrow> (JournalError + ManagedRoot option) \<times> host" where
  "open_dir modes state create h =
     try_io (if create
             then try_io (create_dir_all state [JOURNAL_DIR] h) (\<lambda>_. J_Io)
                    (\<lambda>_ h. ensure_mode modes (7 * 64) (state @ [JOURNAL_DIR]) h)
             else (Ok (), h)) id (\<lambda>_ h.
       (case open_managed_dir state [JOURNAL_DIR] h of
          (Inr dir, h) \<Rightarrow> (Ok (Some dir), h)
        | (Inl e, h) \<Rightarrow> if e = IoNotFound \<and> \<not> create then (Ok None, h) else (Err J_Io, h)))"

record lock_wait =
  lw_freed :: "nat \<Rightarrow> bool"
  lw_lag :: "nat \<Rightarrow> nat"

definition flock_attempt :: "lock_wait \<Rightarrow> path \<Rightarrow> nat \<Rightarrow> host \<Rightarrow> unit io" where
  "flock_attempt W p n h = io_call h (\<lambda>h.
     if flocked h p \<and> \<not> lw_freed W n then (Err IoWouldBlock, h)
     else (Ok (), h\<lparr>flocked := (flocked h)(p := True)\<rparr>))"

text \<open>Attempt \<open>n\<close> happens after \<open>n\<close> sleeps of 5 ms, which bounds the number of attempts.\<close>

function lock_loop :: "lock_wait \<Rightarrow> path \<Rightarrow> nat \<Rightarrow> host \<Rightarrow> (JournalError + path) \<times> host" where
  "lock_loop W p n h =
     (case flock_attempt W p n h of
        (Inr _, h) \<Rightarrow> (Ok p, h)
      | (Inl e, h) \<Rightarrow>
          if e \<noteq> IoWouldBlock then (Err J_Io, h)
          else if LOCK_WAIT \<le> 5 * n + lw_lag W n then (Err J_Busy, h)
          else lock_loop W p (Suc n) h)"
  by pat_completeness auto
termination by (relation "measure (\<lambda>(W, p, n, h). LOCK_WAIT - n)") auto

declare lock_loop.simps [simp del]

definition journal_lock :: "modes \<Rightarrow> lock_wait \<Rightarrow> ManagedRoot \<Rightarrow> host \<Rightarrow> (JournalError + path) \<times> host" where
  "journal_lock modes W dir h =
     try_io (create_private modes dir JOURNAL_LOCK h) id (\<lambda>_ h.
     try_io (open_or_create_file dir [JOURNAL_LOCK] h) (\<lambda>_. J_Io) (\<lambda>_ h.
       lock_loop W (dir @ [JOURNAL_LOCK]) 0 h))"

section \<open>Reading a segment\<close>

text \<open>A call on an open descriptor that changes nothing: \<open>fstat\<close>, \<open>lseek\<close>.\<close>

definition fd_call :: "host \<Rightarrow> unit io" where
  "fd_call h = io_call h (\<lambda>h. (Ok (), h))"

definition tail_of :: "nat \<Rightarrow> bytes \<Rightarrow> bytes" where
  "tail_of limit b =
     (let start = length b - limit; bytes = take limit (drop start b) in
      if 0 < start then drop 1 (dropWhile (\<lambda>c. c \<noteq> line_feed) bytes) else bytes)"

definition read_tail :: "nat \<Rightarrow> bytes \<Rightarrow> host \<Rightarrow> bytes io" where
  "read_tail limit b h =
     try_io (fd_call h) id (\<lambda>_ h.
     try_io (fd_call h) id (\<lambda>_ h.
     io_call h (\<lambda>h. (Ok (tail_of limit b), h))))"

definition is_ascii_whitespace :: "char \<Rightarrow> bool" where
  "is_ascii_whitespace c = (byte_of c \<in> {9, 10, 12, 13, 32})"

definition parse_line :: "crates \<Rightarrow> bytes \<Rightarrow> Entry option" where
  "parse_line L line =
     (case from_slice (cr_json L) (Entry_of_json (cr_uuid L)) line of
        None \<Rightarrow> None
      | Some entry \<Rightarrow> if 1 \<le> en_schema_version entry then Some entry else None)"

fun parse_each :: "crates \<Rightarrow> bytes list \<Rightarrow> Entry list \<times> nat" where
  "parse_each L [] = ([], 0)"
| "parse_each L (line # rest) =
     (let (entries, skipped) = parse_each L rest in
      if list_all is_ascii_whitespace line then (entries, skipped)
      else case parse_line L line of
             Some entry \<Rightarrow> (entry # entries, skipped)
           | None \<Rightarrow> (entries, Suc skipped))"

definition parse_lines :: "crates \<Rightarrow> bytes \<Rightarrow> Entry list \<times> nat" where
  "parse_lines L b = parse_each L (split_on line_feed b)"

section \<open>Retention\<close>

definition remove_segments :: "ManagedRoot \<Rightarrow> string list \<Rightarrow> host \<Rightarrow> host" where
  "remove_segments dir names h = fold (\<lambda>name h. snd (remove_file dir [name] h)) names h"

text \<open>The modification time in seconds; \<open>None\<close> when the call fails or it is before the epoch.\<close>

definition modified_secs :: "ManagedRoot \<Rightarrow> string \<Rightarrow> host \<Rightarrow> nat option \<times> host" where
  "modified_secs dir name h =
     (if fails h (tick h) \<or> node_at h (dir @ [name]) = None then None
      else map_option (\<lambda>m. m div 10 ^ 9) (mtime h (dir @ [name])), next_tick h)"

definition remove_if_old :: "ManagedRoot \<Rightarrow> u64 \<Rightarrow> string \<Rightarrow> host \<Rightarrow> host" where
  "remove_if_old dir now name h =
     (case modified_secs dir name h of
        (Some m, h) \<Rightarrow>
          if min (m + RETENTION) U64_MAX < unat now then snd (remove_file dir [name] h) else h
      | (None, h) \<Rightarrow> h)"

definition journal_prune :: "ManagedRoot \<Rightarrow> u64 \<Rightarrow> nat \<Rightarrow> host \<Rightarrow> host" where
  "journal_prune dir now max_segments h =
     (case rotated_segments dir h of
        (Inl _, h) \<Rightarrow> h
      | (Inr segments, h) \<Rightarrow>
          let names = map snd segments; k = length names - max_segments in
          fold (remove_if_old dir now) (drop k names) (remove_segments dir (take k names) h))"

section \<open>Appending\<close>

record Limits =
  li_segment_bytes :: nat
  li_segments :: nat

definition Limits_DEFAULT :: Limits where
  "Limits_DEFAULT = \<lparr> li_segment_bytes = MAX_SEGMENT_BYTES, li_segments = MAX_SEGMENTS \<rparr>"

definition same_request :: "RequestId \<Rightarrow> IdempotencyKey option \<Rightarrow> Entry \<Rightarrow> bool" where
  "same_request request_id key e = (en_id e = request_id \<or> key \<noteq> None \<and> en_idempotency_key e = key)"

definition last_seq_of :: "Entry list \<Rightarrow> (u64 \<times> string) list \<Rightarrow> u64" where
  "last_seq_of recent rotated =
     fold max (map en_seq recent @ (if rotated = [] then [] else [fst (last rotated)])) 0"

text \<open>The number wraps around, as it does in a release build.\<close>

definition stored_entry ::
  "NewEntry \<Rightarrow> u64 \<Rightarrow> RequestId \<Rightarrow> IdempotencyKey option \<Rightarrow> Source \<Rightarrow> u64 \<Rightarrow> Entry" where
  "stored_entry entry last_seq request_id key src now =
     \<lparr> en_schema_version = JOURNAL_SCHEMA_VERSION, en_seq = last_seq + 1, en_id = request_id,
       en_at_unix_secs = now, en_source = src, en_actor = ne_actor entry, en_action = ne_action entry,
       en_result = ne_result entry, en_site = ne_site entry, en_subsite = ne_subsite entry,
       en_environment = ne_environment entry, en_operation_id = ne_operation_id entry,
       en_target = ne_target entry, en_error_code = ne_error_code entry, en_summary = ne_summary entry,
       en_idempotency_key = key \<rparr>"

text \<open>
  Rotation before the write: the bytes of the segment to write to and the buffer, which loses the
  line break that closed a torn line of the old segment.
\<close>

definition rotate_segment ::
  "modes \<Rightarrow> ManagedRoot \<Rightarrow> u64 \<Rightarrow> Limits \<Rightarrow> bytes \<Rightarrow> u64 \<Rightarrow> bool \<Rightarrow> bytes \<Rightarrow> host \<Rightarrow> (JournalError + bytes \<times> bytes) \<times> host" where
  "rotate_segment modes dir now limits contents last_seq is_torn buffer h =
     (if 0 < length contents \<and> li_segment_bytes limits < length contents + length buffer
      then case exists_path dir [rotated_name last_seq] h of (target_exists, h) \<Rightarrow>
        if target_exists then (Ok (contents, buffer), h)
        else
          try_io (rename dir [ACTIVE] [rotated_name last_seq] h) (\<lambda>_. J_Io) (\<lambda>_ h.
          try_io (create_private modes dir ACTIVE h) id (\<lambda>_ h.
          try_io (open_append (dir @ [ACTIVE]) h) (\<lambda>_. J_Io) (\<lambda>contents h.
            (Ok (contents, if is_torn then drop 1 buffer else buffer),
             journal_prune dir now (li_segments limits) h))))
      else (Ok (contents, buffer), h))"

definition write_entry :: "ManagedRoot \<Rightarrow> bytes \<Rightarrow> bytes \<Rightarrow> host \<Rightarrow> (JournalError + unit) \<times> host" where
  "write_entry dir contents buffer h =
     try_io (fd_call h) (\<lambda>_. J_Io) (\<lambda>_ h.
     try_io (write_all (dir @ [ACTIVE]) contents buffer h) (\<lambda>_. J_Io) (\<lambda>_ h.
     try_io (sync_all h) (\<lambda>_. J_Io) (\<lambda>_ h. (Ok (), h))))"

definition append_new ::
  "crates \<Rightarrow> modes \<Rightarrow> ManagedRoot \<Rightarrow> NewEntry \<Rightarrow> RequestId \<Rightarrow> IdempotencyKey option \<Rightarrow> Source \<Rightarrow> u64 \<Rightarrow> Limits
    \<Rightarrow> bytes \<Rightarrow> bytes \<Rightarrow> Entry list \<Rightarrow> host \<Rightarrow> (JournalError + AppendOutcome) \<times> host" where
  "append_new L modes dir entry request_id key src now limits contents tail recent h =
     try_io (rotated_segments dir h) (\<lambda>_. J_Io) (\<lambda>rotated h.
       let last_seq = last_seq_of recent rotated;
           stored = stored_entry entry last_seq request_id key src now in
       case to_vec (cr_json L) Entry_json stored of
         None \<Rightarrow> (Err J_Io, h)
       | Some json \<Rightarrow>
           let line = json @ [line_feed] in
           if MAX_LINE_BYTES < length line then (Err J_Io, h)
           else
             let is_torn = (0 < length contents \<and> tail \<noteq> [] \<and> last tail \<noteq> line_feed);
                 buffer = (if is_torn then line_feed # line else line) in
             try_io (rotate_segment modes dir now limits contents last_seq is_torn buffer h) id (\<lambda>(contents, buffer) h.
             try_io (write_entry dir contents buffer h) id (\<lambda>_ h.
               (Ok \<lparr> ao_entry = stored, ao_replayed = False \<rparr>, h))))"

definition append_locked ::
  "crates \<Rightarrow> modes \<Rightarrow> ManagedRoot \<Rightarrow> NewEntry \<Rightarrow> RequestId \<Rightarrow> IdempotencyKey option \<Rightarrow> Source \<Rightarrow> u64 \<Rightarrow> Limits
    \<Rightarrow> host \<Rightarrow> (JournalError + AppendOutcome) \<times> host" where
  "append_locked L modes dir entry request_id key src now limits h =
     try_io (create_private modes dir ACTIVE h) id (\<lambda>_ h.
     try_io (open_append (dir @ [ACTIVE]) h) (\<lambda>_. J_Io) (\<lambda>contents h.
     try_io (fd_call h) (\<lambda>_. J_Io) (\<lambda>_ h.
     try_io (read_tail TAIL_BYTES contents h) (\<lambda>_. J_Io) (\<lambda>tail h.
       let recent = fst (parse_lines L tail) in
       case find (same_request request_id key) (rev recent) of
         Some existing \<Rightarrow> (Ok \<lparr> ao_entry = existing, ao_replayed = True \<rparr>, h)
       | None \<Rightarrow> append_new L modes dir entry request_id key src now limits contents tail recent h))))"

definition append_with ::
  "crates \<Rightarrow> modes \<Rightarrow> lock_wait \<Rightarrow> ManagedRoot \<Rightarrow> NewEntry \<Rightarrow> RequestId \<Rightarrow> IdempotencyKey option \<Rightarrow> Source \<Rightarrow> u64 \<Rightarrow> Limits
    \<Rightarrow> host \<Rightarrow> (JournalError + AppendOutcome) \<times> host" where
  "append_with L modes W state entry request_id key src now limits h =
     try_io (open_dir modes state True h) id (\<lambda>opened h.
       case opened of
         None \<Rightarrow> (Err J_Io, h)
       | Some dir \<Rightarrow>
           try_io (journal_lock modes W dir h) id (\<lambda>guard h.
             apsnd (release guard) (append_locked L modes dir entry request_id key src now limits h)))"

definition journal_append ::
  "crates \<Rightarrow> modes \<Rightarrow> lock_wait \<Rightarrow> ManagedRoot \<Rightarrow> NewEntry \<Rightarrow> RequestId \<Rightarrow> IdempotencyKey option \<Rightarrow> Source \<Rightarrow> u64
    \<Rightarrow> host \<Rightarrow> (JournalError + AppendOutcome) \<times> host" where
  "journal_append L modes W state entry request_id key src now h =
     append_with L modes W state entry request_id key src now Limits_DEFAULT h"

section \<open>Lines\<close>

text \<open>
  What the journal relies on in the compact text of an object: it starts with a brace, it is one line,
  and no proper beginning of it is a JSON text.
\<close>

definition json_lines_ok :: "json_text \<Rightarrow> bool" where
  "json_lines_ok J \<longleftrightarrow>
     (\<forall>kvs b. to_text J (JObj kvs) = Some b \<longrightarrow>
        b \<noteq> [] \<and> hd b = CHR ''{'' \<and> line_feed \<notin> set b \<and> (\<forall>k < length b. of_text J (take k b) = None))"

lemma filter_skip_none:
  "filter (\<lambda>kv. fst kv = k) (skip_none k' e x) = (if k' = k then skip_none k' e x else [])"
  by (simp add: skip_none_def split: option.splits)

lemma opt_skip_none:
  "(\<And>y. e y \<noteq> JNull \<and> d (e y) = Some y) \<Longrightarrow>
     opt d (case skip_none k e x of [] \<Rightarrow> Missing | [kv] \<Rightarrow> Present (snd kv) | _ \<Rightarrow> Duplicate) = Some x"
  by (simp add: skip_none_def opt_def split: option.splits)

lemma enum_json_back [simp]:
  "Option.bind (as_str (Source_json s)) Source_parse = Some s"
  "Option.bind (as_str (Environment_json e)) Environment_parse = Some e"
  "Option.bind (as_str (JournalResult_json r)) JournalResult_parse = Some r"
  "Environment_json e \<noteq> JNull"
  by (simp_all add: Source_json_def Source_parse_def Environment_json_def Environment_parse_def
      JournalResult_json_def JournalResult_parse_def split: Source.splits Environment.splits JournalResult.splits)

interpretation entry_json: json_record Entry_json "Entry_of_json parse_str"
  "\<lambda>e. uuid_parse_ok parse_str \<and> uuid_wf (en_id e)" for parse_str
  by unfold_locales
     (simp add: Entry_json_def Entry_of_json_def field_of_def filter_skip_none opt_skip_none uuid_of_json_JStr)

lemma parse_each_append:
  "parse_each L (xs @ ys) = (fst (parse_each L xs) @ fst (parse_each L ys), snd (parse_each L xs) + snd (parse_each L ys))"
  by (induction xs) (auto simp: Let_def split: option.splits prod.splits)

lemma parse_lines_append:
  "parse_lines L (a @ line_feed # b)
     = (fst (parse_lines L a) @ fst (parse_lines L b), snd (parse_lines L a) + snd (parse_lines L b))"
  by (simp add: parse_lines_def split_on_append_sep parse_each_append)

lemma parse_lines_Nil [simp]: "parse_lines L [] = ([], 0)"
  by (simp add: parse_lines_def)

lemma brace_not_blank: "\<not> is_ascii_whitespace CHR ''{''"
  by code_simp

lemma parse_one_line:
  assumes "crates_ok L" and "json_lines_ok (cr_json L)" and "uuid_wf (en_id e)" and "1 \<le> en_schema_version e"
    and "to_vec (cr_json L) Entry_json e = Some j"
  shows "parse_lines L j = ([e], 0)" and "line_feed \<notin> set j" and "j \<noteq> []"
proof -
  have line: "j \<noteq> []" "hd j = CHR ''{''" "line_feed \<notin> set j"
    using assms(2,5) by (auto simp: json_lines_ok_def to_vec_def Entry_json_def)
  then show "line_feed \<notin> set j" "j \<noteq> []" by simp_all
  have "parse_line L j = Some e"
    using entry_json.text_round_trip(1)[of "cr_json L" "cr_uuid L" e j] assms(1,3,4,5)
    by (simp add: parse_line_def crates_ok_def)
  with line show "parse_lines L j = ([e], 0)"
    by (cases j) (auto simp: parse_lines_def split_on_no_sep brace_not_blank)
qed

text \<open>What ends in a line break, or is empty, can be followed by further lines.\<close>

definition closed_text :: "bytes \<Rightarrow> bool" where
  "closed_text b \<longleftrightarrow> b = [] \<or> last b = line_feed"

lemma parse_closed_append:
  assumes "closed_text a"
  shows "fst (parse_lines L (a @ b)) = fst (parse_lines L a) @ fst (parse_lines L b)"
proof (cases "a = []")
  case False
  then obtain a' where a: "a = a' @ [line_feed]" using assms by (metis append_butlast_last_id closed_text_def)
  then show ?thesis using parse_lines_append[of L a' b] parse_lines_append[of L a' "[]"] by simp
qed simp

text \<open>The end of a segment that an append reads contains the last line, when the line is not too long.\<close>

lemma drop_to_line:
  assumes "line_feed \<in> set x"
  shows "drop 1 (dropWhile (\<lambda>c. c \<noteq> line_feed) (x @ y)) = drop 1 (dropWhile (\<lambda>c. c \<noteq> line_feed) x) @ y"
  using assms by (induction x) auto

lemma closed_drop: "closed_text a \<Longrightarrow> closed_text (drop n a)"
  by (cases "n < length a") (auto simp: closed_text_def last_drop)

lemma closed_drop_line: "closed_text a \<Longrightarrow> closed_text (drop 1 (dropWhile P a))"
  by (metis closed_drop dropWhile_eq_drop)

lemma tail_of_last_line:
  assumes "closed_text a" and "length line < limit"
  shows "\<exists>x. tail_of limit (a @ line) = x @ line \<and> closed_text x"
proof (cases "length (a @ line) \<le> limit")
  case True
  then show ?thesis using assms(1) by (auto simp: tail_of_def)
next
  case False
  define x where "x = drop (length (a @ line) - limit) a"
  have "drop (length (a @ line) - limit) (a @ line) = x @ line" "length (x @ line) = limit"
    using False assms(2) by (auto simp: x_def)
  moreover have x: "closed_text x" "x \<noteq> []"
    using closed_drop[OF assms(1)] False assms(2) by (auto simp: x_def)
  moreover have "line_feed \<in> set x" using x by (metis closed_text_def last_in_set)
  ultimately have "tail_of limit (a @ line) = drop 1 (dropWhile (\<lambda>c. c \<noteq> line_feed) x) @ line"
    using False drop_to_line[of x line] by (simp add: tail_of_def Let_def)
  then show ?thesis using closed_drop_line[OF x(1)] by blast
qed

section \<open>A concrete line format\<close>

text \<open>A format that writes the values of a table, each as a line of its own length between braces.\<close>

definition brace_line :: "nat \<Rightarrow> bytes" where
  "brace_line n = CHR ''{'' # replicate n CHR ''x'' @ [CHR ''}'']"

definition line_text :: "json list \<Rightarrow> json_text" where
  "line_text xs =
     \<lparr> to_text = (\<lambda>v. map_option brace_line (table_index xs v)),
       of_text = (\<lambda>b. let n = length b - 2 in
          if b = brace_line n \<and> n < length xs then Some (xs ! n) else None) \<rparr>"

lemma brace_line_prefix: "k < length (brace_line n) \<Longrightarrow> take k (brace_line n) \<noteq> brace_line m"
proof
  assume k: "k < length (brace_line n)" and eq: "take k (brace_line n) = brace_line m"
  have "length (take k (brace_line n)) = k" using k by simp
  then have "length (brace_line m) = k" unfolding eq .
  then have m: "k = m + 2" by (simp add: brace_line_def)
  then have "take k (brace_line n) ! Suc m = brace_line n ! Suc m" by simp
  then have "brace_line n ! Suc m = brace_line m ! Suc m" unfolding eq by simp
  moreover have "brace_line n ! Suc m = CHR ''x''" using k m by (auto simp: brace_line_def nth_append)
  moreover have "brace_line m ! Suc m = CHR ''}''" by (simp add: brace_line_def nth_append)
  ultimately show False by simp
qed

lemma of_text_line: "of_text (line_text xs) (brace_line n) = (if n < length xs then Some (xs ! n) else None)"
proof -
  have "length (brace_line n) - 2 = n" by (simp add: brace_line_def)
  then show ?thesis by (simp add: line_text_def Let_def)
qed

lemma brace_line_ascii: "utf8_ok (brace_line n)"
  by (rule utf8_ok_ascii) (auto simp: brace_line_def ascii_defs)

lemma line_text_ok [simp]: "json_text_ok (line_text xs)" "json_lines_ok (line_text xs)"
proof -
  have to: "to_text (line_text xs) v = Some b \<Longrightarrow> \<exists>n. table_index xs v = Some n \<and> b = brace_line n" for v b
    by (auto simp: line_text_def)
  show "json_text_ok (line_text xs)"
    unfolding json_text_ok_def using of_text_line brace_line_ascii by (fastforce dest!: to table_index_SomeD)
  have "of_text (line_text xs) (take k (brace_line n)) = None" if "k < length (brace_line n)" for k n
    using brace_line_prefix[OF that] by (simp add: line_text_def Let_def)
  moreover have "brace_line n \<noteq> []" "hd (brace_line n) = CHR ''{''" "line_feed \<notin> set (brace_line n)" for n
    by (auto simp: brace_line_def)
  ultimately show "json_lines_ok (line_text xs)" unfolding json_lines_ok_def using to by metis
qed

end
