(* ===== verification/JournalAppend.thy ===== *)
theory JournalAppend
  imports Journal
begin

text \<open>
  What an append does to the change journal: a new entry is read back last, whatever a crash left
  before it, and a retry of the same request writes nothing.
\<close>

section \<open>Calls that leave the segments alone\<close>

lemma fd_call_same [host_frame, simp]:
  "node_at (snd (fd_call h)) = node_at h" "env (snd (fd_call h)) = env h"
  by (simp_all add: fd_call_def io_call_def)

lemma node_at_tree: "tree h' = tree h \<Longrightarrow> node_at h' = node_at h"
  by (simp add: node_at_def fun_eq_iff)

lemma mode_calls_same [host_frame, simp]:
  "tree (snd (mode modes p h)) = tree h" "tree (snd (set_mode p h)) = tree h"
  "node_at (snd (mode modes p h)) = node_at h" "env (snd (mode modes p h)) = env h"
  "node_at (snd (set_mode p h)) = node_at h" "env (snd (set_mode p h)) = env h"
  by (simp_all add: mode_def set_mode_def io_call_def split: option.splits)

lemma ensure_mode_same [host_frame, simp]:
  "node_at (snd (ensure_mode modes bits p h)) = node_at h" "env (snd (ensure_mode modes bits p h)) = env h"
  "tree (snd (ensure_mode modes bits p h)) = tree h"
  unfolding ensure_mode_def
  by (rule try_io_keeps[where g = node_at] try_io_keeps[where g = env] try_io_keeps[where g = tree]; simp)+

lemma ensure_mode_node: "ensure_mode modes bits p h = (r, h') \<Longrightarrow> node_at h' = node_at h"
  by (metis ensure_mode_same(1) snd_conv)

lemma read_tail_same [host_frame, simp]:
  "node_at (snd (read_tail n b h)) = node_at h" "env (snd (read_tail n b h)) = env h"
  unfolding read_tail_def
  by (auto intro!: try_io_keeps[where g = node_at] try_io_keeps[where g = env] simp: io_call_def)

lemma read_tail_Ok: "read_tail n b h = (Ok t, h') \<Longrightarrow> t = tail_of n b"
  by (auto simp: read_tail_def try_io_Ok_iff io_call_def split: if_splits)

lemma rotated_segments_same [host_frame, simp]:
  "node_at (snd (rotated_segments dir h)) = node_at h" "env (snd (rotated_segments dir h)) = env h"
  unfolding rotated_segments_def by simp_all

lemma rotated_segments_names:
  assumes "rotated_segments dir h = (Ok segs, h')" and "(s, name) \<in> set segs"
  shows "rotated_seq name = Some s"
  using assms by (auto simp: rotated_segments_def try_io_Ok_iff List.map_filter_def)

section \<open>Segment names\<close>

lemma active_not_rotated [simp]: "rotated_seq ACTIVE = None" "rotated_seq JOURNAL_LOCK = None"
  by code_simp+

lemma length_dec_fixed [simp]: "length (dec_fixed n v) = n"
  by (induction n arbitrary: v) auto

lemma rotated_name_ne [simp]: "rotated_name s \<noteq> ACTIVE" "ACTIVE \<noteq> rotated_name s"
proof -
  have "length (rotated_name s) = 33"
    by (simp add: rotated_name_def ROTATED_PREFIX_def ROTATED_SUFFIX_def)
  moreover have "length ACTIVE = 12" by (simp add: ACTIVE_def)
  ultimately show "rotated_name s \<noteq> ACTIVE" "ACTIVE \<noteq> rotated_name s" by fastforce+
qed

section \<open>Preparing and locking\<close>

lemma create_private_env [host_frame, simp]: "env (snd (create_private modes dir name h)) = env h"
  by (auto simp: create_private_def open_new_def io_call_def split: prod.splits sum.splits)

lemma create_private_frame: "q \<noteq> dir @ [name] \<Longrightarrow> node_at (snd (create_private modes dir name h)) q = node_at h q"
  by (auto simp: create_private_def open_new_def io_call_def split: prod.splits sum.splits)

lemma create_private_keeps: "node_at h (dir @ [name]) = Some n \<Longrightarrow> node_at (snd (create_private modes dir name h)) = node_at h"
  by (auto simp: create_private_def open_new_def io_call_def split: prod.splits sum.splits)

lemma create_private_Ok:
  assumes "create_private modes dir name h = (Ok (), h')"
  shows "node_at h' = (case node_at h (dir @ [name]) of None \<Rightarrow> (node_at h)(dir @ [name] \<mapsto> File []) | Some _ \<Rightarrow> node_at h)"
  using assms
  by (auto simp: create_private_def open_new_def io_call_def dest: ensure_mode_node
      split: sum.splits if_splits option.splits)

lemma open_append_frame: "q \<noteq> p \<Longrightarrow> node_at (snd (open_append p h)) q = node_at h q"
  by (auto simp: open_append_def io_call_def split: option.splits node.splits)

lemma open_append_keeps: "node_at h p = Some n \<Longrightarrow> node_at (snd (open_append p h)) = node_at h"
  by (auto simp: open_append_def io_call_def split: option.splits node.splits)

lemma open_append_OkD:
  assumes "open_append p h = (Ok b, h')"
  shows "node_at h' = (node_at h)(p \<mapsto> File b)" and "node_at h p = Some (File b) \<or> node_at h p = None \<and> b = []"
  using assms by (auto simp: open_append_def io_call_def fun_eq_iff split: option.splits node.splits if_splits)

lemma flock_attempt_cases:
  obtains (held) e h1 where "flock_attempt W p n h = (Err e, h1)" "tree h1 = tree h" "flocked h1 = flocked h"
  | (got) h1 where "flock_attempt W p n h = (Ok (), h1)" "tree h1 = tree h" "flocked h1 = (flocked h)(p := True)"
proof (cases "fails h (tick h) \<or> flocked h p \<and> \<not> lw_freed W n")
  case True
  then show ?thesis
    by (intro held[of "if fails h (tick h) then IoOther else IoWouldBlock" "next_tick h"])
       (auto simp: flock_attempt_def io_call_def)
next
  case False
  then show ?thesis using got by (auto simp: flock_attempt_def io_call_def)
qed

lemma lock_loop_effect:
  "lock_loop W p n h = (r, h') \<Longrightarrow> tree h' = tree h
     \<and> (case r of Inr g \<Rightarrow> g = p \<and> flocked h' = (flocked h)(p := True) | Inl _ \<Rightarrow> flocked h' = flocked h)"
proof (induction W p n h arbitrary: r h' rule: lock_loop.induct)
  case (1 W p n h)
  show ?case
  proof (cases rule: flock_attempt_cases[of W p n h])
    case (held e h1)
    show ?thesis
    proof (cases "e \<noteq> IoWouldBlock \<or> LOCK_WAIT \<le> 5 * n + lw_lag W n")
      case True
      then show ?thesis using 1(2) held by (subst (asm) lock_loop.simps) (auto split: if_splits)
    next
      case False
      then have "lock_loop W p (Suc n) h1 = (r, h')"
        using 1(2) held by (subst (asm) lock_loop.simps) simp
      then show ?thesis using 1(1)[OF held(1)[symmetric] refl] False held by (auto split: sum.splits)
    qed
  next
    case (got h1)
    then show ?thesis using 1(2) by (subst (asm) lock_loop.simps) auto
  qed
qed

lemma flocked_of_env: "env (snd r) = env h \<Longrightarrow> r = (x, h') \<Longrightarrow> flocked h' = flocked h"
  by (simp add: env_def)

lemma journal_lock_effect:
  assumes "journal_lock modes W dir h = (r, h')"
  shows "\<And>q. q \<noteq> dir @ [JOURNAL_LOCK] \<Longrightarrow> node_at h' q = node_at h q"
    and "case r of Inr g \<Rightarrow> g = dir @ [JOURNAL_LOCK] \<and> flocked h' = (flocked h)(g := True) | Inl _ \<Rightarrow> flocked h' = flocked h"
proof -
  obtain r1 h1 where 1: "create_private modes dir JOURNAL_LOCK h = (r1, h1)" by fastforce
  obtain r2 h2 where 2: "open_or_create_file dir [JOURNAL_LOCK] h1 = (r2, h2)" by fastforce
  obtain r3 h3 where 3: "lock_loop W (dir @ [JOURNAL_LOCK]) 0 h2 = (r3, h3)" by fastforce
  have n: "node_at h1 q = node_at h q" "node_at h2 q = node_at h1 q" if "q \<noteq> dir @ [JOURNAL_LOCK]" for q
    using create_private_frame[OF that, of modes h] open_or_create_frame[OF that, of h1] 1 2 by simp_all
  have f: "flocked h1 = flocked h" "flocked h2 = flocked h1"
    using flocked_of_env[OF create_private_env 1] flocked_of_env[OF env_composed(6) 2] .
  show "node_at h' q = node_at h q" if "q \<noteq> dir @ [JOURNAL_LOCK]" for q
    using assms 1 2 3 n[OF that] node_at_tree[of h3 h2] lock_loop_effect[OF 3]
    by (cases r1; cases r2) (auto simp: journal_lock_def)
  show "case r of Inr g \<Rightarrow> g = dir @ [JOURNAL_LOCK] \<and> flocked h' = (flocked h)(g := True) | Inl _ \<Rightarrow> flocked h' = flocked h"
    using assms 1 2 3 f lock_loop_effect[OF 3] by (cases r1; cases r2) (auto simp: journal_lock_def split: sum.splits)
qed

lemma lock_loop_mtime: "mtime (snd (lock_loop W p n h)) = mtime h"
proof (induction W p n h rule: lock_loop.induct)
  case (1 W p n h)
  obtain r h1 where a: "flock_attempt W p n h = (r, h1)" by fastforce
  then have "mtime h1 = mtime h" by (auto simp: flock_attempt_def io_call_def split: if_splits)
  then show ?case using 1[OF a[symmetric]] a by (subst lock_loop.simps) (auto split: sum.splits)
qed

lemma journal_lock_mtime:
  assumes "journal_lock modes W dir h = (r, h')"
  shows "mtime h' = mtime h"
proof -
  have "mtime (snd (create_private modes dir JOURNAL_LOCK h)) = mtime h"
    "mtime (snd (open_or_create_file dir [JOURNAL_LOCK] h1)) = mtime h1" for h1
    using create_private_env[of modes dir JOURNAL_LOCK h] env_composed(6)[of dir "[JOURNAL_LOCK]" h1]
    unfolding env_def by blast+
  then have "mtime (snd (journal_lock modes W dir h)) = mtime h"
    unfolding journal_lock_def by (intro try_io_keeps[where g = mtime] lock_loop_mtime)
  then show ?thesis using assms by simp
qed

lemma open_dir_effect:
  assumes "open_dir modes state create h = (r, h')"
  shows "\<And>q. q \<noteq> state @ [JOURNAL_DIR] \<Longrightarrow> node_at h' q = node_at h q" and "flocked h' = flocked h"
    and "\<And>dir. r = Ok (Some dir) \<Longrightarrow> dir = state @ [JOURNAL_DIR]"
proof -
  define p where "p = (if create
             then try_io (create_dir_all state [JOURNAL_DIR] h) (\<lambda>_. J_Io)
                    (\<lambda>_ h. ensure_mode modes (7 * 64) (state @ [JOURNAL_DIR]) h)
             else (Ok (), h))"
  have p: "node_at (snd p) q = node_at h q" if "q \<noteq> state @ [JOURNAL_DIR]" for q
  proof -
    have "node_at (snd (create_dir_all state [JOURNAL_DIR] h)) q = node_at h q"
      by (rule create_dir_all_frame) (use that in \<open>auto simp: Cons_eq_append_conv\<close>)
    then show ?thesis
      unfolding p_def by (auto intro!: try_io_keeps[where g = "\<lambda>h. node_at h q"])
  qed
  have e: "env (snd p) = env h"
    unfolding p_def by (auto intro!: try_io_keeps[where g = env])
  have d: "open_dir modes state create h = try_io p id (\<lambda>_ h.
       (case open_managed_dir state [JOURNAL_DIR] h of
          (Inr dir, h) \<Rightarrow> (Ok (Some dir), h)
        | (Inl e, h) \<Rightarrow> if e = IoNotFound \<and> \<not> create then (Ok None, h) else (Err J_Io, h)))"
    by (simp add: open_dir_def p_def)
  have rest: "node_at h' = node_at (snd p) \<and> env h' = env (snd p)"
    using assms unfolding d
    by (cases p rule: prod.exhaust, rename_tac a b, case_tac a)
       (auto simp: open_managed_dir_def io_call_def split: option.splits node.splits if_splits)
  show "node_at h' q = node_at h q" if "q \<noteq> state @ [JOURNAL_DIR]" for q using rest p[OF that] by simp
  show "flocked h' = flocked h" by (rule env_flocked) (simp add: rest e)
  have opened: "open_managed_dir state [JOURNAL_DIR] h1 = (Ok x, h2) \<Longrightarrow> x = state @ [JOURNAL_DIR]" for x h1 h2
    by (auto simp: open_managed_dir_def io_call_def split: option.splits node.splits if_splits)
  show "dir = state @ [JOURNAL_DIR]" if "r = Ok (Some dir)" for dir
    using assms that opened unfolding d try_io_def by (auto split: prod.splits sum.splits if_splits)
qed

section \<open>Retention and rotation\<close>

definition segment_path :: "ManagedRoot \<Rightarrow> path \<Rightarrow> bool" where
  "segment_path dir q \<longleftrightarrow> (\<exists>name. q = dir @ [name] \<and> rotated_seq name \<noteq> None)"

lemma active_no_segment [simp]: "\<not> segment_path dir (dir @ [ACTIVE])" "\<not> segment_path dir (dir @ [JOURNAL_LOCK])"
  by (simp_all add: segment_path_def)

lemma fold_keeps: "(\<And>x h. x \<in> set xs \<Longrightarrow> g (f x h) = g h) \<Longrightarrow> g (fold f xs h) = g h"
  by (induction xs arbitrary: h) auto

lemma modified_secs_same [host_frame, simp]:
  "node_at (snd (modified_secs dir name h)) = node_at h" "env (snd (modified_secs dir name h)) = env h"
  by (simp_all add: modified_secs_def)

lemma remove_if_old_effect [host_frame]:
  "q \<noteq> dir @ [name] \<Longrightarrow> node_at (remove_if_old dir now name h) q = node_at h q"
  "env (remove_if_old dir now name h) = env h"
  by (auto simp: remove_if_old_def modified_secs_def remove_file_frame split: prod.splits option.splits)

lemma journal_prune_effect:
  shows "\<not> segment_path dir q \<Longrightarrow> node_at (journal_prune dir now k h) q = node_at h q"
    and "env (journal_prune dir now k h) = env h"
proof -
  obtain r h1 where r: "rotated_segments dir h = (r, h1)" by fastforce
  then have h1: "node_at h1 = node_at h" "env h1 = env h" using rotated_segments_same[of dir h] by simp_all
  show "node_at (journal_prune dir now k h) q = node_at h q" if "\<not> segment_path dir q"
  proof (cases r)
    case (Inr segs)
    have "q \<noteq> dir @ [name]" if "name \<in> set (map snd segs)" for name
      using rotated_segments_names[OF r[unfolded Inr]] that \<open>\<not> segment_path dir q\<close> by (fastforce simp: segment_path_def)
    then show ?thesis
      unfolding journal_prune_def r Inr
      by (auto simp: Let_def h1 remove_segments_def remove_if_old_effect(1) remove_file_frame
          intro!: fold_keeps[where g = "\<lambda>h. node_at h q", THEN trans] dest!: in_set_takeD in_set_dropD)
  qed (simp add: journal_prune_def r h1)
  show "env (journal_prune dir now k h) = env h"
    by (cases r) (simp_all add: journal_prune_def r h1 Let_def remove_segments_def fold_keeps[where g = env]
        remove_if_old_effect(2))
qed

text \<open>The bytes of the active segment.\<close>

definition active_bytes :: "ManagedRoot \<Rightarrow> host \<Rightarrow> bytes" where
  "active_bytes dir h = (case node_at h (dir @ [ACTIVE]) of Some (File b) \<Rightarrow> b | _ \<Rightarrow> [])"

lemma active_bytes_cong: "node_at h' (dir @ [ACTIVE]) = node_at h (dir @ [ACTIVE]) \<Longrightarrow> active_bytes dir h' = active_bytes dir h"
  by (simp add: active_bytes_def)

lemma create_private_same: "active_bytes dir (snd (create_private modes dir ACTIVE h)) = active_bytes dir h"
proof (cases "node_at h (dir @ [ACTIVE])")
  case None
  then show ?thesis
    using ensure_mode_same(1)
    by (auto simp: active_bytes_def create_private_def open_new_def io_call_def split: prod.splits sum.splits)
qed (simp add: create_private_keeps active_bytes_def)

lemma open_append_same: "active_bytes dir (snd (open_append (dir @ [ACTIVE]) h)) = active_bytes dir h"
  by (auto simp: active_bytes_def open_append_def io_call_def split: option.splits node.splits)

lemma rename_file_Ok:
  assumes "rename dir [a] [b] h = (Ok (), h')" and "node_at h (dir @ [a]) = Some (File c)" and "a \<noteq> b"
  shows "node_at h' = (node_at h)(dir @ [a] := None, dir @ [b] \<mapsto> File c)"
  using assms by (auto simp: rename_def rename_node_def io_call_def split: if_splits)

lemma rotate_segment_env [host_frame, simp]: "env (snd (rotate_segment modes dir now limits old s is_torn buffer h)) = env h"
  by (auto simp: rotate_segment_def exists_path_def journal_prune_effect(2)
      intro!: try_io_keeps[where g = env])

lemma rotate_segment_Ok:
  assumes "rotate_segment modes dir now limits old s is_torn buffer h = (Ok (b, buffer'), h')"
    and "node_at h (dir @ [ACTIVE]) = Some (File old)"
  obtains (stays) "b = old" "buffer' = buffer" "node_at h' = node_at h"
  | (rotated) "b = []" "buffer' = (if is_torn then drop 1 buffer else buffer)"
      "node_at h' (dir @ [ACTIVE]) = Some (File [])" "li_segment_bytes limits < length old + length buffer"
proof (cases "0 < length old \<and> li_segment_bytes limits < length old + length buffer
    \<and> \<not> fst (exists_path dir [rotated_name s] h)")
  case False
  then show ?thesis using assms(1) stays
    by (auto simp: rotate_segment_def exists_path_def split: if_splits)
next
  case True
  obtain h1 where h1: "exists_path dir [rotated_name s] h = (False, h1)" "node_at h1 = node_at h"
    using True by (auto simp: exists_path_def)
  with True assms(1) obtain h2 h3 h4 where c:
      "rename dir [ACTIVE] [rotated_name s] h1 = (Ok (), h2)"
      "create_private modes dir ACTIVE h2 = (Ok (), h3)"
      "open_append (dir @ [ACTIVE]) h3 = (Ok b, h4)"
    and out: "buffer' = (if is_torn then drop 1 buffer else buffer)" "h' = journal_prune dir now (li_segments limits) h4"
    by (auto simp: rotate_segment_def try_io_Ok_iff)
  have "node_at h2 (dir @ [ACTIVE]) = None"
    using rename_file_Ok[OF c(1)] h1(2) assms(2) by simp
  then have "node_at h3 (dir @ [ACTIVE]) = Some (File [])" using create_private_Ok[OF c(2)] by simp
  then have b: "b = []" "node_at h4 (dir @ [ACTIVE]) = Some (File [])" using open_append_OkD[OF c(3)] by auto
  then have "node_at h' (dir @ [ACTIVE]) = Some (File [])"
    using journal_prune_effect(1)[OF active_no_segment(1)] out(2) by simp
  then show ?thesis using rotated b out(1) True by blast
qed

lemma write_entry_env [host_frame, simp]: "env (snd (write_entry dir b buffer h)) = env h"
  by (auto simp: write_entry_def intro!: try_io_keeps[where g = env])

lemma write_entry_Ok:
  "write_entry dir b buffer h = (Ok (), h') \<Longrightarrow> node_at h' (dir @ [ACTIVE]) = Some (File (b @ buffer))"
  by (auto simp: write_entry_def try_io_Ok_iff fd_call_def write_all_def sync_all_def io_call_def split: if_splits)

section \<open>Appending\<close>

text \<open>Every line the engine leaves, torn or not, is far shorter than the end it inspects.\<close>

definition short_lines :: "bytes \<Rightarrow> bool" where
  "short_lines b \<longleftrightarrow> list_all (\<lambda>l. length l < MAX_LINE_BYTES) (split_on line_feed b)"

lemma last_line:
  obtains a l where "b = a @ l" "closed_text a" "line_feed \<notin> set l" "l \<in> set (split_on line_feed b)"
proof (cases "line_feed \<in> set b")
  case False
  then show ?thesis using that[of "[]" b] by (simp add: closed_text_def split_on_no_sep)
next
  case True
  then obtain x l where b: "b = x @ line_feed # l" "line_feed \<notin> set l" by (meson split_list_last)
  then show ?thesis using that[of "x @ [line_feed]" l] by (simp add: closed_text_def split_on_append_sep split_on_no_sep)
qed

lemma torn_detected:
  assumes "short_lines b"
  shows "(0 < length b \<and> tail_of TAIL_BYTES b \<noteq> [] \<and> last (tail_of TAIL_BYTES b) \<noteq> line_feed) \<longleftrightarrow> \<not> closed_text b"
proof -
  obtain a l where l: "b = a @ l" "closed_text a" "line_feed \<notin> set l" "l \<in> set (split_on line_feed b)"
    by (rule last_line)
  then have "length l < TAIL_BYTES"
    using assms by (auto simp: short_lines_def list_all_iff MAX_LINE_BYTES_def TAIL_BYTES_def dest!: bspec)
  then obtain x where x: "tail_of TAIL_BYTES b = x @ l" "closed_text x" using tail_of_last_line l(1,2) by blast
  show ?thesis
  proof (cases "l = []")
    case True
    then show ?thesis using l x by (auto simp: closed_text_def)
  next
    case False
    then have "last l \<noteq> line_feed" using l(3) by (metis last_in_set)
    then show ?thesis using False l(1) x(1) by (auto simp: closed_text_def)
  qed
qed

text \<open>The new line in its place: what was there is read as before, then the entry.\<close>

definition extended :: "bytes \<Rightarrow> bytes \<Rightarrow> bytes" where
  "extended b line = (if closed_text b then b @ line else b @ line_feed # line)"

lemma extended_split:
  obtains a where "extended b line = a @ line" "closed_text a" "fst (parse_lines L a) = fst (parse_lines L b)"
proof (cases "closed_text b")
  case True
  then show ?thesis using that[of b] by (simp add: extended_def)
next
  case False
  then show ?thesis using that[of "b @ [line_feed]"] parse_lines_append[of L b "[]"] by (simp add: extended_def closed_text_def)
qed

lemma last_seq_bound: "list_all (\<lambda>e. en_seq e \<le> last_seq_of recent rotated) recent"
proof -
  have "x \<le> fold max xs 0" if "x \<in> set xs" for x :: u64 and xs
    using Max_ge[of "set (0 # xs)" x] that unfolding Max.set_eq_fold by auto
  then show ?thesis by (simp add: last_seq_of_def list_all_iff del: fold_append)
qed

lemma append_new_Ok:
  assumes "append_new L modes dir entry i key src now limits b (tail_of TAIL_BYTES b) recent h = (Ok out, h')"
    and "node_at h (dir @ [ACTIVE]) = Some (File b)" and "short_lines b"
  shows "\<exists>s j. ao_entry out = stored_entry entry s i key src now \<and> \<not> ao_replayed out
    \<and> list_all (\<lambda>e. en_seq e \<le> s) recent
    \<and> to_vec (cr_json L) Entry_json (ao_entry out) = Some j \<and> length j < MAX_LINE_BYTES
    \<and> (active_bytes dir h' = extended b (j @ [line_feed]) \<or> active_bytes dir h' = j @ [line_feed])"
proof -
  from assms(1) obtain rotated h1 where r: "rotated_segments dir h = (Ok rotated, h1)"
    by (auto simp: append_new_def try_io_Ok_iff)
  then have h1: "node_at h1 (dir @ [ACTIVE]) = Some (File b)" using rotated_segments_same(1)[of dir h] assms(2) by simp
  define s where "s = last_seq_of recent rotated"
  define e where "e = stored_entry entry s i key src now"
  from assms(1) r obtain j where j: "to_vec (cr_json L) Entry_json e = Some j" "length j < MAX_LINE_BYTES"
    by (cases "to_vec (cr_json L) Entry_json e")
       (auto simp: append_new_def s_def e_def Let_def split: if_splits)
  define buffer where "buffer = (if closed_text b then j @ [line_feed] else line_feed # j @ [line_feed])"
  from assms(1) r j obtain b' buffer' h2 where
    rot: "rotate_segment modes dir now limits b s (\<not> closed_text b) buffer h1 = (Ok (b', buffer'), h2)"
    and w: "write_entry dir b' buffer' h2 = (Ok (), h')" and out: "out = \<lparr> ao_entry = e, ao_replayed = False \<rparr>"
    unfolding append_new_def Let_def torn_detected[OF assms(3)]
    by (auto simp: s_def[symmetric] e_def[symmetric] try_io_Ok_iff buffer_def split: if_splits)
  have seq: "list_all (\<lambda>e. en_seq e \<le> s) recent" unfolding s_def by (rule last_seq_bound)
  have "active_bytes dir h' = extended b (j @ [line_feed]) \<or> active_bytes dir h' = j @ [line_feed]"
    using rot h1
  proof (cases rule: rotate_segment_Ok)
    case stays
    then show ?thesis using write_entry_Ok[OF w] by (simp add: active_bytes_def extended_def buffer_def)
  next
    case rotated
    then show ?thesis using write_entry_Ok[OF w] by (simp add: active_bytes_def buffer_def)
  qed
  with seq j out show ?thesis by (auto simp: e_def)
qed

lemma append_locked_env [host_frame, simp]:
  "env (snd (append_locked L modes dir entry i key src now limits h)) = env h"
  by (auto simp: append_locked_def append_new_def Let_def intro!: try_io_keeps[where g = env] split: option.splits prod.splits)

lemma append_with_cases:
  assumes "append_with L modes W state entry i key src now limits h = (r, h')" and "dir = state @ [JOURNAL_DIR]"
  obtains (outside) e where "r = Err e" "node_at h' (dir @ [ACTIVE]) = node_at h (dir @ [ACTIVE])" "flocked h' = flocked h"
  | (inside) h1 h2 where "append_locked L modes dir entry i key src now limits h1 = (r, h2)"
      "node_at h1 (dir @ [ACTIVE]) = node_at h (dir @ [ACTIVE])" "node_at h' = node_at h2"
      "flocked h' = (flocked h)(dir @ [JOURNAL_LOCK] := False)"
proof -
  obtain r1 h1 where 1: "open_dir modes state True h = (r1, h1)" by fastforce
  note d = open_dir_effect[OF 1]
  have active: "node_at h1 (dir @ [ACTIVE]) = node_at h (dir @ [ACTIVE])" by (rule d(1)) (simp add: assms(2))
  show ?thesis
  proof (cases "r1 = Ok (Some dir)")
    case True
    obtain r2 h2 where 2: "journal_lock modes W dir h1 = (r2, h2)" by fastforce
    have "node_at h2 (dir @ [ACTIVE]) = node_at h1 (dir @ [ACTIVE])"
      by (rule journal_lock_effect(1)[OF 2]) (simp add: ACTIVE_def JOURNAL_LOCK_def)
    note lock = this journal_lock_effect(2)[OF 2]
    show ?thesis
    proof (cases r2)
      case (Inl e)
      then show ?thesis using outside[of e] assms(1) 1 2 True lock active d(2) by (simp add: append_with_def)
    next
      case (Inr g)
      obtain r3 h3 where 3: "append_locked L modes dir entry i key src now limits h2 = (r3, h3)" by fastforce
      then have "flocked h3 = flocked h2" using flocked_of_env[OF append_locked_env 3] by simp
      then show ?thesis using inside[of h2 h3] assms(1) 1 2 3 Inr True lock active d(2) by (auto simp: append_with_def)
    qed
  next
    case False
    then have "\<exists>e. r = Err e" "h' = h1"
      using assms(1) 1 d(3) unfolding append_with_def assms(2) by (auto split: option.splits sum.splits simp: try_io_def)
    then show ?thesis using outside active d(2) by blast
  qed
qed

lemma append_locked_opened:
  assumes "append_locked L modes dir entry i key src now limits h = (r, h')"
  obtains (failed) e where "r = Err e" "active_bytes dir h' = active_bytes dir h"
  | (opened) h1 where "node_at h1 (dir @ [ACTIVE]) = Some (File (active_bytes dir h))"
      "(case find (same_request i key) (rev (fst (parse_lines L (tail_of TAIL_BYTES (active_bytes dir h))))) of
          Some existing \<Rightarrow> (Ok \<lparr> ao_entry = existing, ao_replayed = True \<rparr>, h1)
        | None \<Rightarrow> append_new L modes dir entry i key src now limits (active_bytes dir h) (tail_of TAIL_BYTES (active_bytes dir h))
            (fst (parse_lines L (tail_of TAIL_BYTES (active_bytes dir h)))) h1) = (r, h')"
proof -
  obtain r1 h1 where 1: "create_private modes dir ACTIVE h = (r1, h1)" by fastforce
  obtain r2 h2 where 2: "open_append (dir @ [ACTIVE]) h1 = (r2, h2)" by fastforce
  obtain r3 h3 where 3: "fd_call h2 = (r3, h3)" by fastforce
  obtain r4 h4 where 4: "read_tail TAIL_BYTES (case r2 of Inr b \<Rightarrow> b | Inl _ \<Rightarrow> []) h3 = (r4, h4)" by fastforce
  have c1: "active_bytes dir h1 = active_bytes dir h"
    using create_private_same[of dir modes h] 1 by simp
  have c2: "active_bytes dir h2 = active_bytes dir h1" using open_append_same[of dir h1] 2 by simp
  have c3: "active_bytes dir h4 = active_bytes dir h3" "active_bytes dir h3 = active_bytes dir h2"
    using fd_call_same(1)[of h2] read_tail_same(1)[of TAIL_BYTES "case r2 of Inr b \<Rightarrow> b | Inl _ \<Rightarrow> []" h3] 3 4
    by (simp_all add: active_bytes_def)
  show ?thesis
  proof (cases "is_ok r1 \<and> is_ok r2 \<and> is_ok r3 \<and> is_ok r4")
    case False
    then show ?thesis using failed assms 1 2 3 4 c1 c2 c3
      by (cases r1; cases r2; cases r3; cases r4) (auto simp: append_locked_def is_ok_def)
  next
    case True
    then obtain b t where ok: "r1 = Ok ()" "r2 = Ok b" "r3 = Ok ()" "r4 = Ok t"
      by (cases r1; cases r2; cases r3; cases r4) (auto simp: is_ok_def)
    have n: "node_at h2 (dir @ [ACTIVE]) = Some (File b)" using open_append_OkD(1)[OF 2[unfolded ok]] by simp
    then have b: "b = active_bytes dir h" using c1 c2 by (simp add: active_bytes_def)
    moreover have "t = tail_of TAIL_BYTES b" using read_tail_Ok 4 ok by simp
    moreover have "node_at h4 (dir @ [ACTIVE]) = Some (File b)"
      using n read_tail_same(1)[of TAIL_BYTES "case r2 of Inr b \<Rightarrow> b | Inl _ \<Rightarrow> []" h3] fd_call_same(1)[of h2] 3 4
      by (metis snd_conv)
    ultimately show ?thesis using opened[of h4] assms 1 2 3 4 ok by (simp add: append_locked_def Let_def)
  qed
qed

lemma append_fresh:
  assumes "append_with L modes W state entry i key src now limits h = (Ok out, h')" and "\<not> ao_replayed out"
    and "dir = state @ [JOURNAL_DIR]" and "short_lines (active_bytes dir h)"
  obtains s j where "ao_entry out = stored_entry entry s i key src now"
    "list_all (\<lambda>e. en_seq e \<le> s) (fst (parse_lines L (tail_of TAIL_BYTES (active_bytes dir h))))"
    "to_vec (cr_json L) Entry_json (ao_entry out) = Some j" "length j < MAX_LINE_BYTES"
    "active_bytes dir h' = extended (active_bytes dir h) (j @ [line_feed]) \<or> active_bytes dir h' = j @ [line_feed]"
    "flocked h' = (flocked h)(dir @ [JOURNAL_LOCK] := False)"
  using assms(1,3)
proof (cases rule: append_with_cases)
  case (inside h1 h2)
  from inside(3) have c': "active_bytes dir h' = active_bytes dir h2" by (simp add: active_bytes_def)
  have c1: "active_bytes dir h1 = active_bytes dir h" by (rule active_bytes_cong) (rule inside(2))
  from inside(1) show ?thesis
  proof (cases rule: append_locked_opened)
    case (opened h3)
    let ?recent = "fst (parse_lines L (tail_of TAIL_BYTES (active_bytes dir h)))"
    from opened(2) assms(2)
    have "append_new L modes dir entry i key src now limits (active_bytes dir h) (tail_of TAIL_BYTES (active_bytes dir h)) ?recent h3 = (Ok out, h2)"
      unfolding c1 by (cases "find (same_request i key) (rev ?recent)") auto
    from append_new_Ok[OF this opened(1)[unfolded c1] assms(4)] c' inside(4) that show ?thesis by metis
  qed simp
qed simp

text \<open>Every line of an extended segment is short again.\<close>

lemma short_lines_extended:
  assumes "short_lines b" and "line_feed \<notin> set j" and "length j < MAX_LINE_BYTES"
  shows "short_lines (extended b (j @ [line_feed]))" and "short_lines (j @ [line_feed])"
proof -
  show line: "short_lines (j @ [line_feed])"
    using assms by (simp add: short_lines_def split_on_append_sep split_on_no_sep MAX_LINE_BYTES_def)
  show "short_lines (extended b (j @ [line_feed]))"
  proof (cases "closed_text b \<and> b \<noteq> []")
    case True
    then obtain b' where "b = b' @ [line_feed]" by (metis append_butlast_last_id closed_text_def)
    then show ?thesis using assms(1) line True
      by (simp add: extended_def short_lines_def split_on_append_sep)
  next
    case False
    then show ?thesis using assms(1) line by (auto simp: extended_def short_lines_def split_on_append_sep closed_text_def)
  qed
qed

lemma append_reads_back:
  assumes "crates_ok L" and "json_lines_ok (cr_json L)" and "uuid_wf i" and "dir = state @ [JOURNAL_DIR]"
    and "short_lines (active_bytes dir h)"
    and "append_with L modes W state entry i key src now limits h = (Ok out, h')" and "\<not> ao_replayed out"
  shows "fst (parse_lines L (active_bytes dir h'))
      \<in> {fst (parse_lines L (active_bytes dir h)) @ [ao_entry out], [ao_entry out]}
    \<and> (\<exists>s. ao_entry out = stored_entry entry s i key src now
         \<and> list_all (\<lambda>e. en_seq e \<le> s) (fst (parse_lines L (tail_of TAIL_BYTES (active_bytes dir h)))))
    \<and> short_lines (active_bytes dir h') \<and> closed_text (active_bytes dir h')
    \<and> flocked h' = (flocked h)(dir @ [JOURNAL_LOCK] := False)"
proof -
  from append_fresh[OF assms(6,7,4,5)] obtain s j where s: "ao_entry out = stored_entry entry s i key src now"
      "list_all (\<lambda>e. en_seq e \<le> s) (fst (parse_lines L (tail_of TAIL_BYTES (active_bytes dir h))))"
    and j: "to_vec (cr_json L) Entry_json (ao_entry out) = Some j" "length j < MAX_LINE_BYTES"
    and c: "active_bytes dir h' = extended (active_bytes dir h) (j @ [line_feed]) \<or> active_bytes dir h' = j @ [line_feed]"
    and f: "flocked h' = (flocked h)(dir @ [JOURNAL_LOCK] := False)" .
  have "uuid_wf (en_id (ao_entry out))" "1 \<le> en_schema_version (ao_entry out)"
    using s(1) assms(3) by (simp_all add: stored_entry_def JOURNAL_SCHEMA_VERSION_def)
  note line = parse_one_line[OF assms(1,2) this j(1)]
  have read: "fst (parse_lines L (j @ [line_feed])) = [ao_entry out]"
    using parse_lines_append[of L j "[]"] line(1) by simp
  obtain a where a: "extended (active_bytes dir h) (j @ [line_feed]) = a @ j @ [line_feed]" "closed_text a"
      "fst (parse_lines L a) = fst (parse_lines L (active_bytes dir h))"
    by (rule extended_split[of "active_bytes dir h" "j @ [line_feed]" L])
  have "fst (parse_lines L (active_bytes dir h')) \<in> {fst (parse_lines L (active_bytes dir h)) @ [ao_entry out], [ao_entry out]}"
    using c read parse_closed_append[OF a(2), of L "j @ [line_feed]"] a by auto
  moreover have "short_lines (active_bytes dir h')" using c short_lines_extended[OF assms(5) line(2) j(2)] by auto
  moreover have "closed_text (active_bytes dir h')" using c a(1) by (auto simp: closed_text_def)
  ultimately show ?thesis using s f by blast
qed

lemma append_again_replays:
  assumes "crates_ok L" and "json_lines_ok (cr_json L)" and "uuid_wf i" and "dir = state @ [JOURNAL_DIR]"
    and "short_lines (active_bytes dir h)"
    and "append_with L modes W state entry i key src now limits h = (Ok out, h')" and "\<not> ao_replayed out"
    and "active_bytes dir h1 = active_bytes dir h'" and "i' = i \<or> key \<noteq> None \<and> key' = key"
    and "append_with L modes' W' state entry' i' key' src' now' limits' h1 = (r, h2)"
  shows "(r = Ok \<lparr> ao_entry = ao_entry out, ao_replayed = True \<rparr> \<or> (\<exists>e. r = Err e)) \<and> active_bytes dir h2 = active_bytes dir h'"
  using assms(10,4)
proof (cases rule: append_with_cases)
  case (outside e)
  then show ?thesis using active_bytes_cong[OF outside(2)] assms(8) by simp
next
  case (inside h3 h4)
  from append_fresh[OF assms(6,7,4,5)] obtain s j where s: "ao_entry out = stored_entry entry s i key src now"
    and j: "to_vec (cr_json L) Entry_json (ao_entry out) = Some j" "length j < MAX_LINE_BYTES"
    and c: "active_bytes dir h' = extended (active_bytes dir h) (j @ [line_feed]) \<or> active_bytes dir h' = j @ [line_feed]"
    and f: "flocked h' = (flocked h)(dir @ [JOURNAL_LOCK] := False)" .
  have "uuid_wf (en_id (ao_entry out))" "1 \<le> en_schema_version (ao_entry out)"
    using s(1) assms(3) by (simp_all add: stored_entry_def JOURNAL_SCHEMA_VERSION_def)
  note line = parse_one_line[OF assms(1,2) this j(1)]
  have read: "fst (parse_lines L (j @ [line_feed])) = [ao_entry out]"
    using parse_lines_append[of L j "[]"] line(1) by simp
  have same: "same_request i' key' (ao_entry out)"
    using assms(9) s by (auto simp: same_request_def stored_entry_def)
  obtain a where a: "active_bytes dir h' = a @ j @ [line_feed]" "closed_text a"
    using c extended_split[of "active_bytes dir h" "j @ [line_feed]" L] by (metis append_Nil closed_text_def)
  obtain x where x: "tail_of TAIL_BYTES (active_bytes dir h') = x @ j @ [line_feed]" "closed_text x"
    using tail_of_last_line[OF a(2), of "j @ [line_feed]" TAIL_BYTES] j(2) a(1)
    by (auto simp: TAIL_BYTES_def MAX_LINE_BYTES_def)
  have found: "find (same_request i' key') (rev (fst (parse_lines L (tail_of TAIL_BYTES (active_bytes dir h'))))) = Some (ao_entry out)"
    using parse_closed_append[OF x(2), of L "j @ [line_feed]"] read same by (simp add: x(1))
  have c3: "active_bytes dir h3 = active_bytes dir h'" using active_bytes_cong[OF inside(2)] assms(8) by simp
  have c2: "active_bytes dir h2 = active_bytes dir h4" using inside(3) by (simp add: active_bytes_def)
  from inside(1) show ?thesis
  proof (cases rule: append_locked_opened)
    case (failed e)
    then show ?thesis using c2 c3 by simp
  next
    case (opened h5)
    then show ?thesis using found c2 c3 by (auto simp: active_bytes_def)
  qed
qed

lemma append_not_replayed:
  assumes "append_with L modes W state entry i key src now limits h = (Ok out, h')" and "dir = state @ [JOURNAL_DIR]"
    and "list_all (\<lambda>e. \<not> same_request i key e) (fst (parse_lines L (tail_of TAIL_BYTES (active_bytes dir h))))"
  shows "\<not> ao_replayed out"
  using assms(1,2)
proof (cases rule: append_with_cases)
  case (inside h1 h2)
  have c1: "active_bytes dir h1 = active_bytes dir h" by (rule active_bytes_cong) (rule inside(2))
  have none: "find (same_request i key) (rev (fst (parse_lines L (tail_of TAIL_BYTES (active_bytes dir h))))) = None"
    using assms(3) by (auto simp: find_None_iff list_all_iff)
  from inside(1) show ?thesis
  proof (cases rule: append_locked_opened)
    case (opened h3)
    then show ?thesis unfolding c1 none by (auto simp: append_new_def Let_def try_io_Ok_iff split: option.splits if_splits)
  qed simp
qed simp

section \<open>An example\<close>

text \<open>A journal whose last line is torn, and a first entry after it.\<close>

definition example_new_entry :: NewEntry where
  "example_new_entry = \<lparr> ne_actor = ''engine'', ne_action = ''site.deploy'', ne_result = Jr_Failed, ne_site = None,
     ne_subsite = None, ne_environment = None, ne_operation_id = None, ne_target = None, ne_error_code = None,
     ne_summary = None \<rparr>"

definition example_entry :: Entry where
  "example_entry = stored_entry example_new_entry 0 example_id None Engine 0"

definition example_journal_crates :: crates where
  "example_journal_crates = \<lparr> cr_json = line_text [Entry_json example_entry], cr_uuid = canonical_uuid \<rparr>"

definition example_journal_host :: host where
  "example_journal_host = example_host
     [([''s''], Dir), ([''s'', JOURNAL_DIR], Dir), ([''s'', JOURNAL_DIR, JOURNAL_LOCK], File []),
      ([''s'', JOURNAL_DIR, ACTIVE], File ''{'')]"

definition example_wait :: lock_wait where
  "example_wait = \<lparr> lw_freed = (\<lambda>_. False), lw_lag = (\<lambda>_. 0) \<rparr>"

lemma example_journal_crates_ok: "crates_ok example_journal_crates" "json_lines_ok (cr_json example_journal_crates)"
  by (simp_all add: example_journal_crates_def crates_ok_def)

lemma example_active: "active_bytes ([''s''] @ [JOURNAL_DIR]) example_journal_host = ''{''"
  by (simp add: active_bytes_def example_journal_host_def example_host_def node_at_def ACTIVE_def JOURNAL_LOCK_def)

lemma example_short: "short_lines (active_bytes ([''s''] @ [JOURNAL_DIR]) example_journal_host)"
  unfolding example_active by (simp add: short_lines_def MAX_LINE_BYTES_def)

lemma example_tail: "tail_of TAIL_BYTES ''{'' = ''{''"
  by (simp add: tail_of_def TAIL_BYTES_def)

lemma torn_line_text: "parse_lines \<lparr> cr_json = line_text xs, cr_uuid = parse_str \<rparr> ''{'' = ([], 1)"
  by (simp add: parse_lines_def parse_line_def from_slice_def line_text_def brace_line_def brace_not_blank)

lemma example_recent: "parse_lines example_journal_crates ''{'' = ([], 1)"
  by (simp add: example_journal_crates_def torn_line_text)

lemma example_names: "utf8_ok ACTIVE" "utf8_ok JOURNAL_LOCK" "ACTIVE \<noteq> JOURNAL_LOCK"
  by code_simp+

lemma append_after_torn_line:
  "\<exists>h'. append_with \<lparr> cr_json = line_text [Entry_json (stored_entry entry 0 i key src now)], cr_uuid = parse_str \<rparr>
     (\<lambda>_ _. 384) example_wait [''s''] entry i key src now Limits_DEFAULT example_journal_host
   = (Ok \<lparr> ao_entry = stored_entry entry 0 i key src now, ao_replayed = False \<rparr>, h')"
proof -
  have "to_vec (line_text [Entry_json (stored_entry entry 0 i key src now)]) Entry_json (stored_entry entry 0 i key src now)
      = Some (brace_line 0)"
    by (simp add: to_vec_def line_text_def)
  moreover have "last_seq_of [] [] = 0" by (simp add: last_seq_of_def)
  ultimately show ?thesis
    using example_names
    by (simp add: append_with_def open_dir_def create_dir_all_def io_call_def ensure_mode_def mode_def set_mode_def
        example_journal_host_def example_host_def node_at_def next_tick_def open_managed_dir_def
        journal_lock_def create_private_def open_new_def parent_ok_def open_or_create_file_def open_append_def
        lock_loop.simps flock_attempt_def append_locked_def fd_call_def read_tail_def example_tail torn_line_text
        append_new_def rotated_segments_def file_names_def dir_entries_def is_file_node_def List.map_filter_def
        MAX_LINE_BYTES_def brace_line_def rotate_segment_def Limits_DEFAULT_def
        MAX_SEGMENT_BYTES_def write_entry_def write_all_def sync_all_def set_node_def Let_def)
qed

lemma example_append:
  "\<exists>h'. append_with example_journal_crates (\<lambda>_ _. 384) example_wait [''s''] example_new_entry example_id None Engine 0
     Limits_DEFAULT example_journal_host = (Ok \<lparr> ao_entry = example_entry, ao_replayed = False \<rparr>, h')"
  using append_after_torn_line[of example_new_entry example_id None Engine 0 canonical_uuid]
  by (simp add: example_journal_crates_def example_entry_def)





end
