(* ===== verification/JournalPage.thy ===== *)
theory JournalPage
  imports JournalAppend
begin

text \<open>
  Listing the change journal (\<open>src/src/journal.rs\<close>): filters, segment order, paging.
\<close>

section \<open>Listing\<close>

record Query =
  q_site :: "string option"
  q_subsite :: "string option"
  q_environment :: "Environment option"
  q_since_unix_secs :: "u64 option"
  q_action_prefix :: "string option"
  q_result :: "JournalResult option"
  q_source :: "Source option"
  q_limit :: "nat option"
  q_before_seq :: "u64 option"

definition Query_validate :: "Query \<Rightarrow> Rejected + unit" where
  "Query_validate q =
     bind_ok (transpose_with (\<lambda>site. token site MAX_SITE_LEN [] ''site is invalid'') (q_site q)) (\<lambda>_.
     bind_ok (transpose_with (\<lambda>subsite. token subsite MAX_SITE_LEN [] ''subsite is invalid'') (q_subsite q)) (\<lambda>_.
       case q_action_prefix q of
         None \<Rightarrow> Ok ()
       | Some prefix \<Rightarrow>
           if prefix = [] \<or> MAX_ACTION_LEN < length prefix
              \<or> \<not> list_all (\<lambda>c. is_ascii_alphanumeric c \<or> c = CHR ''.'') prefix
           then Err ''action-prefix is invalid'' else Ok ()))"

definition is_none_or :: "'a option \<Rightarrow> ('a \<Rightarrow> bool) \<Rightarrow> bool" where
  "is_none_or x P = (case x of None \<Rightarrow> True | Some v \<Rightarrow> P v)"

definition Query_matches :: "Query \<Rightarrow> Entry \<Rightarrow> bool" where
  "Query_matches q entry =
     (is_none_or (q_site q) (\<lambda>s. en_site entry = Some s)
      \<and> is_none_or (q_subsite q) (\<lambda>s. en_subsite entry = Some s)
      \<and> is_none_or (q_environment q) (\<lambda>e. en_environment entry = Some e)
      \<and> is_none_or (q_since_unix_secs q) (\<lambda>t. t \<le> en_at_unix_secs entry)
      \<and> is_none_or (q_action_prefix q) (\<lambda>p. starts_with (en_action entry) p)
      \<and> is_none_or (q_result q) (\<lambda>r. en_result entry = r)
      \<and> is_none_or (q_source q) (\<lambda>s. en_source entry = s)
      \<and> is_none_or (q_before_seq q) (\<lambda>b. en_seq entry < b))"

text \<open>Newest first: a stable sort by descending number, then adjacent repetitions go.\<close>

fun dedup_by_seq :: "Entry list \<Rightarrow> Entry list" where
  "dedup_by_seq (x # y # zs) =
     (if en_seq x = en_seq y then dedup_by_seq (x # zs) else x # dedup_by_seq (y # zs))"
| "dedup_by_seq xs = xs"

definition newest_entries :: "Entry list \<Rightarrow> Entry list" where
  "newest_entries es = dedup_by_seq (sort_key (\<lambda>e. - uint (en_seq e)) es)"

definition list_limit :: "Query \<Rightarrow> nat" where
  "list_limit q = max 1 (min LIST_MAX_LIMIT (case q_limit q of None \<Rightarrow> LIST_DEFAULT_LIMIT | Some n \<Rightarrow> n))"

text \<open>The segments, newest first, each with the last number of the one before it.\<close>

definition segment_order :: "(u64 \<times> string) list \<Rightarrow> (string \<times> u64) list" where
  "segment_order rotated =
     (ACTIVE, if rotated = [] then 0 else fst (last rotated))
     # rev (map2 (\<lambda>(_, name) previous. (name, previous)) rotated (0 # map fst rotated))"

fun collect :: "Query \<Rightarrow> Entry list \<Rightarrow> Entry list \<Rightarrow> Entry list \<times> bool" where
  "collect q [] out = (out, False)"
| "collect q (entry # rest) out =
     (if \<not> Query_matches q entry then collect q rest out
      else if length out = list_limit q then (out, True)
      else collect q rest (out @ [entry]))"

definition segment_passed :: "Query \<Rightarrow> u64 \<Rightarrow> bool" where
  "segment_passed q previous_last =
     (case q_before_seq q of None \<Rightarrow> False | Some before \<Rightarrow> unat before \<le> min (unat previous_last + 1) U64_MAX)"

definition segment_stale :: "ManagedRoot \<Rightarrow> Query \<Rightarrow> string \<Rightarrow> host \<Rightarrow> bool \<times> host" where
  "segment_stale dir q name h =
     (case q_since_unix_secs q of
        Some since \<Rightarrow>
          if name \<noteq> ACTIVE
          then (case modified_secs dir name h of
                  (Some m, h) \<Rightarrow> (m < unat since, h)
                | (None, h) \<Rightarrow> (False, h))
          else (False, h)
      | None \<Rightarrow> (False, h))"

definition open_read :: "ManagedRoot \<Rightarrow> string \<Rightarrow> host \<Rightarrow> bytes io" where
  "open_read dir name h = io_call h (\<lambda>h.
     case node_at h (dir @ [name]) of
       None \<Rightarrow> (Err IoNotFound, h)
     | Some (File b) \<Rightarrow> (Ok b, h)
     | Some _ \<Rightarrow> (Err IoOther, h))"

fun list_segments ::
  "crates \<Rightarrow> ManagedRoot \<Rightarrow> Query \<Rightarrow> (string \<times> u64) list \<Rightarrow> Entry list \<Rightarrow> nat \<Rightarrow> host
    \<Rightarrow> (JournalError + Entry list \<times> nat \<times> bool) \<times> host" where
  "list_segments L dir q [] out skipped h = (Ok (out, skipped, False), h)"
| "list_segments L dir q ((name, previous_last) # order) out skipped h =
     (if segment_passed q previous_last then list_segments L dir q order out skipped h
      else (case segment_stale dir q name h of (stale, h) \<Rightarrow>
        if stale then (Ok (out, skipped, False), h)
        else (case open_read dir name h of
          (Inl e, h) \<Rightarrow> if e = IoNotFound then list_segments L dir q order out skipped h else (Err J_Io, h)
        | (Inr contents, h) \<Rightarrow>
            try_io (read_tail (MAX_SEGMENT_BYTES * 2) contents h) (\<lambda>_. J_Io) (\<lambda>bytes h.
              (case parse_lines L bytes of (entries, bad) \<Rightarrow>
                (case collect q (newest_entries entries) out of (out, full) \<Rightarrow>
                   if full then (Ok (out, skipped + bad, True), h)
                   else list_segments L dir q order out (skipped + bad) h))))))"

definition list_locked :: "crates \<Rightarrow> ManagedRoot \<Rightarrow> Query \<Rightarrow> host \<Rightarrow> (JournalError + ListOutcome) \<times> host" where
  "list_locked L dir q h =
     try_io (rotated_segments dir h) (\<lambda>_. J_Io) (\<lambda>rotated h.
     try_io (list_segments L dir q (segment_order rotated) [] 0 h) id (\<lambda>(out, skipped, full) h.
       (Ok \<lparr> lo_entries = out,
             lo_next_cursor = (if full \<and> out \<noteq> [] then Some (en_seq (last out)) else None),
             lo_skipped = skipped \<rparr>, h)))"

definition journal_list ::
  "crates \<Rightarrow> modes \<Rightarrow> lock_wait \<Rightarrow> ManagedRoot \<Rightarrow> Query \<Rightarrow> host \<Rightarrow> (JournalError + ListOutcome) \<times> host" where
  "journal_list L modes W state q h =
     try_io (open_dir modes state False h) id (\<lambda>opened h.
       case opened of
         None \<Rightarrow> (Ok \<lparr> lo_entries = [], lo_next_cursor = None, lo_skipped = 0 \<rparr>, h)
       | Some dir \<Rightarrow>
           try_io (journal_lock modes W dir h) id (\<lambda>guard h.
             apsnd (release guard) (list_locked L dir q h)))"

section \<open>The reference\<close>

text \<open>All entries of a segment as a reader sees them, newest first.\<close>

definition segment_entries :: "crates \<Rightarrow> ManagedRoot \<Rightarrow> host \<Rightarrow> string \<Rightarrow> Entry list" where
  "segment_entries L dir h name =
     (case node_at h (dir @ [name]) of
        Some (File b) \<Rightarrow> newest_entries (fst (parse_lines L (tail_of (MAX_SEGMENT_BYTES * 2) b)))
      | _ \<Rightarrow> [])"

definition order_entries :: "crates \<Rightarrow> ManagedRoot \<Rightarrow> host \<Rightarrow> (string \<times> u64) list \<Rightarrow> Entry list" where
  "order_entries L dir h order = concat (map (\<lambda>(name, _). segment_entries L dir h name) order)"

text \<open>
  The order the segments of a journal are in: the entries of a segment are numbered after the segment
  before it, which is named by its last number, and the entries of a rotated segment, and of those
  before it, are no younger than its last write.
\<close>

fun numbered :: "crates \<Rightarrow> ManagedRoot \<Rightarrow> host \<Rightarrow> (string \<times> u64) list \<Rightarrow> bool" where
  "numbered L dir h [] = True"
| "numbered L dir h ((name, previous) # order) =
     (list_all (\<lambda>e. previous < en_seq e) (segment_entries L dir h name)
      \<and> list_all (\<lambda>e. en_seq e \<le> previous) (order_entries L dir h order) \<and> numbered L dir h order)"

fun aged :: "crates \<Rightarrow> ManagedRoot \<Rightarrow> host \<Rightarrow> (string \<times> u64) list \<Rightarrow> bool" where
  "aged L dir h [] = True"
| "aged L dir h ((name, previous) # order) =
     ((case mtime h (dir @ [name]) of
         None \<Rightarrow> True
       | Some m \<Rightarrow> name = ACTIVE \<or>
           list_all (\<lambda>e. unat (en_at_unix_secs e) \<le> m div 10 ^ 9) (order_entries L dir h ((name, previous) # order)))
      \<and> aged L dir h order)"

lemma order_entries_Cons [simp]:
  "order_entries L dir h ((name, previous) # order) = segment_entries L dir h name @ order_entries L dir h order"
  "order_entries L dir h [] = []"
  by (simp_all add: order_entries_def)

lemma collect_is_take:
  "length out \<le> list_limit q \<Longrightarrow> collect q es out
     = (take (list_limit q) (out @ filter (Query_matches q) es), list_limit q < length (out @ filter (Query_matches q) es))"
  by (induction es arbitrary: out) (auto simp: take_Cons')

lemma passed_has_none:
  assumes "segment_passed q previous" and "list_all (\<lambda>e. previous < en_seq e) es"
  shows "filter (Query_matches q) es = []"
proof -
  from assms(1) obtain b where b: "q_before_seq q = Some b" "unat b \<le> unat previous + 1"
    by (auto simp: segment_passed_def split: option.splits)
  have "\<not> en_seq e < b" if "e \<in> set es" for e
    using assms(2) that b(2) by (auto simp: list_all_iff word_less_nat_alt dest!: bspec)
  then show ?thesis using b(1) by (auto simp: filter_empty_conv Query_matches_def is_none_or_def)
qed

lemma stale_has_none:
  assumes "segment_stale dir q name h = (True, h')" and "aged L dir h ((name, previous) # order)"
  shows "filter (Query_matches q) (order_entries L dir h ((name, previous) # order)) = []"
proof -
  from assms(1) obtain since m where s: "q_since_unix_secs q = Some since" "name \<noteq> ACTIVE"
      "mtime h (dir @ [name]) = Some m" "m div 10 ^ 9 < unat since"
    by (auto simp: segment_stale_def modified_secs_def split: option.splits if_splits prod.splits)
  have "list_all (\<lambda>e. unat (en_at_unix_secs e) \<le> m div 10 ^ 9) (order_entries L dir h ((name, previous) # order))"
    using assms(2) s(2,3) by (simp del: order_entries_Cons)
  then have "\<not> since \<le> en_at_unix_secs e" if "e \<in> set (order_entries L dir h ((name, previous) # order))" for e
    using that s(4) unfolding list_all_iff word_le_nat_alt by fastforce
  then show ?thesis using s(1) by (auto simp: filter_empty_conv Query_matches_def is_none_or_def)
qed

lemma segment_stale_same:
  "segment_stale dir q name h = (s, h') \<Longrightarrow> node_at h' = node_at h \<and> env h' = env h"
  by (auto simp: segment_stale_def modified_secs_def split: option.splits if_splits prod.splits)

lemma open_read_same: "open_read dir name h = (r, h') \<Longrightarrow> node_at h' = node_at h \<and> env h' = env h"
  by (auto simp: open_read_def io_call_def split: option.splits node.splits if_splits)

lemma order_entries_cong:
  assumes "\<And>name. name \<in> fst ` set order \<Longrightarrow> node_at h' (dir @ [name]) = node_at h (dir @ [name])"
  shows "order_entries L dir h' order = order_entries L dir h order"
proof -
  have "segment_entries L dir h' name = segment_entries L dir h name" if "name \<in> fst ` set order" for name
    using assms[OF that] by (simp add: segment_entries_def)
  then show ?thesis unfolding order_entries_def by (intro arg_cong[of _ _ concat] map_cong) force+
qed

lemma numbered_cong:
  "(\<And>name. name \<in> fst ` set order \<Longrightarrow> node_at h' (dir @ [name]) = node_at h (dir @ [name])) \<Longrightarrow>
     numbered L dir h' order = numbered L dir h order"
proof (induction order)
  case (Cons seg order)
  obtain name previous where seg: "seg = (name, previous)" by fastforce
  have "segment_entries L dir h' name = segment_entries L dir h name"
    using Cons.prems[of name] seg by (simp add: segment_entries_def)
  moreover have "order_entries L dir h' order = order_entries L dir h order"
    by (rule order_entries_cong) (simp add: Cons.prems)
  ultimately show ?case using Cons seg by simp
qed simp

lemma aged_cong:
  "mtime h' = mtime h \<Longrightarrow> (\<And>name. name \<in> fst ` set order \<Longrightarrow> node_at h' (dir @ [name]) = node_at h (dir @ [name])) \<Longrightarrow>
     aged L dir h' order = aged L dir h order"
proof (induction order)
  case (Cons seg order)
  obtain name previous where seg: "seg = (name, previous)" by fastforce
  have "order_entries L dir h' (seg # order) = order_entries L dir h (seg # order)"
    by (rule order_entries_cong) (rule Cons.prems(2))
  then show ?case using Cons seg by (simp del: order_entries_Cons split: option.split)
qed simp

text \<open>One segment that is read: the page is full after it, or the rest of the segments follow.\<close>

lemma list_step:
  assumes "list_segments L dir q ((name, previous) # order) out skipped h = (Ok (out', skipped', full), h')"
    and "length out \<le> list_limit q" and "\<not> segment_passed q previous" and "segment_stale dir q name h = (False, h1)"
    and "all = out @ filter (Query_matches q) (segment_entries L dir h name)"
  obtains (stop) "out' = take (list_limit q) all" "full" "list_limit q < length all"
  | (further) skipped1 h2 where "list_segments L dir q order all skipped1 h2 = (Ok (out', skipped', full), h')"
      "length all \<le> list_limit q" "node_at h2 = node_at h" "mtime h2 = mtime h"
proof -
  obtain r h2 where 2: "open_read dir name h1 = (r, h2)" by fastforce
  have same: "node_at h1 = node_at h" "node_at h2 = node_at h" "mtime h2 = mtime h"
    using segment_stale_same[OF assms(4)] open_read_same[OF 2] by (simp_all add: env_def)
  show ?thesis
  proof (cases r)
    case (Inl e)
    then have e: "e = IoNotFound" "list_segments L dir q order out skipped h2 = (Ok (out', skipped', full), h')"
      using assms(1,3,4) 2 by (auto split: if_splits)
    then have "all = out"
      using 2 Inl same(1) assms(5)
      by (auto simp: open_read_def io_call_def segment_entries_def split: option.splits node.splits if_splits)
    then show ?thesis using further e(2) assms(2) same by simp
  next
    case (Inr b)
    obtain bytes h3 where 3: "read_tail (MAX_SEGMENT_BYTES * 2) b h2 = (Ok bytes, h3)"
      using assms(1,3,4) 2 Inr
      by (cases "read_tail (MAX_SEGMENT_BYTES * 2) b h2" rule: prod.exhaust, rename_tac a c, case_tac a) auto
    have same3: "node_at h3 = node_at h" "mtime h3 = mtime h"
      using read_tail_same[of "MAX_SEGMENT_BYTES * 2" b h2] 3 same by (simp_all add: env_def)
    have es: "segment_entries L dir h name = newest_entries (fst (parse_lines L bytes))"
      using 2 Inr same(1) read_tail_Ok[OF 3]
      by (auto simp: open_read_def io_call_def segment_entries_def split: option.splits node.splits if_splits)
    have c: "collect q (newest_entries (fst (parse_lines L bytes))) out = (take (list_limit q) all, list_limit q < length all)"
      using collect_is_take[OF assms(2)] by (simp add: assms(5) es)
    show ?thesis
      using assms(1,3,4) 2 Inr 3 c same3 stop further[of "skipped + snd (parse_lines L bytes)" h3]
      by (cases "list_limit q < length all") (auto split: prod.splits)
  qed
qed

lemma list_segments_page:
  "list_segments L dir q order out skipped h = (Ok (out', skipped', full), h') \<Longrightarrow> length out \<le> list_limit q \<Longrightarrow>
     numbered L dir h order \<Longrightarrow> aged L dir h order \<Longrightarrow>
     out' = take (list_limit q) (out @ filter (Query_matches q) (order_entries L dir h order))
     \<and> full = (list_limit q < length (out @ filter (Query_matches q) (order_entries L dir h order)))"
proof (induction order arbitrary: out skipped h)
  case Nil
  then show ?case by simp
next
  case (Cons seg order)
  obtain name previous where seg: "seg = (name, previous)" by fastforce
  note prems = Cons.prems[unfolded seg]
  have later: "out' = take (list_limit q) (out1 @ filter (Query_matches q) (order_entries L dir h order))
      \<and> full = (list_limit q < length (out1 @ filter (Query_matches q) (order_entries L dir h order)))"
    if "list_segments L dir q order out1 skipped1 h1 = (Ok (out', skipped', full), h')" "length out1 \<le> list_limit q"
      "node_at h1 = node_at h" "mtime h1 = mtime h" for out1 skipped1 h1
  proof -
    have "numbered L dir h1 order" "aged L dir h1 order" "order_entries L dir h1 order = order_entries L dir h order"
      using prems(3,4) numbered_cong[of order h1 dir h L] aged_cong[of h1 h order dir L] that(4)
        order_entries_cong[of order h1 dir h L] that(3) by simp_all
    then show ?thesis using Cons.IH[OF that(1,2)] by simp
  qed
  obtain stale h1 where 1: "segment_stale dir q name h = (stale, h1)" by fastforce
  consider "segment_passed q previous" | "\<not> segment_passed q previous" stale | "\<not> segment_passed q previous" "\<not> stale" by blast
  then show ?case
  proof cases
    case 1
    then show ?thesis using later[OF _ prems(2) refl refl] prems passed_has_none[OF 1] by (simp add: seg)
  next
    case 2
    then show ?thesis using prems 1 stale_has_none[of dir q name h h1 L previous order] by (simp add: seg)
  next
    case 3
    then have fresh: "segment_stale dir q name h = (False, h1)" using 1 by simp
    show ?thesis
    proof (rule list_step[OF prems(1,2) 3(1) fresh refl], goal_cases)
      case 1
      then show ?case by (auto simp: seg)
    next
      case 2
      from later[OF 2] show ?case by (simp add: seg)
    qed
  qed
qed

section \<open>The page under the lock\<close>

definition segments_on_disk :: "ManagedRoot \<Rightarrow> host \<Rightarrow> (u64 \<times> string) list" where
  "segments_on_disk dir h = sort_key fst (List.map_filter (\<lambda>name. map_option (\<lambda>s. (s, name)) (rotated_seq name))
     (filter utf8_ok (map (\<lambda>(p, n). last p) (filter (\<lambda>(p, n). is_file_node n) (dir_entries h dir)))))"

lemma rotated_segments_Ok: "rotated_segments dir h = (Ok segs, h') \<Longrightarrow> segs = segments_on_disk dir h"
  by (auto simp: rotated_segments_def segments_on_disk_def try_io_Ok_iff file_names_def io_call_def dir_entries_def
      split: if_splits)

lemma segment_order_names:
  "name \<in> fst ` set (segment_order (segments_on_disk dir h)) \<Longrightarrow> name = ACTIVE \<or> rotated_seq name \<noteq> None"
  by (auto simp: segment_order_def segments_on_disk_def List.map_filter_def zip_map1 dest!: set_zip_leftD split: prod.splits)

text \<open>Creating the lock file adds no segment.\<close>

lemma segments_add:
  assumes "rotated_seq (last p) = None" and "node_at h p = None"
  shows "segments_on_disk dir (set_node p n h) = segments_on_disk dir h"
proof -
  have "map_of t p = None \<Longrightarrow> AList.update p n t = t @ [(p, n)]" for t
    by (induction t) (auto split: if_splits)
  then have "tree (set_node p n h) = tree h @ [(p, n)]"
    using assms(2) by (simp add: node_at_def set_node_def)
  then show ?thesis using assms(1)
    by (simp add: segments_on_disk_def dir_entries_def List.map_filter_def)
qed

lemma segments_tree: "tree h' = tree h \<Longrightarrow> segments_on_disk dir h' = segments_on_disk dir h"
  by (simp add: segments_on_disk_def dir_entries_def)

lemma segments_calls [simp]:
  "segments_on_disk dir (next_tick h) = segments_on_disk dir h"
  "segments_on_disk dir (snd (ensure_mode modes bits p h)) = segments_on_disk dir h"
  by (rule segments_tree, simp)+

lemma create_private_segments:
  "rotated_seq name = None \<Longrightarrow> segments_on_disk dir (snd (create_private modes dir name h)) = segments_on_disk dir h"
  by (auto simp: create_private_def open_new_def io_call_def segments_add split: prod.splits sum.splits)

lemma open_or_create_segments:
  "rotated_seq name = None \<Longrightarrow> segments_on_disk dir (snd (open_or_create_file dir [name] h)) = segments_on_disk dir h"
  by (auto simp: open_or_create_file_def open_append_def io_call_def segments_add split: option.splits node.splits)

lemma journal_lock_segments:
  assumes "journal_lock modes W dir h = (r, h')"
  shows "segments_on_disk dir h' = segments_on_disk dir h"
proof -
  obtain r1 h1 where 1: "create_private modes dir JOURNAL_LOCK h = (r1, h1)" by fastforce
  obtain r2 h2 where 2: "open_or_create_file dir [JOURNAL_LOCK] h1 = (r2, h2)" by fastforce
  obtain r3 h3 where 3: "lock_loop W (dir @ [JOURNAL_LOCK]) 0 h2 = (r3, h3)" by fastforce
  have "segments_on_disk dir h1 = segments_on_disk dir h" "segments_on_disk dir h2 = segments_on_disk dir h1"
    "segments_on_disk dir h3 = segments_on_disk dir h2"
    using create_private_segments[of JOURNAL_LOCK dir modes h] open_or_create_segments[of JOURNAL_LOCK dir h1]
      segments_tree[of h3 h2 dir] lock_loop_effect[OF 3] 1 2 by simp_all
  then show ?thesis using assms 1 2 3 by (cases r1; cases r2) (auto simp: journal_lock_def)
qed

definition journal_entries :: "crates \<Rightarrow> ManagedRoot \<Rightarrow> Query \<Rightarrow> host \<Rightarrow> Entry list" where
  "journal_entries L dir q h =
     filter (Query_matches q) (order_entries L dir h (segment_order (segments_on_disk dir h)))"

definition journal_wf :: "crates \<Rightarrow> ManagedRoot \<Rightarrow> host \<Rightarrow> bool" where
  "journal_wf L dir h \<longleftrightarrow> numbered L dir h (segment_order (segments_on_disk dir h))
     \<and> aged L dir h (segment_order (segments_on_disk dir h))"

lemma limit_bounds: "1 \<le> list_limit q" "list_limit q \<le> 200"
  by (auto simp: list_limit_def LIST_MAX_LIMIT_def split: option.splits)

lemma list_locked_page:
  assumes "list_locked L dir q h = (Ok lo, h')" and "journal_wf L dir h"
  shows "lo_entries lo = take (list_limit q) (journal_entries L dir q h)"
    and "lo_next_cursor lo = (if list_limit q < length (journal_entries L dir q h)
      then Some (en_seq (journal_entries L dir q h ! (list_limit q - 1))) else None)"
proof -
  from assms(1) obtain segs h1 out skipped full where
    r: "rotated_segments dir h = (Ok segs, h1)"
    and l: "list_segments L dir q (segment_order segs) [] 0 h1 = (Ok (out, skipped, full), h')"
    and lo: "lo = \<lparr> lo_entries = out,
             lo_next_cursor = (if full \<and> out \<noteq> [] then Some (en_seq (last out)) else None), lo_skipped = skipped \<rparr>"
    by (auto simp: list_locked_def try_io_Ok_iff)
  have same: "node_at h1 = node_at h" "mtime h1 = mtime h"
    using rotated_segments_same[of dir h] r by (simp_all add: env_def)
  have segs: "segs = segments_on_disk dir h" by (rule rotated_segments_Ok[OF r])
  have "numbered L dir h1 (segment_order segs)" "aged L dir h1 (segment_order segs)"
    "order_entries L dir h1 (segment_order segs) = order_entries L dir h (segment_order segs)"
    using assms(2) numbered_cong[of "segment_order segs" h1 dir h L] aged_cong[OF same(2), of "segment_order segs" dir L]
      order_entries_cong[of "segment_order segs" h1 dir h L] same(1) by (simp_all add: journal_wf_def segs)
  with list_segments_page[OF l] have page: "out = take (list_limit q) (journal_entries L dir q h)"
      "full = (list_limit q < length (journal_entries L dir q h))"
    by (simp_all add: journal_entries_def segs)
  then show "lo_entries lo = take (list_limit q) (journal_entries L dir q h)" by (simp add: lo)
  show "lo_next_cursor lo = (if list_limit q < length (journal_entries L dir q h)
      then Some (en_seq (journal_entries L dir q h ! (list_limit q - 1))) else None)"
    using page limit_bounds(1)[of q] by (auto simp: lo last_conv_nth)
qed

lemma journal_list_page:
  assumes "journal_list L modes W state q h = (Ok lo, h')" and "dir = state @ [JOURNAL_DIR]" and "node_at h dir = Some Dir"
    and "journal_wf L dir h"
  shows "lo_entries lo = take (list_limit q) (journal_entries L dir q h)"
    and "lo_next_cursor lo = (if list_limit q < length (journal_entries L dir q h)
      then Some (en_seq (journal_entries L dir q h ! (list_limit q - 1))) else None)"
proof -
  obtain r1 h1 where 1: "open_dir modes state False h = (r1, h1)" by fastforce
  have r1: "r1 = Ok (Some dir)" "tree h1 = tree h" "env h1 = env h"
    using 1 assms(1,2,3) by (auto simp: open_dir_def journal_list_def open_managed_dir_def io_call_def split: if_splits)
  from assms(1) 1 r1 obtain g h2 where 2: "journal_lock modes W dir h1 = (Ok g, h2)"
    and a: "apsnd (release g) (list_locked L dir q h2) = (Ok lo, h')"
    by (auto simp: journal_list_def try_io_Ok_iff)
  from a obtain h3 where l: "list_locked L dir q h2 = (Ok lo, h3)" by (cases "list_locked L dir q h2") auto
  have seg: "segments_on_disk dir h2 = segments_on_disk dir h"
    using journal_lock_segments[OF 2] segments_tree[OF r1(2)] by simp
  have node: "node_at h2 (dir @ [name]) = node_at h (dir @ [name])"
    if "name \<in> fst ` set (segment_order (segments_on_disk dir h))" for name
  proof -
    have "name \<noteq> JOURNAL_LOCK"
      using segment_order_names[OF that] example_names(3) by auto
    then show ?thesis using journal_lock_effect(1)[OF 2] node_at_tree[OF r1(2)] by simp
  qed
  have "mtime h2 = mtime h" using journal_lock_mtime[OF 2] r1(3) by (simp add: env_def)
  note c = numbered_cong[of "segment_order (segments_on_disk dir h)" h2 dir h L, OF node]
    aged_cong[of h2 h "segment_order (segments_on_disk dir h)" dir L, OF this node]
    order_entries_cong[of "segment_order (segments_on_disk dir h)" h2 dir h L, OF node]
  have "journal_wf L dir h2" "journal_entries L dir q h2 = journal_entries L dir q h"
    using c assms(4) by (simp_all add: journal_wf_def journal_entries_def seg)
  with list_locked_page[OF l] show "lo_entries lo = take (list_limit q) (journal_entries L dir q h)"
    "lo_next_cursor lo = (if list_limit q < length (journal_entries L dir q h)
      then Some (en_seq (journal_entries L dir q h ! (list_limit q - 1))) else None)" by simp_all
qed

section \<open>Paging\<close>

lemma dedup_sorted:
  "sorted_wrt (\<lambda>a b. en_seq b \<le> en_seq a) es \<Longrightarrow>
     sorted_wrt (\<lambda>a b. en_seq b < en_seq a) (dedup_by_seq es) \<and> set (dedup_by_seq es) \<subseteq> set es"
proof (induction es rule: dedup_by_seq.induct)
  case (1 x y zs)
  show ?case
  proof (cases "en_seq x = en_seq y")
    case True
    then show ?thesis using 1 by auto
  next
    case False
    then have "sorted_wrt (\<lambda>a b. en_seq b < en_seq a) (dedup_by_seq (y # zs))" "set (dedup_by_seq (y # zs)) \<subseteq> set (y # zs)"
      using 1 by auto
    moreover have "en_seq e < en_seq x" if "e \<in> set (y # zs)" for e
      using 1(3) False that by fastforce
    ultimately show ?thesis using False by auto
  qed
qed auto

lemma newest_sorted: "sorted_wrt (\<lambda>a b. en_seq b < en_seq a) (newest_entries es)"
proof -
  have "sorted (map (\<lambda>e. - uint (en_seq e)) (sort_key (\<lambda>e. - uint (en_seq e)) es))" by (rule sorted_sort_key)
  then have "sorted_wrt (\<lambda>a b. en_seq b \<le> en_seq a) (sort_key (\<lambda>e. - uint (en_seq e)) es)"
    by (simp add: sorted_map word_le_def)
  then show ?thesis unfolding newest_entries_def using dedup_sorted by blast
qed

lemma numbered_sorted: "numbered L dir h order \<Longrightarrow> sorted_wrt (\<lambda>a b. en_seq b < en_seq a) (order_entries L dir h order)"
proof (induction order)
  case (Cons seg order)
  obtain name previous where seg: "seg = (name, previous)" by fastforce
  have "sorted_wrt (\<lambda>a b. en_seq b < en_seq a) (segment_entries L dir h name)"
    by (auto simp: segment_entries_def newest_sorted split: option.splits node.splits)
  then show ?case using Cons seg by (auto simp: sorted_wrt_append list_all_iff intro: le_less_trans)
qed simp

lemma after_cursor:
  assumes "sorted_wrt (\<lambda>a b. f b < f a) xs" and "0 < n" and "n < length xs"
  shows "filter (\<lambda>e. f e < (f (xs ! (n - 1)) :: u64)) xs = drop n xs"
proof -
  have s: "sorted_wrt (\<lambda>a b. f b < f a) (take n xs @ drop n xs)" using assms(1) by simp
  have mem: "xs ! (n - 1) \<in> set (take n xs)" using assms(2,3) by (auto simp: in_set_conv_nth intro: exI[of _ "n - 1"])
  have "\<not> f e < f (xs ! (n - 1))" if e: "e \<in> set (take n xs)" for e
  proof -
    obtain k where "k < length (take n xs)" "e = take n xs ! k" using e unfolding in_set_conv_nth by blast
    then have k: "k < n" "e = xs ! k" by simp_all
    show ?thesis
    proof (cases "k = n - 1")
      case False
      then have "f (xs ! (n - 1)) < f (xs ! k)" using k assms by (intro sorted_wrt_nth_less[OF assms(1)]) auto
      then show ?thesis using k by simp
    qed (simp add: k)
  qed
  moreover have "f e < f (xs ! (n - 1))" if "e \<in> set (drop n xs)" for e
    using s mem that unfolding sorted_wrt_append by blast
  ultimately have "filter (\<lambda>e. f e < f (xs ! (n - 1))) (take n xs @ drop n xs) = drop n xs"
    unfolding filter_append by (simp add: filter_empty_conv)
  then show ?thesis by simp
qed

lemma next_entries:
  assumes "q_before_seq q = None \<or> q_before_seq q = Some b \<and> c < b"
  shows "journal_entries L dir (q\<lparr> q_before_seq := Some c \<rparr>) h = filter (\<lambda>e. en_seq e < c) (journal_entries L dir q h)"
proof -
  have "Query_matches (q\<lparr> q_before_seq := Some c \<rparr>) e \<longleftrightarrow> Query_matches q e \<and> en_seq e < c" for e
    using assms by (auto simp: Query_matches_def is_none_or_def split: option.splits)
  then have "Query_matches (q\<lparr> q_before_seq := Some c \<rparr>) = (\<lambda>e. Query_matches q e \<and> en_seq e < c)" by blast
  then show ?thesis by (simp add: journal_entries_def)
qed

text \<open>
  (C20) Listing the change journal is paging through its entries. When the segments are numbered one
  after the other and dated as appends leave them, a successful listing returns the first entries, at
  most 200, of all matching ones from the newest to the oldest, although it skips segments by number
  and stops at the first old one; it returns a cursor exactly when there are more, and the entries
  before the cursor are exactly the remaining ones.
\<close>

theorem journal_list_pages:
  assumes "dir = state @ [JOURNAL_DIR]" and "node_at h dir = Some Dir" and "journal_wf L dir h"
    and "journal_list L modes W state q h = (Ok lo, h')"
  shows "lo_entries lo = take (list_limit q) (journal_entries L dir q h)
    \<and> (lo_next_cursor lo = None \<longleftrightarrow> length (journal_entries L dir q h) \<le> list_limit q)
    \<and> (\<forall>c. lo_next_cursor lo = Some c \<longrightarrow>
         journal_entries L dir (q\<lparr> q_before_seq := Some c \<rparr>) h = drop (list_limit q) (journal_entries L dir q h))
    \<and> sorted_wrt (\<lambda>a b. en_seq b < en_seq a) (journal_entries L dir q h) \<and> list_limit q \<in> {1..200}"
proof -
  let ?es = "journal_entries L dir q h" and ?n = "list_limit q"
  note page = journal_list_page[OF assms(4,1,2,3)]
  have sorted: "sorted_wrt (\<lambda>a b. en_seq b < en_seq a) ?es"
    using numbered_sorted assms(3) by (auto simp: journal_entries_def journal_wf_def intro!: sorted_wrt_filter)
  have "journal_entries L dir (q\<lparr> q_before_seq := Some c \<rparr>) h = drop ?n ?es" if "lo_next_cursor lo = Some c" for c
  proof -
    have c: "?n < length ?es" "c = en_seq (?es ! (?n - 1))" using that page(2) by (auto split: if_splits)
    have "?es ! (?n - 1) \<in> set ?es" using c(1) by (intro nth_mem) simp
    then have "Query_matches q (?es ! (?n - 1))" by (simp add: journal_entries_def)
    then have "q_before_seq q = None \<or> (\<exists>b. q_before_seq q = Some b \<and> c < b)"
      by (auto simp: c(2) Query_matches_def is_none_or_def split: option.splits)
    then have "journal_entries L dir (q\<lparr> q_before_seq := Some c \<rparr>) h = filter (\<lambda>e. en_seq e < c) ?es"
      using next_entries by blast
    also have "\<dots> = drop ?n ?es" unfolding c(2) using limit_bounds(1)[of q] c(1) by (intro after_cursor[OF sorted]) auto
    finally show ?thesis .
  qed
  moreover have "lo_next_cursor lo = None \<longleftrightarrow> length ?es \<le> ?n" using page(2) by auto
  ultimately show ?thesis using page(1) sorted limit_bounds[of q] by auto
qed

definition example_entry2 :: Entry where
  "example_entry2 = example_entry\<lparr> en_seq := 2 \<rparr>"

definition example_page_crates :: crates where
  "example_page_crates = \<lparr> cr_json = line_text [Entry_json example_entry, Entry_json example_entry2], cr_uuid = canonical_uuid \<rparr>"

definition example_page_text :: bytes where
  "example_page_text = brace_line 0 @ line_feed # brace_line 1 @ [line_feed]"

definition example_page_host :: host where
  "example_page_host = example_host
     [([''s''], Dir), ([''s'', JOURNAL_DIR], Dir), ([''s'', JOURNAL_DIR, JOURNAL_LOCK], File []),
      ([''s'', JOURNAL_DIR, ACTIVE], File example_page_text)]"

definition example_query :: Query where
  "example_query = \<lparr> q_site = None, q_subsite = None, q_environment = None, q_since_unix_secs = None,
     q_action_prefix = None, q_result = None, q_source = None, q_limit = Some 1, q_before_seq = None \<rparr>"

lemma example_page_tail:
  "tail_of (MAX_SEGMENT_BYTES * 2) example_page_text = example_page_text"
  by (simp add: tail_of_def MAX_SEGMENT_BYTES_def brace_line_def example_page_text_def)

lemma example_seqs [simp]: "en_seq example_entry = 1" "en_seq example_entry2 = 2"
  by (simp_all add: example_entry2_def example_entry_def stored_entry_def)

lemma example_page_parsed:
  "parse_lines example_page_crates example_page_text = ([example_entry, example_entry2], 0)"
proof -
  have ok: "crates_ok example_page_crates" "json_lines_ok (cr_json example_page_crates)"
    by (simp_all add: example_page_crates_def crates_ok_def)
  have wf: "uuid_wf (en_id example_entry)" "uuid_wf (en_id example_entry2)"
      "1 \<le> en_schema_version example_entry" "1 \<le> en_schema_version example_entry2"
    by (simp_all add: example_entry2_def example_entry_def stored_entry_def JOURNAL_SCHEMA_VERSION_def)
  have ne: "Entry_json example_entry \<noteq> Entry_json example_entry2"
  proof
    assume "Entry_json example_entry = Entry_json example_entry2"
    with entry_json.to_json_inj[of canonical_uuid example_entry example_entry2] wf
    have "example_entry = example_entry2" by simp
    then have "(1 :: u64) = 2" using example_seqs by simp
    then show False by simp
  qed
  have "to_vec (cr_json example_page_crates) Entry_json example_entry = Some (brace_line 0)"
    "to_vec (cr_json example_page_crates) Entry_json example_entry2 = Some (brace_line 1)"
    using ne by (simp_all add: to_vec_def example_page_crates_def line_text_def)
  from parse_one_line(1)[OF ok wf(1,3) this(1)] parse_one_line(1)[OF ok wf(2,4) this(2)]
  show ?thesis
    using parse_lines_append[of example_page_crates "brace_line 0" "brace_line 1 @ [line_feed]"]
      parse_lines_append[of example_page_crates "brace_line 1" "[]"] by (simp add: example_page_text_def)
qed

lemma example_newest: "newest_entries [example_entry, example_entry2] = [example_entry2, example_entry]"
  by (simp add: newest_entries_def)

lemma example_matches:
  "Query_matches example_query e" "list_limit example_query = 1" "q_before_seq example_query = None"
  "q_since_unix_secs example_query = None"
  by (simp_all add: Query_matches_def example_query_def is_none_or_def list_limit_def LIST_MAX_LIMIT_def)

lemma example_page_list:
  "\<exists>lo h'. journal_list example_page_crates (\<lambda>_ _. 384) example_wait [''s''] example_query example_page_host = (Ok lo, h')"
  using example_names
  by (simp add: journal_list_def open_dir_def io_call_def ensure_mode_def mode_def example_page_host_def example_host_def
      node_at_def next_tick_def open_managed_dir_def journal_lock_def create_private_def open_new_def parent_ok_def
      open_or_create_file_def open_append_def lock_loop.simps flock_attempt_def list_locked_def fd_call_def read_tail_def
      rotated_segments_def file_names_def dir_entries_def is_file_node_def List.map_filter_def segment_order_def
      segment_passed_def segment_stale_def open_read_def example_page_tail example_page_parsed example_newest
      example_matches Let_def)

lemma example_page_entries:
  "journal_wf example_page_crates [''s'', JOURNAL_DIR] example_page_host"
  "journal_entries example_page_crates [''s'', JOURNAL_DIR] example_query example_page_host = [example_entry2, example_entry]"
proof -
  have o: "segment_order (segments_on_disk [''s'', JOURNAL_DIR] example_page_host) = [(ACTIVE, 0)]"
    using example_names
    by (simp add: segments_on_disk_def example_page_host_def example_host_def dir_entries_def is_file_node_def
        List.map_filter_def segment_order_def)
  have "segment_entries example_page_crates [''s'', JOURNAL_DIR] example_page_host ACTIVE = [example_entry2, example_entry]"
    using example_names
    by (simp add: segment_entries_def example_page_host_def example_host_def node_at_def example_page_tail
        example_page_parsed example_newest)
  moreover have "mtime example_page_host = (\<lambda>_. None)" by (simp add: example_page_host_def example_host_def)
  ultimately show "journal_wf example_page_crates [''s'', JOURNAL_DIR] example_page_host"
    "journal_entries example_page_crates [''s'', JOURNAL_DIR] example_query example_page_host = [example_entry2, example_entry]"
    by (simp_all add: journal_wf_def journal_entries_def o example_matches)
qed

theorem journal_list_pages_witness:
  "\<exists>lo h'. journal_list example_page_crates (\<lambda>_ _. 384) example_wait [''s''] example_query example_page_host = (Ok lo, h')
     \<and> lo_entries lo = [example_entry2] \<and> lo_next_cursor lo \<noteq> None"
proof -
  obtain lo h' where l: "journal_list example_page_crates (\<lambda>_ _. 384) example_wait [''s''] example_query example_page_host = (Ok lo, h')"
    using example_page_list by blast
  have "node_at example_page_host [''s'', JOURNAL_DIR] = Some Dir"
    by (simp add: example_page_host_def example_host_def node_at_def)
  from journal_list_pages[OF _ this example_page_entries(1) l] l show ?thesis
    by (auto simp: example_page_entries example_matches)
qed

end
