(* ===== verification/JournalCommands.thy ===== *)
theory JournalCommands
  imports JournalPage Recovery
begin

text \<open>
  The change journal commands (\<open>src/src/commands/journal.rs\<close>) and the entries the engine writes for its
  own operations (\<open>src/src/journal/auto.rs\<close>).
\<close>

section \<open>The commands\<close>

definition APPEND_OPERATION :: string where "APPEND_OPERATION = ''site.changeLog.append''"
definition LIST_OPERATION :: string where "LIST_OPERATION = ''site.changeLog.list''"

definition AppendOutcome_json :: "AppendOutcome \<Rightarrow> json" where
  "AppendOutcome_json a = JObj [(''entry'', Entry_json (ao_entry a)), (''replayed'', JBool (ao_replayed a))]"

definition ListOutcome_json :: "ListOutcome \<Rightarrow> json" where
  "ListOutcome_json l = JObj
     ((''entries'', JArr (map Entry_json (lo_entries l))) # skip_none ''nextCursor'' json_u64 (lo_next_cursor l)
      @ [(''skipped'', JNum (int (lo_skipped l)))])"

definition journal_state_root :: "crates \<Rightarrow> attributes \<Rightarrow> string \<Rightarrow> host \<Rightarrow> (Response + ManagedRoot) \<times> host" where
  "journal_state_root L attrs operation h =
     try_io (EngineConfig_load_root_owned (cr_json L) attrs CONFIG_PATH h)
       (\<lambda>_. Response_failure operation Internal ''engine configuration is unavailable'') (\<lambda>config h.
     try_io (ManagedRoot_open (state_root config) h)
       (\<lambda>_. Response_failure operation Internal ''engine state root is unavailable'') (\<lambda>state h. (Ok state, h)))"

fun journal_failure :: "string \<Rightarrow> JournalError \<Rightarrow> Response" where
  "journal_failure operation J_Busy = Response_failure operation Conflict ''the change journal is busy; retry''"
| "journal_failure operation J_Io = Response_failure operation Internal ''the change journal is unavailable''"

definition append_command ::
  "crates \<Rightarrow> attributes \<Rightarrow> modes \<Rightarrow> lock_wait \<Rightarrow> RawEntry \<Rightarrow> string \<Rightarrow> string option \<Rightarrow> host
    \<Rightarrow> (ResponseBuildError + Response) \<times> host" where
  "append_command L attrs modes W raw request_id key h =
     (let invalid = (\<lambda>message. (Ok (Response_failure APPEND_OPERATION InvalidInput message), h)) in
      case RequestId_parse (cr_uuid L) request_id of
        Inl _ \<Rightarrow> invalid ''request-id is not a canonical UUID''
      | Inr request_id \<Rightarrow>
        (case transpose_with IdempotencyKey_parse key of
           Inl _ \<Rightarrow> invalid ''idempotency-key is invalid''
         | Inr key \<Rightarrow>
           (case NewEntry_parse raw of
              Inl rejected \<Rightarrow> invalid rejected
            | Inr entry \<Rightarrow>
              (case journal_state_root L attrs APPEND_OPERATION h of
                 (Inl response, h) \<Rightarrow> (Ok response, h)
               | (Inr state, h) \<Rightarrow>
                 (case journal_append L modes W state entry request_id key Api (unix_now_secs h) h of
                    (Inr outcome, h) \<Rightarrow> (Response_success APPEND_OPERATION (Some (AppendOutcome_json outcome)), h)
                  | (Inl error, h) \<Rightarrow> (Ok (journal_failure APPEND_OPERATION error), h))))))"

definition list_filters ::
  "string option \<Rightarrow> string option \<Rightarrow> string option \<Rightarrow> Query \<Rightarrow> Rejected + Query" where
  "list_filters result src environment query =
     bind_ok (transpose_with (\<lambda>v. ok_or (JournalResult_parse v) ''result is invalid'') result) (\<lambda>r.
     bind_ok (transpose_with (\<lambda>v. ok_or (Source_parse v) ''source is invalid'') src) (\<lambda>s.
     bind_ok (transpose_with (\<lambda>v. ok_or (Environment_parse v) ''environment is invalid'') environment) (\<lambda>e.
       let query = query\<lparr> q_result := (if r = None then q_result query else r),
             q_source := (if s = None then q_source query else s),
             q_environment := (if e = None then q_environment query else e) \<rparr> in
       bind_ok (Query_validate query) (\<lambda>_. Ok query))))"

definition list_command ::
  "crates \<Rightarrow> attributes \<Rightarrow> modes \<Rightarrow> lock_wait \<Rightarrow> string option \<Rightarrow> string option \<Rightarrow> string option \<Rightarrow> Query \<Rightarrow> host
    \<Rightarrow> (ResponseBuildError + Response) \<times> host" where
  "list_command L attrs modes W result src environment query h =
     (case list_filters result src environment query of
        Inl rejected \<Rightarrow> (Ok (Response_failure LIST_OPERATION InvalidInput rejected), h)
      | Inr query \<Rightarrow>
        (case journal_state_root L attrs LIST_OPERATION h of
           (Inl response, h) \<Rightarrow> (Ok response, h)
         | (Inr state, h) \<Rightarrow>
           (case journal_list L modes W state query h of
              (Inr outcome, h) \<Rightarrow> (Response_success LIST_OPERATION (Some (ListOutcome_json outcome)), h)
            | (Inl error, h) \<Rightarrow> (Ok (journal_failure LIST_OPERATION error), h))))"

section \<open>The engine's own entries\<close>

text \<open>The commands that are journalled, with the arguments the plan reads; every other is \<open>Other\<close>.\<close>

datatype wired =
    SiteDeploy string string "string option"
  | SiteRollback string string "string option"
  | SiteRenameManifest string string "string option"
  | SiteUnenroll string string "string option"
  | EngineInstall string "string option"
  | EngineRollback string "string option"
  | Other

record Plan =
  pl_action :: string
  pl_site :: "string option"
  pl_request_id :: RequestId
  pl_idempotency_key :: "IdempotencyKey option"

fun wired_parts :: "wired \<Rightarrow> (string \<times> string option \<times> string \<times> string option) option" where
  "wired_parts (SiteDeploy site i key) = Some (''site.deploy'', Some site, i, key)"
| "wired_parts (SiteRollback site i key) = Some (''site.rollback'', Some site, i, key)"
| "wired_parts (SiteRenameManifest site i key) = Some (''site.renameManifest'', Some site, i, key)"
| "wired_parts (SiteUnenroll site i key) = Some (''site.unenroll'', Some site, i, key)"
| "wired_parts (EngineInstall i key) = Some (''engine.install'', None, i, key)"
| "wired_parts (EngineRollback i key) = Some (''engine.rollback'', None, i, key)"
| "wired_parts Other = None"

definition ok_option :: "'e + 'a \<Rightarrow> 'a option" where
  "ok_option r = (case r of Inl _ \<Rightarrow> None | Inr x \<Rightarrow> Some x)"

definition auto_plan :: "crates \<Rightarrow> wired \<Rightarrow> Plan option" where
  "auto_plan L command =
     Option.bind (wired_parts command) (\<lambda>(action, site, request_id, key).
     Option.bind (ok_option (transpose_with (SiteId_parse (cr_uuid L)) site)) (\<lambda>site.
     Option.bind (ok_option (RequestId_parse (cr_uuid L) request_id)) (\<lambda>request_id.
     Option.bind (ok_option (transpose_with IdempotencyKey_parse key)) (\<lambda>key.
       Some \<lparr> pl_action = action, pl_site = site, pl_request_id = request_id, pl_idempotency_key = key \<rparr>))))"

definition auto_entry :: "Plan \<Rightarrow> Response \<Rightarrow> NewEntry option" where
  "auto_entry plan response =
     (let code = map_option pe_code (rsp_error response) in
      if \<not> rsp_ok response \<and> code = Some InvalidInput then None
      else ok_option (NewEntry_parse
        \<lparr> re_actor = ''engine'', re_action = pl_action plan, re_result = (if rsp_ok response then ''ok'' else ''failed''),
          re_site = pl_site plan, re_subsite = None, re_environment = None,
          re_operation_id = Some (pl_request_id plan), re_target = None,
          re_error_code = (if rsp_ok response then None else Option.bind code (\<lambda>c. as_str (ErrorCode_json c))),
          re_summary = None \<rparr>))"

definition auto_write ::
  "crates \<Rightarrow> modes \<Rightarrow> lock_wait \<Rightarrow> ManagedRoot \<Rightarrow> Plan \<Rightarrow> Response \<Rightarrow> u64 \<Rightarrow> host \<Rightarrow> (JournalError + unit) \<times> host" where
  "auto_write L modes W state plan response now h =
     (case auto_entry plan response of
        None \<Rightarrow> (Ok (), h)
      | Some entry \<Rightarrow>
          apfst (map_ok (\<lambda>_. ()))
            (journal_append L modes W state entry (pl_request_id plan) (pl_idempotency_key plan) Engine now h))"

definition auto_record :: "crates \<Rightarrow> attributes \<Rightarrow> modes \<Rightarrow> lock_wait \<Rightarrow> Plan \<Rightarrow> Response \<Rightarrow> host \<Rightarrow> host" where
  "auto_record L attrs modes W plan response h =
     (case EngineConfig_load_root_owned (cr_json L) attrs CONFIG_PATH h of
        (Inl _, h) \<Rightarrow> h
      | (Inr config, h) \<Rightarrow>
          (case ManagedRoot_open (state_root config) h of
             (Inl _, h) \<Rightarrow> h
           | (Inr state, h) \<Rightarrow> snd (auto_write L modes W state plan response (unix_now_secs h) h)))"

section \<open>Which operations are journalled\<close>

lemma opaque_run_le: "opaque_run longest current s \<le> max longest (current + length s)"
proof (induction s arbitrary: longest current)
  case (Cons c s)
  show ?case using Cons[of "max longest (Suc current)" "Suc current"] Cons[of longest 0] by auto
qed simp

lemma uuid_token: "uuid_wf u \<Longrightarrow> token u 64 extra e = Ok u"
proof -
  assume u: "uuid_wf u"
  have "longest_opaque_run u \<le> 36"
    using opaque_run_le[of 0 0 u] uuid_wf_length[OF u] by (simp add: longest_opaque_run_def)
  moreover have "list_all (token_char extra) u"
    using uuid_wf_chars[OF u] by (auto simp: list_all_iff token_char_def ascii_defs lower_hex_def)
  ultimately show ?thesis using uuid_wf_length[OF u] by (auto simp: token_def)
qed

lemma error_names_accepted: "list_all (\<lambda>c. journal_error_code (ErrorCode_as_str c) = Ok (ErrorCode_as_str c)) all_error_codes"
  by (simp add: all_error_codes_def journal_error_code_def MAX_ERROR_CODE_LEN_def ascii_defs)

lemma error_name_accepted: "journal_error_code (ErrorCode_as_str c) = Ok (ErrorCode_as_str c)"
  using error_names_accepted all_error_codes_all[of c] by (simp add: list_all_iff)

lemma wired_action: "wired_parts command = Some (action, rest) \<Longrightarrow> action_name action = Ok action"
proof -
  have "list_all (\<lambda>a. action_name a = Ok a) [''site.deploy'', ''site.rollback'', ''site.renameManifest'',
      ''site.unenroll'', ''engine.install'', ''engine.rollback'']"
    by code_simp
  then show "wired_parts command = Some (action, rest) \<Longrightarrow> action_name action = Ok action"
    by (cases command) auto
qed

lemma ok_option_Some: "ok_option r = Some x \<longleftrightarrow> r = Ok x"
  by (cases r) (simp_all add: ok_option_def)

lemma auto_planD:
  assumes "auto_plan L command = Some plan" and "crates_ok L"
  shows "action_name (pl_action plan) = Ok (pl_action plan)" and "uuid_wf (pl_request_id plan)"
    and "\<And>site. pl_site plan = Some site \<Longrightarrow> uuid_wf site"
proof -
  from assms(1) obtain action site i key u r k where p: "wired_parts command = Some (action, site, i, key)"
    and s: "transpose_with (SiteId_parse (cr_uuid L)) site = Ok u" and r: "RequestId_parse (cr_uuid L) i = Ok r"
    and plan: "plan = \<lparr> pl_action = action, pl_site = u, pl_request_id = r, pl_idempotency_key = k \<rparr>"
    by (auto simp: auto_plan_def ok_option_Some bind_eq_Some_conv)
  have ok: "uuid_parse_ok (cr_uuid L)" using assms(2) by (simp add: crates_ok_def)
  show "action_name (pl_action plan) = Ok (pl_action plan)" using wired_action p plan by simp
  show "uuid_wf (pl_request_id plan)"
    using r plan ok by (auto simp: RequestId_parse_def uuid_parse_ok_def split: option.splits if_splits)
  show "uuid_wf x" if "pl_site plan = Some x" for x
    using s plan that ok transpose_with_Ok[OF s]
    by (auto simp: SiteId_parse_def uuid_parse_ok_def split: option.splits if_splits)
qed

lemma engine_token: "token ''engine'' MAX_ACTOR_LEN ''@:+'' e = Ok ''engine''"
  unfolding MAX_ACTOR_LEN_def by (rule token_accepts; code_simp)

lemma auto_entry_parses:
  assumes "auto_plan L command = Some plan" and "crates_ok L"
    and "\<not> (\<not> rsp_ok response \<and> map_option pe_code (rsp_error response) = Some InvalidInput)"
  shows "auto_entry plan response = Some \<lparr> ne_actor = ''engine'', ne_action = pl_action plan,
     ne_result = (if rsp_ok response then Jr_Ok else Jr_Failed), ne_site = pl_site plan, ne_subsite = None,
     ne_environment = None, ne_operation_id = Some (pl_request_id plan), ne_target = None,
     ne_error_code = (if rsp_ok response then None else map_option (\<lambda>e. ErrorCode_as_str (pe_code e)) (rsp_error response)),
     ne_summary = None \<rparr>"
proof -
  note plan = auto_planD[OF assms(1,2)]
  have site: "transpose_with (\<lambda>v. token v MAX_SITE_LEN [] ''site is invalid'') (pl_site plan) = Ok (pl_site plan)"
    using plan(3) uuid_token by (cases "pl_site plan") (simp_all add: transpose_with_def MAX_SITE_LEN_def)
  have oper: "token (pl_request_id plan) MAX_OPERATION_ID_LEN '':'' ''operation-id is invalid'' = Ok (pl_request_id plan)"
    unfolding MAX_OPERATION_ID_LEN_def by (rule uuid_token[OF plan(2)])
  have result: "JournalResult_parse ''ok'' = Some Jr_Ok" "JournalResult_parse ''failed'' = Some Jr_Failed"
    by (simp_all add: JournalResult_parse_def)
  have code: "as_str (ErrorCode_json c) = Some (ErrorCode_as_str c)" for c
    using screaming_snake_all all_error_codes_all[of c] by (simp add: ErrorCode_json_def list_all_iff)
  show ?thesis
    using assms(3) plan(1) site oper
    by (cases "rsp_error response")
       (auto simp: auto_entry_def Let_def NewEntry_parse_def engine_token result code error_name_accepted
         transpose_with_def ok_or_def map_ok_def ok_option_def)
qed



lemma auto_write_append:
  assumes "auto_entry plan response = Some entry" and "auto_write L modes W state plan response now h = (r, h')"
  obtains r' where "append_with L modes W state entry (pl_request_id plan) (pl_idempotency_key plan) Engine now Limits_DEFAULT h = (r', h')"
    "r = map_ok (\<lambda>_. ()) r'"
  using assms by (cases "journal_append L modes W state entry (pl_request_id plan) (pl_idempotency_key plan) Engine now h")
    (auto simp: auto_write_def journal_append_def)

text \<open>
  (C22) The first outcome of a request stays. When the entry of a failed operation is written, the entry
  of a later successful operation with the same idempotency key is not: the journal keeps saying that
  the operation failed, although a retry carrying the same key is how a client asks for it again.
\<close>

theorem journal_keeps_first_outcome:
  assumes "crates_ok L" and "json_lines_ok (cr_json L)" and "dir = state @ [JOURNAL_DIR]"
    and "short_lines (active_bytes dir h)"
    and "auto_plan L command1 = Some plan1" and "auto_plan L command2 = Some plan2"
    and "pl_idempotency_key plan1 = Some k" and "pl_idempotency_key plan2 = Some k"
    and "\<not> rsp_ok failed" and "map_option pe_code (rsp_error failed) \<noteq> Some InvalidInput" and "rsp_ok succeeded"
    and "list_all (\<lambda>e. \<not> same_request (pl_request_id plan1) (Some k) e)
      (fst (parse_lines L (tail_of TAIL_BYTES (active_bytes dir h))))"
    and "auto_write L modes W state plan1 failed now h = (Ok (), h1)"
    and "auto_write L modes' W' state plan2 succeeded now' h1 = (r, h2)"
  shows "active_bytes dir h2 = active_bytes dir h1
    \<and> (\<exists>es e. fst (parse_lines L (active_bytes dir h2)) = es @ [e] \<and> en_result e = Jr_Failed
         \<and> en_id e = pl_request_id plan1 \<and> en_idempotency_key e = Some k)"
proof -
  note plan1 = auto_planD[OF assms(5,1)]
  from auto_entry_parses[OF assms(5,1), of failed] assms(9,10)
  obtain e1 where e1: "auto_entry plan1 failed = Some e1" "ne_result e1 = Jr_Failed" by auto
  from auto_entry_parses[OF assms(6,1), of succeeded] assms(11)
  obtain e2 where e2: "auto_entry plan2 succeeded = Some e2" by auto
  obtain r1 where a1: "append_with L modes W state e1 (pl_request_id plan1) (Some k) Engine now Limits_DEFAULT h = (r1, h1)"
    and "Ok () = map_ok (\<lambda>_. ()) r1" using auto_write_append[OF e1(1) assms(13)] assms(7) by metis
  then obtain out where out: "r1 = Ok out" by (cases r1) (auto simp: map_ok_def)
  note a1 = a1[unfolded out]
  have fresh: "\<not> ao_replayed out" by (rule append_not_replayed[OF a1 assms(3,12)])
  from append_reads_back[OF assms(1,2) plan1(2) assms(3,4) a1 fresh]
  obtain s where s: "ao_entry out = stored_entry e1 s (pl_request_id plan1) (Some k) Engine now"
    and "\<exists>es. fst (parse_lines L (active_bytes dir h1)) = es @ [ao_entry out]" by auto
  moreover obtain r2 where a2: "append_with L modes' W' state e2 (pl_request_id plan2) (Some k) Engine now' Limits_DEFAULT h1 = (r2, h2)"
    using auto_write_append[OF e2 assms(14)] assms(8) by metis
  moreover have "active_bytes dir h2 = active_bytes dir h1"
    using append_again_replays[OF assms(1,2) plan1(2) assms(3,4) a1 fresh refl _ a2] by simp
  ultimately show ?thesis using e1(2) by (auto simp: stored_entry_def)
qed

definition example_journal_plan :: Plan where
  "example_journal_plan = \<lparr> pl_action = ''site.deploy'', pl_site = Some example_id, pl_request_id = example_id,
     pl_idempotency_key = Some ''k'' \<rparr>"

definition example_busy :: Response where
  "example_busy = Response_failure ''site.deploy'' Conflict ''busy''"

definition example_busy_crates :: crates where
  "example_busy_crates = \<lparr> cr_json = line_text [Entry_json (stored_entry (the (auto_entry example_journal_plan example_busy)) 0
     example_id (Some ''k'') Engine 0)], cr_uuid = canonical_uuid \<rparr>"

lemma example_planned: "auto_plan example_busy_crates (SiteDeploy example_id example_id (Some ''k'')) = Some example_journal_plan"
proof -
  have "RequestId_parse canonical_uuid example_id = Ok example_id" "SiteId_parse canonical_uuid example_id = Ok example_id"
    "IdempotencyKey_parse ''k'' = Ok ''k''" by code_simp+
  then show ?thesis
    by (simp add: auto_plan_def ok_option_def transpose_with_def example_busy_crates_def map_ok_def example_journal_plan_def)
qed

theorem journal_keeps_first_outcome_witness:
  "\<exists>h1 h2. auto_write example_busy_crates (\<lambda>_ _. 384) example_wait [''s''] example_journal_plan example_busy 0 example_journal_host = (Ok (), h1)
     \<and> snd (auto_write example_busy_crates (\<lambda>_ _. 384) example_wait [''s''] example_journal_plan
         (example_busy\<lparr> rsp_ok := True \<rparr>) 1 h1) = h2
     \<and> active_bytes ([''s''] @ [JOURNAL_DIR]) h2 = active_bytes ([''s''] @ [JOURNAL_DIR]) h1"
proof -
  have ok: "crates_ok example_busy_crates" "json_lines_ok (cr_json example_busy_crates)"
    by (simp_all add: example_busy_crates_def crates_ok_def)
  have busy: "\<not> rsp_ok example_busy" "map_option pe_code (rsp_error example_busy) \<noteq> Some InvalidInput"
    by (simp_all add: example_busy_def Response_failure_def)
  have key: "pl_idempotency_key example_journal_plan = Some ''k''" "pl_request_id example_journal_plan = example_id"
    by (simp_all add: example_journal_plan_def)
  obtain e where e: "auto_entry example_journal_plan example_busy = Some e"
    using auto_entry_parses[OF example_planned ok(1), of example_busy] busy by auto
  obtain h1 where "auto_write example_busy_crates (\<lambda>_ _. 384) example_wait [''s''] example_journal_plan example_busy 0
      example_journal_host = (Ok (), h1)"
    using append_after_torn_line[of e example_id "Some ''k''" Engine 0 canonical_uuid]
    by (auto simp: auto_write_def e journal_append_def example_busy_crates_def key map_ok_def)
  note first = this
  obtain r h2 where second: "auto_write example_busy_crates (\<lambda>_ _. 384) example_wait [''s''] example_journal_plan
      (example_busy\<lparr> rsp_ok := True \<rparr>) 1 h1 = (r, h2)" by fastforce
  have none: "list_all (\<lambda>e. \<not> same_request (pl_request_id example_journal_plan) (Some ''k'') e)
      (fst (parse_lines example_busy_crates (tail_of TAIL_BYTES (active_bytes ([''s''] @ [JOURNAL_DIR]) example_journal_host))))"
    unfolding example_active example_tail by (simp add: example_busy_crates_def torn_line_text)
  from journal_keeps_first_outcome[OF ok refl example_short example_planned example_planned key(1) key(1) busy _ none first second]
    first second show ?thesis by auto
qed

end
