(* ===== verification/TarExtract.thy ===== *)
theory TarExtract
  imports Journal RustText
begin

text \<open>
  The bounded reader of tar archives (\<open>src/src/tar_extract.rs\<close>) and the lexical check of symbolic links it
  shares with the exporter (\<open>src/src/wordpress_migrate_export.rs\<close>).

  The decompressed archive is a reader: the bytes it still delivers, and whether a read after them fails
  instead of reporting the end. How the bytes are cut into reads does not matter, since every caller
  reads until it has what it wants. Numbers are natural numbers with the checks of their width written
  out. A time is set in the table of modification times, permission bits are not recorded.
  As everywhere on the host, no component before the last is a link: a link of the archive whose parent
  is another link of the archive fails here, where the code would create it below that link's target.
\<close>

section \<open>The reader\<close>

record reader =
  rd_bytes :: bytes
  rd_broken :: bool

datatype ExtractError =
    Ex_Io | Ex_Corrupt string | Ex_Unsafe string | TooManyEntries | TooLarge

definition BLOCK :: nat where "BLOCK = 512"
definition MAX_META_BYTES :: nat where "MAX_META_BYTES = 64 * 1024"

definition advance_by :: "nat \<Rightarrow> reader \<Rightarrow> reader" where
  "advance_by n r = r\<lparr>rd_bytes := drop n (rd_bytes r)\<rparr>"

definition short_read :: "string \<Rightarrow> reader \<Rightarrow> ExtractError" where
  "short_read what r = (if rd_broken r then Ex_Io else Ex_Corrupt what)"

text \<open>\<open>None\<close> at a clean end of the input.\<close>

definition read_block :: "reader \<Rightarrow> ExtractError + (bytes \<times> reader) option" where
  "read_block r =
     (if BLOCK \<le> length (rd_bytes r) then Ok (Some (take BLOCK (rd_bytes r), advance_by BLOCK r))
      else if rd_bytes r = [] \<and> \<not> rd_broken r then Ok None
      else Err (short_read ''truncated header'' r))"

text \<open>\<open>copy_exact\<close> into memory or into the void, and into the file that was just created at \<open>p\<close>.\<close>

definition copy_bytes :: "nat \<Rightarrow> reader \<Rightarrow> ExtractError + bytes \<times> reader" where
  "copy_bytes sz r =
     (if sz \<le> length (rd_bytes r) then Ok (take sz (rd_bytes r), advance_by sz r)
      else Err (short_read ''truncated entry data'' r))"

definition copy_file :: "path \<Rightarrow> nat \<Rightarrow> reader \<Rightarrow> host \<Rightarrow> (ExtractError + reader) \<times> host" where
  "copy_file p sz r h =
     try_io (if take sz (rd_bytes r) = [] then (Ok (), h) else write_all p [] (take sz (rd_bytes r)) h)
       (\<lambda>_. Ex_Io) (\<lambda>_ h. (map_ok snd (copy_bytes sz r), h))"

definition skip_padding :: "nat \<Rightarrow> reader \<Rightarrow> ExtractError + reader" where
  "skip_padding sz r = map_ok snd (copy_bytes ((BLOCK - sz mod BLOCK) mod BLOCK) r)"

definition read_data :: "nat \<Rightarrow> reader \<Rightarrow> ExtractError + bytes \<times> reader" where
  "read_data sz r =
     bind_ok (copy_bytes sz r) (\<lambda>(data, r). bind_ok (skip_padding sz r) (\<lambda>r. Ok (data, r)))"

definition skip_data :: "nat \<Rightarrow> reader \<Rightarrow> ExtractError + reader" where
  "skip_data sz r = bind_ok (copy_bytes sz r) (\<lambda>(_, r). skip_padding sz r)"

section \<open>Header fields\<close>

definition slice :: "nat \<Rightarrow> nat \<Rightarrow> bytes \<Rightarrow> bytes" where
  "slice a b xs = take (b - a) (drop a xs)"

definition tar_field :: "bytes \<Rightarrow> bytes" where
  "tar_field b = takeWhile (\<lambda>c. c \<noteq> nul) b"

definition trim_nul :: "bytes \<Rightarrow> bytes" where
  "trim_nul b = rev (dropWhile (\<lambda>c. c = nul) (rev b))"

definition header_name :: "bytes \<Rightarrow> bytes" where
  "header_name header =
     (let name = tar_field (slice 0 100 header); prefix = tar_field (slice 345 500 header) in
      if slice 257 262 header = ''ustar'' \<and> prefix \<noteq> [] then prefix @ slash # name else name)"

text \<open>\<open>checked_mul\<close> and \<open>checked_add\<close> on \<open>u64\<close>, digit by digit.\<close>

fun digits_checked :: "nat \<Rightarrow> nat \<Rightarrow> nat list \<Rightarrow> nat option" where
  "digits_checked base value [] = Some value"
| "digits_checked base value (d # ds) =
     (if base * value + d \<le> U64_MAX then digits_checked base (base * value + d) ds else None)"

definition overflow_checked :: "nat option \<Rightarrow> ExtractError + nat" where
  "overflow_checked v = (case v of None \<Rightarrow> Err (Ex_Corrupt ''numeric field overflows'') | Some n \<Rightarrow> Ok n)"

fun octal_digits :: "nat \<Rightarrow> bytes \<Rightarrow> ExtractError + nat" where
  "octal_digits value [] = Ok value"
| "octal_digits value (c # cs) =
     (if \<not> (48 \<le> byte_of c \<and> byte_of c \<le> 55) then Err (Ex_Corrupt ''bad octal field'')
      else bind_ok (overflow_checked (digits_checked 8 value [byte_of c - 48])) (\<lambda>value. octal_digits value cs))"

definition parse_numeric :: "bytes \<Rightarrow> ExtractError + nat" where
  "parse_numeric b =
     (if 128 \<le> byte_of (hd b)
      then if 64 \<le> byte_of (hd b) mod 128 then Err (Ex_Corrupt ''negative numeric field'')
           else overflow_checked (digits_checked 256 (byte_of (hd b) mod 64) (map byte_of (tl b)))
      else octal_digits 0 (takeWhile (\<lambda>c. c \<noteq> nul \<and> c \<noteq> CHR '' '') (dropWhile (\<lambda>c. c = CHR '' '') b)))"

definition header_sum :: "bytes \<Rightarrow> nat" where
  "header_sum header =
     sum_list (map byte_of (slice 0 148 header)) + 8 * 32 + sum_list (map byte_of (slice 156 BLOCK header))"

definition verify_checksum :: "bytes \<Rightarrow> ExtractError + unit" where
  "verify_checksum header =
     bind_ok (parse_numeric (slice 148 156 header)) (\<lambda>stored.
       if stored = header_sum header then Ok () else Err (Ex_Corrupt ''header checksum mismatch''))"

section \<open>Extended headers\<close>

type_synonym Mtime = "int \<times> nat"

definition strip_plus :: "string \<Rightarrow> string" where
  "strip_plus s = (case s of [] \<Rightarrow> [] | c # r \<Rightarrow> if c = CHR ''+'' then r else s)"

text \<open>\<open>str::parse\<close> at \<open>u64\<close> and \<open>usize\<close>, and at \<open>i64\<close>.\<close>

definition parse_unsigned :: "nat \<Rightarrow> string \<Rightarrow> nat option" where
  "parse_unsigned limit s =
     (let ds = strip_plus s in
      if ds = [] \<or> \<not> list_all is_ascii_digit ds \<or> limit < digits_value ds then None else Some (digits_value ds))"

definition parse_i64 :: "string \<Rightarrow> int option" where
  "parse_i64 s =
     (case s of
        [] \<Rightarrow> None
      | c # r \<Rightarrow>
          if c = CHR ''-''
          then if r = [] \<or> \<not> list_all is_ascii_digit r \<or> 2 ^ 63 < digits_value r then None
               else Some (- int (digits_value r))
          else map_option int (parse_unsigned (2 ^ 63 - 1) s))"

definition parse_pax_time :: "bytes \<Rightarrow> Mtime option" where
  "parse_pax_time value =
     (if \<not> utf8_ok value then None
      else let (secs, fraction) = (case split_once CHR ''.'' value of Some p \<Rightarrow> p | None \<Rightarrow> (value, [])) in
        case parse_i64 secs of
          None \<Rightarrow> None
        | Some secs \<Rightarrow>
            if secs < 0 \<or> \<not> list_all is_ascii_digit fraction then None
            else Some (secs, digits_value (take 9 (fraction @ replicate 9 CHR ''0''))))"

record PaxRecords =
  px_path :: "bytes option"
  px_linkpath :: "bytes option"
  px_size :: "nat option"
  px_mtime :: "Mtime option"

definition PaxRecords_default :: PaxRecords where
  "PaxRecords_default = \<lparr> px_path = None, px_linkpath = None, px_size = None, px_mtime = None \<rparr>"

definition pax_text :: "bytes \<Rightarrow> nat option" where
  "pax_text b = (if utf8_ok b then parse_unsigned U64_MAX b else None)"

text \<open>The record that starts the data: its length, and the line without its line break.\<close>

definition pax_record :: "bytes \<Rightarrow> ExtractError + nat \<times> bytes" where
  "pax_record data =
     (if CHR '' '' \<notin> set data then Err (Ex_Corrupt ''bad PAX record'')
      else let space = length (takeWhile (\<lambda>c. c \<noteq> CHR '' '') data) in
        case pax_text (take space data) of
          None \<Rightarrow> Err (Ex_Corrupt ''bad PAX record length'')
        | Some len \<Rightarrow>
            if \<not> (space + 1 < len \<and> len \<le> length data) then Err (Ex_Corrupt ''bad PAX record length'')
            else let line = slice (space + 1) len data in
              Ok (len, case strip_suffix line [line_feed] of Some l \<Rightarrow> l | None \<Rightarrow> line))"

definition pax_apply :: "bytes \<Rightarrow> bytes \<Rightarrow> PaxRecords \<Rightarrow> ExtractError + PaxRecords" where
  "pax_apply key value records =
     (if key = ''path'' then Ok (records\<lparr>px_path := Some value\<rparr>)
      else if key = ''linkpath'' then Ok (records\<lparr>px_linkpath := Some value\<rparr>)
      else if key = ''size'' then
        (case pax_text value of
           None \<Rightarrow> Err (Ex_Corrupt ''bad PAX size'')
         | Some n \<Rightarrow> Ok (records\<lparr>px_size := Some n\<rparr>))
      else if key = ''mtime'' then Ok (records\<lparr>px_mtime := parse_pax_time value\<rparr>)
      else Ok records)"

lemma pax_record_length: "pax_record data = Ok (len, line) \<Longrightarrow> 0 < len \<and> len \<le> length data"
  by (auto simp: pax_record_def Let_def split: if_splits option.splits)

function parse_pax_from :: "PaxRecords \<Rightarrow> bytes \<Rightarrow> ExtractError + PaxRecords" where
  "parse_pax_from records data =
     (if data = [] then Ok records
      else case pax_record data of
        Inl e \<Rightarrow> Err e
      | Inr (len, line) \<Rightarrow>
          (case split_once CHR ''='' line of
             None \<Rightarrow> Err (Ex_Corrupt ''bad PAX record'')
           | Some (key, value) \<Rightarrow>
               (case pax_apply key value records of
                  Inl e \<Rightarrow> Err e
                | Inr records \<Rightarrow> parse_pax_from records (drop len data))))"
  by pat_completeness auto
termination by (relation "measure (\<lambda>(records, data). length data)") (auto dest: pax_record_length)

declare parse_pax_from.simps [simp del]

definition parse_pax :: "bytes \<Rightarrow> ExtractError + PaxRecords" where
  "parse_pax data = parse_pax_from PaxRecords_default data"

section \<open>Names and links\<close>

text \<open>\<open>Some None\<close> is the root of the archive itself.\<close>

definition entry_path :: "bytes \<Rightarrow> path option option" where
  "entry_path raw =
     (if raw = [] \<or> is_absolute raw \<or> nul \<in> set raw then None
      else if list_ex (\<lambda>c. c = ParentDir \<or> c = RootDir) (path_components raw) then None
      else let clean = List.map_filter (\<lambda>c. case c of Normal p \<Rightarrow> Some p | _ \<Rightarrow> None) (path_components raw) in
        if clean = [] then Some None
        else case SiteRelativePath_parse (join_with slash clean) of
               Inl _ \<Rightarrow> None | Inr p \<Rightarrow> Some (Some p))"

definition parent_of :: "path \<Rightarrow> path option" where
  "parent_of p = (if butlast p = [] then None else Some (butlast p))"

fun stays_inside :: "string list \<Rightarrow> component list \<Rightarrow> bool" where
  "stays_inside depth [] = True"
| "stays_inside depth (Normal name # cs) = stays_inside (depth @ [name]) cs"
| "stays_inside depth (CurDir # cs) = stays_inside depth cs"
| "stays_inside depth (ParentDir # cs) = (depth \<noteq> [] \<and> stays_inside (butlast depth) cs)"
| "stays_inside depth (RootDir # cs) = False"

definition symlink_stays_inside :: "path \<Rightarrow> bytes \<Rightarrow> bool" where
  "symlink_stays_inside link target = (\<not> is_absolute target \<and> stays_inside (butlast link) (path_components target))"

section \<open>Entries\<close>

record ExtractLimits =
  max_entries :: nat
  max_file_bytes :: nat

record Summary =
  su_entries :: nat
  su_file_bytes :: nat
  su_symlinks :: nat

record tar_state =
  x_summary :: Summary
  x_long_name :: "bytes option"
  x_long_link :: "bytes option"
  x_pax_size :: "nat option"
  x_pax_mtime :: "Mtime option"
  x_dir_times :: "(path \<times> Mtime) list"
  x_links :: "(path \<times> bytes \<times> Mtime option) list"

definition tar_start :: tar_state where
  "tar_start = \<lparr> x_summary = \<lparr> su_entries = 0, su_file_bytes = 0, su_symlinks = 0 \<rparr>, x_long_name = None,
     x_long_link = None, x_pax_size = None, x_pax_mtime = None, x_dir_times = [], x_links = [] \<rparr>"

text \<open>A failing \<open>set_modified_nofollow\<close> is ignored; a time before the epoch leaves no entry in the table.\<close>

definition set_modified_nofollow :: "path \<Rightarrow> Mtime \<Rightarrow> host \<Rightarrow> host" where
  "set_modified_nofollow p t h =
     (if fails h (tick h) \<or> node_at h p = None then next_tick h
      else (next_tick h)\<lparr>mtime := (mtime h)(p := if fst t < 0 then None else Some (nat (fst t) * 10 ^ 9 + snd t))\<rparr>)"

definition set_time :: "path \<Rightarrow> Mtime option \<Rightarrow> host \<Rightarrow> host" where
  "set_time p t h = (case t of None \<Rightarrow> h | Some t \<Rightarrow> set_modified_nofollow p t h)"

text \<open>\<open>s as i64\<close>.\<close>

definition as_i64 :: "nat \<Rightarrow> int" where
  "as_i64 n = (if n < 2 ^ 63 then int n else int n - 2 ^ 64)"

definition meta_entry :: "char \<Rightarrow> bytes \<Rightarrow> tar_state \<Rightarrow> ExtractError + tar_state" where
  "meta_entry flag data st =
     (if flag = CHR ''L'' then Ok (st\<lparr>x_long_name := Some (trim_nul data)\<rparr>)
      else if flag = CHR ''K'' then Ok (st\<lparr>x_long_link := Some (trim_nul data)\<rparr>)
      else if flag = CHR ''x'' then
        bind_ok (parse_pax data) (\<lambda>records. Ok (st\<lparr>
          x_long_name := (if px_path records = None then x_long_name st else px_path records),
          x_long_link := (if px_linkpath records = None then x_long_link st else px_linkpath records),
          x_pax_size := px_size records,
          x_pax_mtime := (if px_mtime records = None then x_pax_mtime st else px_mtime records)\<rparr>))
      else Ok st)"

definition make_parents :: "ManagedRoot \<Rightarrow> path \<Rightarrow> host \<Rightarrow> unit io" where
  "make_parents dest name h =
     (case parent_of name of None \<Rightarrow> (Ok (), h) | Some parent \<Rightarrow> create_dir_all dest parent h)"

text \<open>A regular file: what is done once it is created, and the whole entry.\<close>

definition fill_file ::
  "bytes \<Rightarrow> path \<Rightarrow> nat \<Rightarrow> Mtime option \<Rightarrow> reader \<Rightarrow> host \<Rightarrow> (ExtractError + reader) \<times> host" where
  "fill_file header p sz t r h =
     try_io (copy_file p sz r h) id (\<lambda>r h.
     try_io (skip_padding sz r, h) id (\<lambda>r h.
     try_io (parse_numeric (slice 100 108 header), h) id (\<lambda>_ h.
     try_io (set_mode p h) (\<lambda>_. Ex_Io) (\<lambda>_ h. (Ok r, set_time p t h)))))"

definition file_entry ::
  "ManagedRoot \<Rightarrow> bytes \<Rightarrow> path \<Rightarrow> nat \<Rightarrow> Mtime option \<Rightarrow> reader \<Rightarrow> host \<Rightarrow> (ExtractError + reader) \<times> host" where
  "file_entry dest header name sz t r h =
     try_io (make_parents dest name h) (\<lambda>_. Ex_Io) (\<lambda>_ h.
     try_io (open_new (dest @ name) h) (\<lambda>_. Ex_Io) (\<lambda>_ h.
       fill_file header (dest @ name) sz t r h))"

definition saturating_add :: "nat \<Rightarrow> nat \<Rightarrow> nat" where
  "saturating_add a b = min (a + b) U64_MAX"

text \<open>What an entry that is no extension header does, by its type; \<open>display\<close> is its name for an error.\<close>

definition plain_entry ::
  "ManagedRoot \<Rightarrow> ExtractLimits \<Rightarrow> bytes \<Rightarrow> string \<Rightarrow> path option \<Rightarrow> bytes \<Rightarrow> nat \<Rightarrow> Mtime option \<Rightarrow> tar_state \<Rightarrow> reader
    \<Rightarrow> host \<Rightarrow> (ExtractError + tar_state \<times> reader) \<times> host" where
  "plain_entry dest limits header display name raw_link sz t st r h =
     (let flag = header ! 156 in
      if flag \<in> {CHR ''0'', nul, CHR ''7''} then
        (case name of
           None \<Rightarrow> (Err (Ex_Unsafe display), h)
         | Some name \<Rightarrow>
             let total = saturating_add (su_file_bytes (x_summary st)) sz;
                 st = st\<lparr>x_summary := (x_summary st)\<lparr>su_file_bytes := total\<rparr>\<rparr> in
             if max_file_bytes limits < total then (Err TooLarge, h)
             else try_io (file_entry dest header name sz t r h) id (\<lambda>r h. (Ok (st, r), h)))
      else if flag = CHR ''5'' then
        (if sz \<noteq> 0 then (Err (Ex_Corrupt ''a directory entry carries data''), h)
         else case name of
           None \<Rightarrow> (Ok (st, r), h)
         | Some name \<Rightarrow>
             try_io (create_dir_all dest name h) (\<lambda>_. Ex_Io) (\<lambda>_ h.
               (Ok (st\<lparr>x_dir_times := x_dir_times st @ (case t of None \<Rightarrow> [] | Some t \<Rightarrow> [(name, t)])\<rparr>, r), h)))
      else if flag = CHR ''2'' then
        (case name of
           None \<Rightarrow> (Err (Ex_Unsafe display), h)
         | Some name \<Rightarrow>
             if raw_link = [] \<or> \<not> symlink_stays_inside name raw_link then (Err (Ex_Unsafe display), h)
             else case skip_data sz r of
               Inl e \<Rightarrow> (Err e, h)
             | Inr r \<Rightarrow>
                 (Ok (st\<lparr>x_summary := (x_summary st)\<lparr>su_symlinks := su_symlinks (x_summary st) + 1\<rparr>,
                         x_links := x_links st @ [(name, raw_link, t)]\<rparr>, r), h))
      else (Err (Ex_Unsafe display), h))"

definition header_entry ::
  "ManagedRoot \<Rightarrow> ExtractLimits \<Rightarrow> bytes \<Rightarrow> nat \<Rightarrow> tar_state \<Rightarrow> reader \<Rightarrow> host \<Rightarrow> (ExtractError + tar_state \<times> reader) \<times> host" where
  "header_entry dest limits header sz st r h =
     (let raw_name = (case x_long_name st of Some n \<Rightarrow> n | None \<Rightarrow> header_name header);
          raw_link = (case x_long_link st of Some l \<Rightarrow> l | None \<Rightarrow> tar_field (slice 157 257 header));
          display = from_utf8_lossy raw_name;
          t = (case x_pax_mtime st of
                 Some t \<Rightarrow> Some t
               | None \<Rightarrow> (case parse_numeric (slice 136 148 header) of Inl _ \<Rightarrow> None | Inr s \<Rightarrow> Some (as_i64 s, 0)));
          st = st\<lparr>x_long_name := None, x_long_link := None, x_pax_mtime := None,
                  x_summary := (x_summary st)\<lparr>su_entries := su_entries (x_summary st) + 1\<rparr>\<rparr> in
      if max_entries limits < su_entries (x_summary st) then (Err TooManyEntries, h)
      else case entry_path raw_name of
        None \<Rightarrow> (Err (Ex_Unsafe display), h)
      | Some name \<Rightarrow> plain_entry dest limits header display name raw_link sz t st r h)"

definition tar_entry ::
  "ManagedRoot \<Rightarrow> ExtractLimits \<Rightarrow> bytes \<Rightarrow> tar_state \<Rightarrow> reader \<Rightarrow> host \<Rightarrow> (ExtractError + tar_state \<times> reader) \<times> host" where
  "tar_entry dest limits header st r h =
     (case bind_ok (verify_checksum header) (\<lambda>_.
        case x_pax_size st of Some sz \<Rightarrow> Ok sz | None \<Rightarrow> parse_numeric (slice 124 136 header)) of
        Inl e \<Rightarrow> (Err e, h)
      | Inr sz \<Rightarrow>
          let st = st\<lparr>x_pax_size := None\<rparr> in
          if header ! 156 \<in> {CHR ''L'', CHR ''K'', CHR ''x'', CHR ''g''}
          then if MAX_META_BYTES < sz then (Err (Ex_Corrupt ''oversized extension header''), h)
               else (bind_ok (read_data sz r) (\<lambda>(data, r).
                     bind_ok (meta_entry (header ! 156) data st) (\<lambda>st. Ok (st, r))), h)
          else header_entry dest limits header sz st r h)"

section \<open>The archive\<close>

lemma advance_by_length [simp]: "length (rd_bytes (advance_by n r)) = length (rd_bytes r) - n"
  by (simp add: advance_by_def)

lemma copy_bytes_shrinks: "copy_bytes sz r = Ok (data, r') \<Longrightarrow> length (rd_bytes r') \<le> length (rd_bytes r)"
  by (auto simp: copy_bytes_def split: if_splits)

lemma skip_padding_shrinks: "skip_padding sz r = Ok r' \<Longrightarrow> length (rd_bytes r') \<le> length (rd_bytes r)"
  by (auto simp: skip_padding_def map_ok_def dest: copy_bytes_shrinks split: sum.splits)

lemma read_data_shrinks: "read_data sz r = Ok (data, r') \<Longrightarrow> length (rd_bytes r') \<le> length (rd_bytes r)"
  by (auto simp: read_data_def bind_ok_Ok_iff dest!: copy_bytes_shrinks skip_padding_shrinks split: prod.splits)

lemma skip_data_shrinks: "skip_data sz r = Ok r' \<Longrightarrow> length (rd_bytes r') \<le> length (rd_bytes r)"
  by (auto simp: skip_data_def bind_ok_Ok_iff dest!: copy_bytes_shrinks skip_padding_shrinks split: prod.splits)

lemma copy_file_shrinks: "copy_file p sz r h = (Ok r', h') \<Longrightarrow> length (rd_bytes r') \<le> length (rd_bytes r)"
  by (auto simp: copy_file_def try_io_Ok_iff map_ok_def dest!: copy_bytes_shrinks split: sum.splits if_splits)

lemma file_entry_shrinks:
  assumes "file_entry dest header name sz t r h = (Ok r', h')"
  shows "length (rd_bytes r') \<le> length (rd_bytes r)"
proof -
  obtain r1 h1 h2 where "copy_file (dest @ name) sz r h1 = (Ok r1, h2)" "skip_padding sz r1 = Ok r'"
    using assms by (auto simp: file_entry_def fill_file_def try_io_Ok_iff)
  then show ?thesis
    using copy_file_shrinks skip_padding_shrinks le_trans by metis
qed

lemma plain_entry_shrinks:
  assumes "plain_entry dest limits header display name raw_link sz t st r h = (Ok (st', r'), h')"
  shows "length (rd_bytes r') \<le> length (rd_bytes r)"
  using assms unfolding plain_entry_def Let_def
  by (auto simp: try_io_Ok_iff dest: file_entry_shrinks skip_data_shrinks split: option.split_asm if_split_asm sum.split_asm)

lemma header_entry_shrinks:
  assumes "header_entry dest limits header sz st r h = (Ok (st', r'), h')"
  shows "length (rd_bytes r') \<le> length (rd_bytes r)"
  using assms unfolding header_entry_def Let_def
  by (auto dest: plain_entry_shrinks split: option.split_asm if_split_asm)

lemma tar_entry_shrinks:
  assumes "tar_entry dest limits header st r h = (Ok (st', r'), h')"
  shows "length (rd_bytes r') \<le> length (rd_bytes r)"
  using assms unfolding tar_entry_def Let_def
  by (auto simp: bind_ok_Ok_iff dest: header_entry_shrinks read_data_shrinks
      split: sum.split_asm if_split_asm)

lemma read_block_shrinks: "read_block r = Ok (Some (header, r')) \<Longrightarrow> length (rd_bytes r') < length (rd_bytes r)"
  by (auto simp: read_block_def BLOCK_def split: if_splits)

function extract_loop ::
  "ManagedRoot \<Rightarrow> ExtractLimits \<Rightarrow> tar_state \<Rightarrow> reader \<Rightarrow> host \<Rightarrow> (ExtractError + tar_state) \<times> host" where
  "extract_loop dest limits st r h =
     (case read_block r of
        Inl e \<Rightarrow> (Err e, h)
      | Inr None \<Rightarrow> (Err (Ex_Corrupt ''archive ends without an end marker''), h)
      | Inr (Some (header, r)) \<Rightarrow>
          if list_all (\<lambda>c. c = nul) header then (Ok st, h)
          else (case tar_entry dest limits header st r h of
                  (Inl e, h) \<Rightarrow> (Err e, h)
                | (Inr (st, r), h) \<Rightarrow> extract_loop dest limits st r h))"
  by pat_completeness auto
termination
  by (relation "measure (\<lambda>(dest, limits, st, r, h). length (rd_bytes r))")
     (auto dest!: tar_entry_shrinks[OF sym] read_block_shrinks)

declare extract_loop.simps [simp del]

lemma extract_loop_cases:
  obtains (stop) e where "extract_loop dest limits st r h = (Err e, h)"
  | (complete) "extract_loop dest limits st r h = (Ok st, h)"
  | (failed) header r1 e g where "tar_entry dest limits header st r1 h = (Err e, g)"
      and "extract_loop dest limits st r h = (Err e, g)"
  | (entry) header r1 st' r' g where "tar_entry dest limits header st r1 h = (Ok (st', r'), g)"
      and "extract_loop dest limits st r h = extract_loop dest limits st' r' g"
      and "length (rd_bytes r') < length (rd_bytes r)"
proof (cases "read_block r")
  case (Inl e)
  then show ?thesis by (intro stop[of e]) (subst extract_loop.simps, simp)
next
  case (Inr b)
  show ?thesis
  proof (cases b)
    case None
    then show ?thesis using Inr by (intro stop) (subst extract_loop.simps, simp)
  next
    case (Some hr)
    obtain header r1 where hr: "hr = (header, r1)" by (cases hr)
    show ?thesis
    proof (cases "list_all (\<lambda>c. c = nul) header")
      case True
      then show ?thesis using Inr Some hr by (intro complete) (subst extract_loop.simps, simp)
    next
      case False
      then have step: "extract_loop dest limits st r h = (case tar_entry dest limits header st r1 h of
          (Inl e, h) \<Rightarrow> (Err e, h) | (Inr (st, r), h) \<Rightarrow> extract_loop dest limits st r h)"
        using Inr Some hr by (subst extract_loop.simps) simp
      obtain res g where res: "tar_entry dest limits header st r1 h = (res, g)" by (cases "tar_entry dest limits header st r1 h")
      show ?thesis
      proof (cases res)
        case (Inl e)
        then show ?thesis using res step by (intro failed) auto
      next
        case (Inr sr)
        obtain st' r' where "sr = (st', r')" by (cases sr)
        moreover from this have "length (rd_bytes r') < length (rd_bytes r)"
          using Inr res tar_entry_shrinks read_block_shrinks \<open>read_block r = Inr b\<close> Some hr
          by (metis le_less_trans)
        ultimately show ?thesis using Inr res step by (intro entry) auto
      qed
    qed
  qed
qed

definition symlink_relative :: "ManagedRoot \<Rightarrow> path \<Rightarrow> bytes \<Rightarrow> host \<Rightarrow> unit io" where
  "symlink_relative root link target h =
     (if is_absolute target \<or> nul \<in> set target then (Err IoInvalidInput, h)
      else io_call h (\<lambda>h.
        if \<not> parent_ok h (root @ link) then (Err IoNotFound, h)
        else if node_at h (root @ link) \<noteq> None then (Err IoAlreadyExists, h)
        else (Ok (), set_node (root @ link) (Symlink target) h)))"

fun extract_links :: "ManagedRoot \<Rightarrow> (path \<times> bytes \<times> Mtime option) list \<Rightarrow> host \<Rightarrow> (ExtractError + unit) \<times> host" where
  "extract_links dest [] h = (Ok (), h)"
| "extract_links dest ((link, target, t) # links) h =
     try_io (make_parents dest link h) (\<lambda>_. Ex_Io) (\<lambda>_ h.
     try_io (symlink_relative dest link target h) (\<lambda>_. Ex_Io) (\<lambda>_ h.
       extract_links dest links (set_time (dest @ link) t h)))"

definition extract_dir_times :: "ManagedRoot \<Rightarrow> (path \<times> Mtime) list \<Rightarrow> host \<Rightarrow> host" where
  "extract_dir_times dest dirs h = fold (\<lambda>(dir, t). set_modified_nofollow (dest @ dir) t) (rev dirs) h"

definition tar_extract :: "reader \<Rightarrow> ManagedRoot \<Rightarrow> ExtractLimits \<Rightarrow> host \<Rightarrow> (ExtractError + Summary) \<times> host" where
  "tar_extract r dest limits h =
     try_io (extract_loop dest limits tar_start r h) id (\<lambda>st h.
     try_io (extract_links dest (x_links st) h) id (\<lambda>_ h.
       (Ok (x_summary st), extract_dir_times dest (x_dir_times st) h)))"

end
