(* ===== verification/TarBounds.thy ===== *)
theory TarBounds
  imports TarExtract
begin

text \<open>
  What an extraction may do to the host: it only adds entries, all of them below the destination, and the
  bytes it adds are bounded by the limits. Both hold for every archive and for every failure of a call or
  of the reader. The last section shows where the lexical check of links falls short.
\<close>

section \<open>Only additions, only below the destination\<close>

definition added_node :: "path \<Rightarrow> node option \<Rightarrow> bool" where
  "added_node q n =
     (list_all safe_component q \<and> q \<noteq> [] \<and> n \<noteq> None \<and>
      (\<forall>t. n = Some (Symlink t) \<longrightarrow> t \<noteq> [] \<and> symlink_stays_inside q t))"

definition adds_below :: "path \<Rightarrow> host \<Rightarrow> host \<Rightarrow> bool" where
  "adds_below dest h h' =
     ((\<forall>p. node_at h' p \<noteq> node_at h p \<longrightarrow> node_at h p = None \<and> (\<exists>q. p = dest @ q \<and> added_node q (node_at h' p))) \<and>
      (\<forall>p. \<not> below dest p \<longrightarrow> mtime h' p = mtime h p) \<and> flocked h' = flocked h)"

lemma adds_below_refl [simp]: "adds_below dest h h"
  by (simp add: adds_below_def)

lemma adds_below_next_tick [simp]: "adds_below dest h (next_tick h') = adds_below dest h h'"
  by (simp add: adds_below_def)

lemma adds_below_absent: "adds_below dest h h' \<Longrightarrow> node_at h' p = None \<Longrightarrow> node_at h p = None"
  unfolding adds_below_def by (metis option.distinct(1))

lemma adds_below_set_node:
  assumes "adds_below dest h h'" and "node_at h (dest @ q) = None" and "added_node q (Some n)"
  shows "adds_below dest h (set_node (dest @ q) n h')"
  using assms by (auto simp: adds_below_def)

lemma below_dest [simp]: "below dest (dest @ q)"
  by (simp add: below_def path_starts_with_def)

lemma adds_below_times: "adds_below dest h h' \<Longrightarrow> adds_below dest h (set_modified_nofollow (dest @ q) t h')"
  by (auto simp: set_modified_nofollow_def adds_below_def node_at_def[of "_\<lparr>mtime := _\<rparr>"] simp flip: node_at_def)

lemma adds_below_set_time: "adds_below dest h h' \<Longrightarrow> adds_below dest h (set_time (dest @ q) t h')"
  by (simp add: set_time_def adds_below_times split: option.split)

lemma adds_below_dir_times: "adds_below dest h h' \<Longrightarrow> adds_below dest h (extract_dir_times dest dirs h')"
proof -
  have "adds_below dest h (fold (\<lambda>(dir, t). set_modified_nofollow (dest @ dir) t) ds h')" if "adds_below dest h h'" for ds
    using that by (induction ds arbitrary: h') (auto simp: adds_below_times)
  then show "adds_below dest h h' \<Longrightarrow> adds_below dest h (extract_dir_times dest dirs h')"
    by (simp add: extract_dir_times_def)
qed

lemma adds_below_io_call:
  "adds_below dest h h' \<Longrightarrow> (\<And>g. adds_below dest h g \<Longrightarrow> adds_below dest h (snd (f g))) \<Longrightarrow>
     adds_below dest h (snd (io_call h' f))"
  by (simp add: io_call_def)

lemma adds_below_make_dirs:
  "adds_below dest h h' \<Longrightarrow> list_all safe_component (base @ q) \<Longrightarrow>
     adds_below dest h (snd (make_dirs (dest @ base) q h'))"
proof (induction q arbitrary: base h')
  case (Cons x q)
  have "adds_below dest h (set_node (dest @ base @ [x]) Dir h')" if "node_at h' (dest @ base @ [x]) = None"
    using Cons.prems that by (intro adds_below_set_node) (auto simp: added_node_def dest: adds_below_absent)
  then show ?case
    using Cons.IH[of _ "base @ [x]"] Cons.prems by (auto split: option.split node.split)
qed simp

lemma adds_below_create_dir_all:
  "adds_below dest h h' \<Longrightarrow> list_all safe_component q \<Longrightarrow> adds_below dest h (snd (create_dir_all dest q h'))"
  using adds_below_make_dirs[of dest h "next_tick h'" "[]"]
  by (auto simp: create_dir_all_def list_all_iff dest: in_set_takeD)

lemma safe_butlast: "list_all safe_component q \<Longrightarrow> list_all safe_component (butlast q)"
  by (auto simp: list_all_iff dest: in_set_butlastD)

lemma adds_below_make_parents:
  "adds_below dest h h' \<Longrightarrow> list_all safe_component q \<Longrightarrow> adds_below dest h (snd (make_parents dest q h'))"
  by (auto simp: make_parents_def parent_of_def intro!: adds_below_create_dir_all safe_butlast)

text \<open>A call that only adds, whatever came before it.\<close>

lemma adds_below_try:
  assumes "adds_below dest h (snd r)" and "\<And>x g. r = (Ok x, g) \<Longrightarrow> adds_below dest h g \<Longrightarrow> adds_below dest h (snd (k x g))"
  shows "adds_below dest h (snd (try_io r f k))"
  using assms by (cases r rule: prod.exhaust, rename_tac a b, case_tac a) auto

lemma open_new_fresh:
  assumes "open_new p h' = (Ok x, g)"
  shows "node_at h' p = None"
  using assms by (auto simp: open_new_def io_call_def split: if_splits)

lemma adds_below_open_new:
  assumes "adds_below dest h g" and "list_all safe_component q" "q \<noteq> []"
  shows "adds_below dest h (snd (open_new (dest @ q) g))"
  unfolding open_new_def using assms
  by (intro adds_below_io_call) (auto simp: added_node_def intro!: adds_below_set_node dest: adds_below_absent)

lemma copy_file_snd:
  "snd (copy_file p sz r g) = (if take sz (rd_bytes r) = [] then g else snd (write_all p [] (take sz (rd_bytes r)) g))"
  by (auto simp: copy_file_def try_io_def write_all_def split: if_splits sum.splits prod.splits)

lemma write_all_node: "\<exists>b. snd (write_all p [] c g) = set_node p (File b) (next_tick g) \<and> length b \<le> length c"
  by (auto simp: write_all_def)

lemma adds_below_copy_file:
  assumes "adds_below dest h g" and "node_at h (dest @ q) = None" and "list_all safe_component q" "q \<noteq> []"
  shows "adds_below dest h (snd (copy_file (dest @ q) sz r g))"
proof -
  obtain b where "snd (write_all (dest @ q) [] (take sz (rd_bytes r)) g) = set_node (dest @ q) (File b) (next_tick g)"
    using write_all_node by blast
  with assms show ?thesis
    by (auto simp: copy_file_snd added_node_def intro!: adds_below_set_node)
qed

lemma set_mode_snd [simp]: "adds_below dest h (snd (set_mode p g)) = adds_below dest h g"
  by (auto simp: set_mode_def io_call_def split: option.split)

lemma adds_below_fill_file:
  assumes "adds_below dest h g" and "node_at h (dest @ q) = None" and "list_all safe_component q" "q \<noteq> []"
  shows "adds_below dest h (snd (fill_file header (dest @ q) sz t r g))"
  unfolding fill_file_def
  by (rule adds_below_try, rule adds_below_copy_file[OF assms])
     (auto intro!: adds_below_try adds_below_set_time)

lemma adds_below_file_entry:
  assumes "adds_below dest h h'" and "list_all safe_component q" "q \<noteq> []"
  shows "adds_below dest h (snd (file_entry dest header q sz t r h'))"
  unfolding file_entry_def using assms
  by (intro adds_below_try)
     (auto intro: adds_below_make_parents adds_below_open_new adds_below_fill_file
       dest!: open_new_fresh dest: adds_below_absent)

lemma entry_path_safe: "entry_path raw = Some (Some q) \<Longrightarrow> list_all safe_component q \<and> q \<noteq> []"
  by (auto simp: entry_path_def Let_def SiteRelativePath_parse_Ok split: if_splits sum.splits)

text \<open>The links put off to the end are relative, lexically inside, and at safe names.\<close>

definition links_ok :: "tar_state \<Rightarrow> bool" where
  "links_ok st = list_all (\<lambda>(q, t, _). list_all safe_component q \<and> q \<noteq> [] \<and> t \<noteq> [] \<and> symlink_stays_inside q t) (x_links st)"

lemma adds_below_plain_entry:
  assumes "adds_below dest h h'" and "\<And>q. name = Some q \<Longrightarrow> list_all safe_component q \<and> q \<noteq> []"
  shows "adds_below dest h (snd (plain_entry dest limits header display name raw_link sz t st r h'))"
  unfolding plain_entry_def Let_def using assms
  by (auto intro!: adds_below_try intro: adds_below_file_entry adds_below_create_dir_all split: option.split sum.split)

lemma links_ok_plain_entry:
  assumes "plain_entry dest limits header display name raw_link sz t st r h = (Ok (st', r'), h')"
    and "links_ok st" and "\<And>q. name = Some q \<Longrightarrow> list_all safe_component q \<and> q \<noteq> []"
  shows "links_ok st'"
  using assms unfolding plain_entry_def Let_def links_ok_def
  by (auto simp: try_io_Ok_iff split: option.split_asm if_split_asm sum.split_asm)

lemma adds_below_tar_entry:
  assumes "adds_below dest h h'"
  shows "adds_below dest h (snd (tar_entry dest limits header st r h'))"
  unfolding tar_entry_def header_entry_def Let_def using assms
  by (auto intro!: adds_below_plain_entry dest: entry_path_safe split: sum.split option.split)

lemma links_ok_meta_entry: "meta_entry flag data st = Ok st' \<Longrightarrow> links_ok st' = links_ok st"
  by (auto simp: meta_entry_def links_ok_def bind_ok_Ok_iff split: if_splits)

lemma links_ok_fields [simp]:
  "links_ok (st\<lparr>x_pax_size := a\<rparr>) = links_ok st" "links_ok (st\<lparr>x_long_name := b\<rparr>) = links_ok st"
  "links_ok (st\<lparr>x_long_link := c\<rparr>) = links_ok st" "links_ok (st\<lparr>x_pax_mtime := d\<rparr>) = links_ok st"
  "links_ok (st\<lparr>x_summary := e\<rparr>) = links_ok st"
  by (simp_all add: links_ok_def)

lemma links_ok_tar_entry:
  assumes "tar_entry dest limits header st r h = (Ok (st', r'), h')" and "links_ok st"
  shows "links_ok st'"
  using assms unfolding tar_entry_def header_entry_def Let_def
  by (auto simp: bind_ok_Ok_iff links_ok_meta_entry dest!: links_ok_plain_entry dest: entry_path_safe
      split: sum.split_asm option.split_asm if_split_asm)

lemma extract_loop_adds:
  "adds_below dest h h' \<Longrightarrow> links_ok st \<Longrightarrow>
     adds_below dest h (snd (extract_loop dest limits st r h')) \<and>
     (\<forall>st' g. extract_loop dest limits st r h' = (Ok st', g) \<longrightarrow> links_ok st')"
proof (induction "length (rd_bytes r)" arbitrary: st r h' rule: less_induct)
  case less
  note entry_adds = adds_below_tar_entry[OF less.prems(1), of limits]
  show ?case
  proof (cases dest limits st r h' rule: extract_loop_cases)
    case (failed header r1 e g)
    then show ?thesis using entry_adds[of header st r1] by simp
  next
    case (entry header r1 st' r' g)
    have "adds_below dest h g" using entry_adds[of header st r1] entry(1) by simp
    then show ?thesis
      unfolding entry(2) by (rule less.hyps[OF entry(3)]) (rule links_ok_tar_entry[OF entry(1) less.prems(2)])
  qed (use less.prems in auto)
qed

lemma adds_below_extract_links:
  "adds_below dest h h' \<Longrightarrow>
     list_all (\<lambda>(q, t, _). list_all safe_component q \<and> q \<noteq> [] \<and> t \<noteq> [] \<and> symlink_stays_inside q t) links \<Longrightarrow>
     adds_below dest h (snd (extract_links dest links h'))"
proof (induction links arbitrary: h')
  case (Cons l links)
  obtain q u t where l: "l = (q, u, t)" by (cases l) auto
  have sym: "adds_below dest h (snd (symlink_relative dest q u g))" if "adds_below dest h g" for g
    using that Cons.prems unfolding symlink_relative_def
    by (auto simp: l added_node_def intro!: adds_below_io_call adds_below_set_node dest: adds_below_absent)
  show ?case
    using Cons.prems Cons.IH
    by (auto simp: l intro!: adds_below_try adds_below_make_parents sym adds_below_set_time)
qed simp


section \<open>Within the limits\<close>

definition tree_sum :: "(node \<Rightarrow> nat) \<Rightarrow> host \<Rightarrow> nat" where
  "tree_sum f h = sum_list (map (f \<circ> snd) (tree h))"

definition node_bytes :: "node \<Rightarrow> nat" where
  "node_bytes n = (case n of File b \<Rightarrow> length b | _ \<Rightarrow> 0)"

definition is_link :: "node \<Rightarrow> nat" where
  "is_link n = (case n of Symlink _ \<Rightarrow> 1 | _ \<Rightarrow> 0)"

definition is_entry :: "node \<Rightarrow> nat" where
  "is_entry n = (if n = Dir then 0 else 1)"

lemma sum_update:
  "sum_list (map (f \<circ> snd) (AList.update p n xs)) + (case map_of xs p of None \<Rightarrow> 0 | Some m \<Rightarrow> f m) =
     sum_list (map (f \<circ> snd) xs) + (f n :: nat)"
  by (induction xs) auto

lemma tree_sum_set_node:
  "tree_sum f (set_node p n h) + (case node_at h p of None \<Rightarrow> 0 | Some m \<Rightarrow> f m) = tree_sum f h + f n"
  using sum_update[of f p n "tree h"] by (simp add: tree_sum_def set_node_def node_at_def)

lemma tree_sum_new: "node_at h p = None \<Longrightarrow> tree_sum f (set_node p n h) = tree_sum f h + f n"
  using tree_sum_set_node[of f p n h] by simp

lemma tree_sum_next_tick [simp]: "tree_sum f (next_tick h) = tree_sum f h"
  by (simp add: tree_sum_def)

lemma tree_sum_read_only [simp]:
  "tree_sum f (snd (set_mode p h)) = tree_sum f h"
  "tree_sum f (set_modified_nofollow p m h) = tree_sum f h"
  "tree_sum f (set_time p t h) = tree_sum f h"
  by (auto simp: tree_sum_def set_mode_def io_call_def set_modified_nofollow_def set_time_def split: option.split)

lemma tree_sum_dir_times [simp]: "tree_sum f (extract_dir_times dest dirs h) = tree_sum f h"
proof -
  have "tree_sum f (fold (\<lambda>(dir, t). set_modified_nofollow (dest @ dir) t) ds h) = tree_sum f h" for ds
    by (induction ds arbitrary: h) auto
  then show ?thesis by (simp add: extract_dir_times_def)
qed

lemma tree_sum_make_dirs: "f Dir = 0 \<Longrightarrow> tree_sum f (snd (make_dirs base q h)) = tree_sum f h"
  by (induction base q h rule: make_dirs.induct) (auto simp: tree_sum_new split: option.split node.split)

lemma tree_sum_create_dir_all: "f Dir = 0 \<Longrightarrow> tree_sum f (snd (create_dir_all root q h)) = tree_sum f h"
  by (simp add: create_dir_all_def io_call_def tree_sum_make_dirs)

lemma tree_sum_make_parents: "f Dir = 0 \<Longrightarrow> tree_sum f (snd (make_parents dest q h)) = tree_sum f h"
  by (simp add: make_parents_def tree_sum_create_dir_all split: option.split)

text \<open>A file that is filled replaces the empty one; it has its whole size when the copy succeeds.\<close>

lemma copy_file_sum:
  assumes "node_at g p = Some (File [])"
  shows "\<exists>b. length b \<le> sz \<and> tree_sum f (snd (copy_file p sz r g)) + f (File []) = tree_sum f g + f (File b) \<and>
    ((\<exists>r'. fst (copy_file p sz r g) = Ok r') \<longrightarrow> length b = sz)"
proof (cases "take sz (rd_bytes r) = []")
  case True
  then show ?thesis by (intro exI[of _ "[]"]) (auto simp: copy_file_def map_ok_def copy_bytes_def split: if_splits)
next
  case False
  define c where "c = (if fails g (tick g) then take (torn g (tick g)) (take sz (rd_bytes r)) else take sz (rd_bytes r))"
  have "tree_sum f (set_node p (File c) (next_tick g)) + f (File []) = tree_sum f g + f (File c)"
    using tree_sum_set_node[of f p "File c" "next_tick g"] assms by simp
  then show ?thesis
    using False by (intro exI[of _ c])
      (auto simp: c_def copy_file_def write_all_def map_ok_def copy_bytes_def split: if_splits)
qed

lemma fill_file_sum:
  assumes "node_at g p = Some (File [])"
  shows "\<exists>b. length b \<le> sz \<and> tree_sum f (snd (fill_file header p sz t r g)) + f (File []) = tree_sum f g + f (File b) \<and>
    ((\<exists>r'. fst (fill_file header p sz t r g) = Ok r') \<longrightarrow> length b = sz)"
proof -
  have tail: "tree_sum f (snd (fill_file header p sz t r g)) = tree_sum f (snd (copy_file p sz r g))"
    unfolding fill_file_def
    by (rule try_io_keeps) (auto intro!: try_io_keeps)
  have "\<exists>r'. fst (copy_file p sz r g) = Ok r'" if "fst (fill_file header p sz t r g) = Ok r'" for r'
    using that by (cases "copy_file p sz r g" rule: prod.exhaust, rename_tac a b, case_tac a) (auto simp: fill_file_def)
  then show ?thesis using copy_file_sum[OF assms, of sz f r] tail by metis
qed

lemma open_new_Ok:
  "open_new p h = (Ok x, g) \<Longrightarrow> node_at g p = Some (File []) \<and> tree_sum f g = tree_sum f h + f (File [])"
  by (auto simp: open_new_def io_call_def tree_sum_new split: if_splits)

lemma open_new_Err: "open_new p h = (Err e, g) \<Longrightarrow> tree_sum f g = tree_sum f h"
  by (auto simp: open_new_def io_call_def split: if_splits)

lemma file_entry_sum:
  assumes "f Dir = 0" and "file_entry dest header q sz t r h = (res, h')"
  shows "(\<exists>b. length b \<le> sz \<and> tree_sum f h' = tree_sum f h + f (File b) \<and> ((\<exists>r'. res = Ok r') \<longrightarrow> length b = sz)) \<or>
    tree_sum f h' = tree_sum f h \<and> (\<exists>e. res = Err e)"
proof -
  obtain res1 g1 where g1: "make_parents dest q h = (res1, g1)" by (cases "make_parents dest q h")
  then have sum1: "tree_sum f g1 = tree_sum f h" using tree_sum_make_parents[of f dest q h, OF assms(1)] by simp
  obtain res2 g2 where g2: "open_new (dest @ q) g1 = (res2, g2)" by (cases "open_new (dest @ q) g1")
  show ?thesis
  proof (cases "(\<exists>e. res1 = Inl e) \<or> (\<exists>e. res2 = Inl e)")
    case True
    then show ?thesis
      using assms(2) g1 g2 sum1 open_new_Err[of "dest @ q" g1 _ g2 f] by (cases res1; cases res2) (auto simp: file_entry_def)
  next
    case False
    then obtain x y where xy: "res1 = Ok x" "res2 = Ok y" by (metis sum.exhaust)
    with g2 open_new_Ok[of "dest @ q" g1 y g2 f]
    have new: "node_at g2 (dest @ q) = Some (File [])" "tree_sum f g2 = tree_sum f g1 + f (File [])" by auto
    have "file_entry dest header q sz t r h = fill_file header (dest @ q) sz t r g2"
      using g1 g2 xy by (simp add: file_entry_def)
    then show ?thesis
      using fill_file_sum[OF new(1), of sz f header t r] new(2) sum1 assms(2) by (auto simp: eq_commute[of "(res, h')"])
  qed
qed

lemma file_entry_bytes:
  assumes "file_entry dest header q sz t r h = (res, h')"
  shows "tree_sum node_bytes h' \<le> tree_sum node_bytes h + sz"
    and "res = Ok r' \<Longrightarrow> tree_sum node_bytes h' = tree_sum node_bytes h + sz"
    and "tree_sum is_entry h' \<le> tree_sum is_entry h + 1"
    and "tree_sum is_link h' = tree_sum is_link h"
  using file_entry_sum[OF _ assms, of node_bytes] file_entry_sum[OF _ assms, of is_entry]
    file_entry_sum[OF _ assms, of is_link]
  by (auto simp: node_bytes_def is_entry_def is_link_def)

definition within_limits :: "ExtractLimits \<Rightarrow> host \<Rightarrow> host \<Rightarrow> bool" where
  "within_limits limits h h' =
     (tree_sum node_bytes h' \<le> tree_sum node_bytes h + max_file_bytes limits \<and>
      tree_sum is_entry h' \<le> tree_sum is_entry h + max_entries limits)"

text \<open>What the loop keeps between two entries.\<close>

definition accounted :: "ExtractLimits \<Rightarrow> host \<Rightarrow> tar_state \<Rightarrow> host \<Rightarrow> bool" where
  "accounted limits h st g =
     (tree_sum node_bytes g = tree_sum node_bytes h + su_file_bytes (x_summary st) \<and>
      tree_sum is_entry g + length (x_links st) \<le> tree_sum is_entry h + su_entries (x_summary st) \<and>
      tree_sum is_link g = tree_sum is_link h \<and>
      su_symlinks (x_summary st) = length (x_links st) \<and>
      su_file_bytes (x_summary st) \<le> max_file_bytes limits \<and> su_entries (x_summary st) \<le> max_entries limits)"

definition entry_outcome :: "ExtractLimits \<Rightarrow> host \<Rightarrow> (ExtractError + tar_state \<times> reader) \<times> host \<Rightarrow> bool" where
  "entry_outcome limits h out =
     (case out of (Inl e, g) \<Rightarrow> within_limits limits h g | (Inr (st, r), g) \<Rightarrow> accounted limits h st g)"

lemma accounted_within: "accounted limits h st g \<Longrightarrow> within_limits limits h g"
  by (simp add: accounted_def within_limits_def)

lemma tree_sum_dirs:
  "tree_sum node_bytes (snd (create_dir_all root q h)) = tree_sum node_bytes h"
  "tree_sum is_entry (snd (create_dir_all root q h)) = tree_sum is_entry h"
  "tree_sum is_link (snd (create_dir_all root q h)) = tree_sum is_link h"
  by (simp_all add: tree_sum_create_dir_all node_bytes_def is_entry_def is_link_def)

text \<open>An entry whose number is already counted has room for one more node.\<close>

definition has_room :: "ExtractLimits \<Rightarrow> host \<Rightarrow> tar_state \<Rightarrow> host \<Rightarrow> bool" where
  "has_room limits h st g =
     (accounted limits h st g \<and> tree_sum is_entry g + length (x_links st) < tree_sum is_entry h + su_entries (x_summary st))"

lemma file_outcome:
  assumes "has_room limits h st g" and "max_file_bytes limits < U64_MAX"
    and "st' = st\<lparr>x_summary := (x_summary st)\<lparr>su_file_bytes := tot\<rparr>\<rparr>"
    and "tot = saturating_add (su_file_bytes (x_summary st)) sz" and "tot \<le> max_file_bytes limits"
  shows "entry_outcome limits h (try_io (file_entry dest header q sz t r g) id (\<lambda>r h. (Ok (st', r), h)))"
proof -
  obtain res g' where fe: "file_entry dest header q sz t r g = (res, g')" by (cases "file_entry dest header q sz t r g")
  have tot: "tot = su_file_bytes (x_summary st) + sz" using assms by (simp add: saturating_add_def min_def split: if_splits)
  show ?thesis
    using assms tot file_entry_bytes(1,3,4)[OF fe] file_entry_bytes(2)[OF fe] fe
    by (cases res) (auto simp: entry_outcome_def has_room_def accounted_def within_limits_def)
qed

lemma dir_outcome:
  assumes "has_room limits h st g" and "x_summary st' = x_summary st" "x_links st' = x_links st"
  shows "entry_outcome limits h (try_io (create_dir_all dest q g) (\<lambda>_. Ex_Io) (\<lambda>_ h. (Ok (st', r), h)))"
proof -
  obtain res g' where d: "create_dir_all dest q g = (res, g')" by (cases "create_dir_all dest q g")
  show ?thesis
    using assms tree_sum_dirs[of dest q g] d
    by (cases res) (auto simp: entry_outcome_def has_room_def accounted_def within_limits_def)
qed

lemma outcome_simps [simp]:
  "has_room limits h st g \<Longrightarrow> entry_outcome limits h (Err e, g)"
  "has_room limits h st g \<Longrightarrow> entry_outcome limits h (Ok (st, r), g)"
  by (auto simp: entry_outcome_def has_room_def dest: accounted_within)

lemma link_outcome:
  "has_room limits h st g \<Longrightarrow> entry_outcome limits h
     (Ok (st\<lparr>x_summary := (x_summary st)\<lparr>su_symlinks := Suc (su_symlinks (x_summary st))\<rparr>,
             x_links := x_links st @ [l]\<rparr>, r), g)"
  by (auto simp: entry_outcome_def has_room_def accounted_def)

lemma plain_entry_outcome:
  assumes room: "has_room limits h st g" and "max_file_bytes limits < U64_MAX"
  shows "entry_outcome limits h (plain_entry dest limits header display name raw_link sz t st r g)"
  using assms unfolding plain_entry_def Let_def
  by (auto intro: file_outcome dir_outcome link_outcome simp: not_less outcome_simps(1)[OF room] outcome_simps(2)[OF room]
      split: option.split sum.split)

lemma header_entry_outcome:
  assumes "accounted limits h st g" and "max_file_bytes limits < U64_MAX"
  shows "entry_outcome limits h (header_entry dest limits header sz st r g)"
proof -
  let ?st = "st\<lparr>x_long_name := None, x_long_link := None, x_pax_mtime := None,
                  x_summary := (x_summary st)\<lparr>su_entries := su_entries (x_summary st) + 1\<rparr>\<rparr>"
  have err: "entry_outcome limits h (Err e, g)" for e
    using accounted_within[OF assms(1)] by (simp add: entry_outcome_def)
  show ?thesis
  proof (cases "max_entries limits < su_entries (x_summary st) + 1")
    case True
    then show ?thesis using err by (simp add: header_entry_def Let_def)
  next
    case False
    then have "has_room limits h ?st g" using assms(1) by (auto simp: has_room_def accounted_def)
    from plain_entry_outcome[OF this assms(2)] False show ?thesis
      using err by (simp add: header_entry_def Let_def split: option.split)
  qed
qed

lemma meta_entry_keeps: "meta_entry flag data st = Ok st' \<Longrightarrow> x_summary st' = x_summary st \<and> x_links st' = x_links st"
  by (auto simp: meta_entry_def bind_ok_Ok_iff split: if_splits)

lemma tar_entry_outcome:
  assumes acc: "accounted limits h st g" and "max_file_bytes limits < U64_MAX"
  shows "entry_outcome limits h (tar_entry dest limits header st r g)"
proof -
  have err: "entry_outcome limits h (Err e, g)" for e
    using accounted_within[OF acc] by (simp add: entry_outcome_def)
  have acc': "accounted limits h (st\<lparr>x_pax_size := None\<rparr>) g" using acc by (simp add: accounted_def)
  have meta: "entry_outcome limits h (bind_ok (read_data sz r) (\<lambda>(data, r).
      bind_ok (meta_entry (header ! 156) data (st\<lparr>x_pax_size := None\<rparr>)) (\<lambda>st. Ok (st, r))), g)" for sz
    using acc' err
    by (cases "read_data sz r"; auto simp: bind_ok_def split: sum.split)
       (auto dest!: meta_entry_keeps simp: entry_outcome_def accounted_def)
  show ?thesis
    unfolding tar_entry_def Let_def
    using err meta header_entry_outcome[OF acc' assms(2)] by (auto split: sum.split)
qed

lemma extract_loop_outcome:
  assumes "max_file_bytes limits < U64_MAX"
  shows "accounted limits h st g \<Longrightarrow> extract_loop dest limits st r g = (res, g') \<Longrightarrow>
     (case res of Inl e \<Rightarrow> within_limits limits h g' | Inr st' \<Rightarrow> accounted limits h st' g')"
proof (induction "length (rd_bytes r)" arbitrary: st r g rule: less_induct)
  case less
  note out = tar_entry_outcome[OF less.prems(1) assms, of dest]
  show ?case
  proof (cases dest limits st r g rule: extract_loop_cases)
    case (failed header r1 e g1)
    then show ?thesis using less.prems(2) out[of header r1] by (auto simp: entry_outcome_def)
  next
    case (entry header r1 st' r' g1)
    have "accounted limits h st' g1" using out[of header r1] entry(1) by (simp add: entry_outcome_def)
    then show ?thesis using less.hyps[OF entry(3)] less.prems(2) unfolding entry(2) by blast
  qed (use less.prems accounted_within in auto)
qed

lemma symlink_relative_sum:
  "symlink_relative dest q u h = (res, h') \<Longrightarrow>
     (if res = Ok () then tree_sum f h' = tree_sum f h + f (Symlink u) else tree_sum f h' = tree_sum f h)"
  by (auto simp: symlink_relative_def io_call_def tree_sum_new split: if_splits)

lemma extract_links_sum:
  assumes "f Dir = 0" and "\<And>u. f (Symlink u) = c"
  shows "extract_links dest links h = (res, h') \<Longrightarrow>
    tree_sum f h' \<le> tree_sum f h + c * length links \<and> (res = Ok () \<longrightarrow> tree_sum f h' = tree_sum f h + c * length links)"
proof (induction links arbitrary: h)
  case (Cons l links)
  obtain q u t where l: "l = (q, u, t)" by (cases l) auto
  obtain res1 g1 where g1: "make_parents dest q h = (res1, g1)" by (cases "make_parents dest q h")
  obtain res2 g2 where g2: "symlink_relative dest q u g1 = (res2, g2)" by (cases "symlink_relative dest q u g1")
  have "tree_sum f g1 = tree_sum f h" using tree_sum_make_parents[of f dest q h, OF assms(1)] g1 by simp
  moreover have "tree_sum f g2 = (if res2 = Ok () then tree_sum f g1 + c else tree_sum f g1)"
    using symlink_relative_sum[OF g2, of f] by (simp add: assms(2))
  ultimately show ?case
  proof (cases "res1 = Ok () \<and> res2 = Ok ()")
    case True
    then have "extract_links dest links (set_time (dest @ q) t g2) = (res, h')"
      using Cons.prems g1 g2 by (simp add: l)
    from Cons.IH[OF this] True \<open>tree_sum f g1 = _\<close> \<open>tree_sum f g2 = _\<close> show ?thesis by simp
  next
    case False
    have "(res, h') = (Err Ex_Io, g1) \<or> (res, h') = (Err Ex_Io, g2) \<and> res2 \<noteq> Ok ()"
    proof (cases res1)
      case (Inl e)
      then show ?thesis using Cons.prems g1 by (simp add: l)
    next
      case (Inr x)
      then obtain e where "res2 = Err e" using False by (metis (full_types) old.unit.exhaust sum.exhaust)
      then show ?thesis using Inr Cons.prems g1 g2 by (simp add: l)
    qed
    with \<open>tree_sum f g1 = _\<close> \<open>tree_sum f g2 = _\<close> show ?thesis by auto
  qed
qed auto

text \<open>
  (C26) Whatever the archive holds and wherever it fails, an extraction never adds more file bytes than
  \<open>max_file_bytes\<close> nor more files and links than \<open>max_entries\<close>, and the summary it returns is exact:
  its byte count is what the files grew by, its link count the number of links added.
\<close>

theorem extract_within_limits:
  assumes "max_file_bytes limits < U64_MAX" and "tar_extract r dest limits h = (res, h')"
  shows "within_limits limits h h' \<and>
    (\<forall>s. res = Ok s \<longrightarrow> su_entries s \<le> max_entries limits \<and>
       tree_sum node_bytes h' = tree_sum node_bytes h + su_file_bytes s \<and>
       tree_sum is_link h' = tree_sum is_link h + su_symlinks s)"
proof -
  obtain res1 g1 where g1: "extract_loop dest limits tar_start r h = (res1, g1)" by (cases "extract_loop dest limits tar_start r h")
  have "accounted limits h tar_start h" by (simp add: accounted_def tar_start_def)
  note loop = extract_loop_outcome[OF assms(1) this g1]
  show ?thesis
  proof (cases res1)
    case (Inl e)
    then show ?thesis using loop assms(2) g1 by (auto simp: tar_extract_def)
  next
    case (Inr st)
    obtain res2 g2 where g2: "extract_links dest (x_links st) g1 = (res2, g2)" by (cases "extract_links dest (x_links st) g1")
    have acc: "accounted limits h st g1" using loop Inr by simp
    have sums: "tree_sum node_bytes g2 \<le> tree_sum node_bytes g1" "res2 = Ok () \<Longrightarrow> tree_sum node_bytes g2 = tree_sum node_bytes g1"
      "tree_sum is_entry g2 \<le> tree_sum is_entry g1 + length (x_links st)"
      "res2 = Ok () \<Longrightarrow> tree_sum is_link g2 = tree_sum is_link g1 + length (x_links st)"
      using extract_links_sum[of node_bytes 0, OF _ _ g2] extract_links_sum[of is_entry 1, OF _ _ g2]
        extract_links_sum[of is_link 1, OF _ _ g2]
      by (auto simp: node_bytes_def is_entry_def is_link_def)
    show ?thesis
      using sums acc assms(2) g1 g2 Inr
      by (cases res2) (auto simp: tar_extract_def accounted_def within_limits_def)
  qed
qed

text \<open>Equations that evaluate without counting to the width of a word.\<close>

lemma U64_MAX_le: "n \<le> 18446744073709551615 \<longleftrightarrow> n \<le> U64_MAX"
  by (simp add: U64_MAX_def)

lemma digits_checked_code [code]:
  "digits_checked base value [] = Some value"
  "digits_checked base value (d # ds) =
     (if int (base * value + d) \<le> 18446744073709551615 then digits_checked base (base * value + d) ds else None)"
  by (simp_all add: U64_MAX_le del: of_nat_add of_nat_mult)

text \<open>Reading an archive that is written as its blocks.\<close>

lemma read_block_append: "length b = BLOCK \<Longrightarrow> read_block \<lparr> rd_bytes = b @ bs, rd_broken = x \<rparr> = Ok (Some (b, \<lparr> rd_bytes = bs, rd_broken = x \<rparr>))"
  by (simp add: read_block_def advance_by_def)

lemma copy_bytes_append: "length b = n \<Longrightarrow> copy_bytes n \<lparr> rd_bytes = b @ bs, rd_broken = x \<rparr> = Ok (b, \<lparr> rd_bytes = bs, rd_broken = x \<rparr>)"
  by (auto simp: copy_bytes_def advance_by_def)

lemma copy_bytes_0 [simp]: "copy_bytes 0 r = Ok ([], r)"
  by (simp add: copy_bytes_def advance_by_def)

lemma skip_padding_0 [simp]: "skip_padding 0 r = Ok r"
  by (simp add: skip_padding_def map_ok_def)

lemma extract_loop_end: "extract_loop dest limits st \<lparr> rd_bytes = replicate 512 nul, rd_broken = x \<rparr> h = (Ok st, h)"
  using read_block_append[of "replicate 512 nul" "[]" x]
  by (subst extract_loop.simps) (simp add: BLOCK_def list_all_iff)

lemma extract_loop_entry:
  assumes "length b = BLOCK" and "\<not> list_all (\<lambda>c. c = nul) b"
    and "tar_entry dest limits b st \<lparr> rd_bytes = bs, rd_broken = x \<rparr> h = (Ok (st', r'), h')"
  shows "extract_loop dest limits st \<lparr> rd_bytes = b @ bs, rd_broken = x \<rparr> h = extract_loop dest limits st' r' h'"
  using assms by (subst extract_loop.simps) (simp add: read_block_append)

text \<open>Archives with one file of three bytes, and with two links. Their times are no numbers and so are not set.\<close>

definition small_header :: bytes where
  "small_header = ''a'' @ replicate 99 nul @ ''0000644'' @ replicate 17 nul @ ''00000000003'' @ [nul]
     @ ''00000000019'' @ [nul] @ ''003434 '' @ [nul] @ ''0'' @ replicate 355 nul"

definition small_archive :: reader where
  "small_archive = \<lparr> rd_bytes = small_header @ ''xyz'' @ replicate 509 nul @ replicate 512 nul, rd_broken = False \<rparr>"

definition link_header :: "string \<Rightarrow> string \<Rightarrow> string \<Rightarrow> bytes" where
  "link_header name checksum target = name @ replicate (100 - length name) nul @ ''0000777'' @ replicate 17 nul
     @ ''00000000000'' @ [nul] @ ''00000000019'' @ [nul] @ checksum @ '' '' @ [nul] @ ''2'' @ target
     @ replicate (355 - length target) nul"

definition link_archive :: reader where
  "link_archive = \<lparr> rd_bytes = link_header ''l'' ''003533'' ''.'' @ link_header ''e'' ''005322'' ''l/../secret''
     @ replicate 512 nul, rd_broken = False \<rparr>"

definition small_limits :: ExtractLimits where
  "small_limits = \<lparr> max_entries = 10, max_file_bytes = 100 \<rparr>"

definition import_host :: host where
  "import_host = \<lparr> tree = [([], Dir), ([''d''], Dir), ([''secret''], File ''key'')], flocked = (\<lambda>_. False), realpath = (\<lambda>_. None),
     mtime = (\<lambda>_. None), clock = (\<lambda>_. 1), tick = 0, fails = (\<lambda>_. False), torn = (\<lambda>_. 0) \<rparr>"

lemma small_header_fields:
  "length small_header = BLOCK" "\<not> list_all (\<lambda>c. c = nul) small_header" "verify_checksum small_header = Ok ()"
  "parse_numeric (slice 124 136 small_header) = Ok 3" "small_header ! 156 = CHR ''0''" "header_name small_header = ''a''"
  "parse_numeric (slice 136 148 small_header) = Err (Ex_Corrupt ''bad octal field'')"
  "parse_numeric (slice 100 108 small_header) = Ok 420"
  by code_simp+

lemma small_file_entry:
  "file_entry [''d''] small_header [''a''] 3 None \<lparr> rd_bytes = ''xyz'' @ replicate 509 nul @ bs, rd_broken = False \<rparr> import_host =
     (Ok \<lparr> rd_bytes = bs, rd_broken = False \<rparr>,
      import_host\<lparr>tree := tree import_host @ [([''d'', ''a''], File ''xyz'')], tick := 3\<rparr>)"
  using copy_bytes_append[of "''xyz''" 3 "replicate 509 nul @ bs" False] copy_bytes_append[of "replicate 509 nul" 509 bs False]
  by (simp add: file_entry_def make_parents_def parent_of_def open_new_def io_call_def parent_ok_def import_host_def
      node_at_def next_tick_def set_node_def fill_file_def copy_file_def write_all_def skip_padding_def map_ok_def
      BLOCK_def small_header_fields set_mode_def set_time_def)

lemma small_tar_entry:
  "tar_entry [''d''] small_limits small_header tar_start \<lparr> rd_bytes = ''xyz'' @ replicate 509 nul @ bs, rd_broken = False \<rparr> import_host =
     (Ok (tar_start\<lparr>x_summary := \<lparr> su_entries = 1, su_file_bytes = 3, su_symlinks = 0 \<rparr>\<rparr>, \<lparr> rd_bytes = bs, rd_broken = False \<rparr>),
      import_host\<lparr>tree := tree import_host @ [([''d'', ''a''], File ''xyz'')], tick := 3\<rparr>)"
proof -
  have "entry_path ''a'' = Some (Some [''a''])" by code_simp
  then show ?thesis
    by (simp add: tar_entry_def header_entry_def plain_entry_def small_header_fields small_file_entry small_limits_def
        tar_start_def saturating_add_def U64_MAX_def bind_ok_def del: append.simps append_Cons append_Nil)
qed

theorem extract_within_limits_witness:
  "fst (tar_extract small_archive [''d''] small_limits import_host) = Ok \<lparr> su_entries = 1, su_file_bytes = 3, su_symlinks = 0 \<rparr> \<and>
   node_at (snd (tar_extract small_archive [''d''] small_limits import_host)) [''d'', ''a''] = Some (File ''xyz'') \<and>
   within_limits small_limits import_host (snd (tar_extract small_archive [''d''] small_limits import_host))"
proof -
  have "max_file_bytes small_limits < U64_MAX" by (simp add: small_limits_def U64_MAX_def)
  from extract_within_limits[OF this surjective_pairing[of "tar_extract small_archive [''d''] small_limits import_host"]]
  have "within_limits small_limits import_host (snd (tar_extract small_archive [''d''] small_limits import_host))" by blast
  moreover have "tar_extract small_archive [''d''] small_limits import_host =
      (Ok \<lparr> su_entries = 1, su_file_bytes = 3, su_symlinks = 0 \<rparr>,
       import_host\<lparr>tree := tree import_host @ [([''d'', ''a''], File ''xyz'')], tick := 3\<rparr>)"
    unfolding tar_extract_def small_archive_def
      extract_loop_entry[OF small_header_fields(1) small_header_fields(2) small_tar_entry]
    by (simp add: extract_loop_end extract_dir_times_def tar_start_def)
  ultimately show ?thesis by (simp add: node_at_def import_host_def)
qed

section \<open>Links that leave the destination\<close>

text \<open>
  How the kernel follows a path from a directory: a link is replaced by its target, and \<open>..\<close> is the
  parent of the directory really reached. At most \<open>fuel\<close> components are walked.
\<close>

fun follow_path :: "nat \<Rightarrow> host \<Rightarrow> path \<Rightarrow> component list \<Rightarrow> path option" where
  "follow_path fuel h dir [] = Some dir"
| "follow_path 0 h dir (c # cs) = None"
| "follow_path (Suc fuel) h dir (c # cs) =
     (case c of
        RootDir \<Rightarrow> follow_path fuel h [] cs
      | CurDir \<Rightarrow> follow_path fuel h dir cs
      | ParentDir \<Rightarrow> follow_path fuel h (butlast dir) cs
      | Normal name \<Rightarrow>
          (case node_at h (dir @ [name]) of
             None \<Rightarrow> None
           | Some (Symlink target) \<Rightarrow> follow_path fuel h dir (path_components target @ cs)
           | Some _ \<Rightarrow> follow_path fuel h (dir @ [name]) cs))"

definition link_block :: "bytes \<Rightarrow> string \<Rightarrow> bytes \<Rightarrow> bool" where
  "link_block b name target =
     (length b = BLOCK \<and> \<not> list_all (\<lambda>c. c = nul) b \<and> verify_checksum b = Ok () \<and>
      parse_numeric (slice 124 136 b) = Ok 0 \<and> b ! 156 = CHR ''2'' \<and> header_name b = name \<and>
      tar_field (slice 157 257 b) = target \<and> parse_numeric (slice 136 148 b) = Err (Ex_Corrupt ''bad octal field''))"

lemma link_blocks:
  "link_block (link_header ''l'' ''003533'' ''.'') ''l'' ''.''"
  "link_block (link_header ''e'' ''005322'' ''l/../secret'') ''e'' ''l/../secret''"
  by code_simp+

lemma extract_loop_link:
  assumes "link_block b name target" and "entry_path name = Some (Some q)" and "target \<noteq> []" and "symlink_stays_inside q target"
    and "x_long_name st = None" "x_long_link st = None" "x_pax_size st = None" "x_pax_mtime st = None"
    and "su_entries (x_summary st) < max_entries limits"
  shows "extract_loop dest limits st \<lparr> rd_bytes = b @ bs, rd_broken = x \<rparr> h =
    extract_loop dest limits
      (st\<lparr>x_summary := (x_summary st)\<lparr>su_entries := su_entries (x_summary st) + 1, su_symlinks := su_symlinks (x_summary st) + 1\<rparr>,
         x_links := x_links st @ [(q, target, None)]\<rparr>) \<lparr> rd_bytes = bs, rd_broken = x \<rparr> h"
  using assms
  by (intro extract_loop_entry)
     (auto simp: link_block_def tar_entry_def header_entry_def plain_entry_def skip_data_def bind_ok_def Let_def)

text \<open>
  (C38) The lexical check of links does not keep them inside: an archive of two links, \<open>l\<close> to \<open>.\<close> and
  \<open>e\<close> to \<open>l/../secret\<close>, is extracted without an error although following \<open>e\<close> leads to a file
  beside the destination.
\<close>

theorem extracted_link_escapes:
  "fst (tar_extract link_archive [''d''] small_limits import_host) = Ok \<lparr> su_entries = 2, su_file_bytes = 0, su_symlinks = 2 \<rparr> \<and>
   follow_path 10 (snd (tar_extract link_archive [''d''] small_limits import_host)) [''d''] [Normal ''e''] = Some [''secret''] \<and>
   \<not> below [''d''] [''secret'']"
proof -
  have paths: "entry_path ''l'' = Some (Some [''l''])" "entry_path ''e'' = Some (Some [''e''])"
    "symlink_stays_inside [''l''] ''.''" "symlink_stays_inside [''e''] ''l/../secret''" by code_simp+
  have relative: "\<not> is_absolute ''.''" "\<not> is_absolute ''l/../secret''" by code_simp+
  have "extract_loop [''d''] small_limits tar_start link_archive import_host =
    (Ok (tar_start\<lparr>x_summary := \<lparr> su_entries = 2, su_file_bytes = 0, su_symlinks = 2 \<rparr>,
       x_links := [([''l''], ''.'', None), ([''e''], ''l/../secret'', None)]\<rparr>), import_host)"
    unfolding link_archive_def
    by (simp add: extract_loop_link[OF link_blocks(1) paths(1) _ paths(3)] extract_loop_link[OF link_blocks(2) paths(2) _ paths(4)]
        extract_loop_end tar_start_def small_limits_def)
  moreover have "extract_links [''d''] [([''l''], ''.'', None), ([''e''], ''l/../secret'', None)] import_host =
    (Ok (), import_host\<lparr>tree := tree import_host @ [([''d'', ''l''], Symlink ''.''), ([''d'', ''e''], Symlink ''l/../secret'')], tick := 2\<rparr>)"
    by (simp add: make_parents_def parent_of_def symlink_relative_def io_call_def parent_ok_def node_at_def set_node_def
        next_tick_def import_host_def set_time_def relative)
  ultimately have out: "tar_extract link_archive [''d''] small_limits import_host =
    (Ok \<lparr> su_entries = 2, su_file_bytes = 0, su_symlinks = 2 \<rparr>,
     import_host\<lparr>tree := tree import_host @ [([''d'', ''l''], Symlink ''.''), ([''d'', ''e''], Symlink ''l/../secret'')], tick := 2\<rparr>)"
    by (simp add: tar_extract_def extract_dir_times_def tar_start_def)
  have "follow_path 10 (import_host\<lparr>tree := tree import_host @ [([''d'', ''l''], Symlink ''.''), ([''d'', ''e''], Symlink ''l/../secret'')], tick := 2\<rparr>)
    [''d''] [Normal ''e''] = Some [''secret'']" by code_simp
  moreover have "\<not> below [''d''] [''secret'']" by code_simp
  ultimately show ?thesis unfolding out by simp
qed

end
