(* ===== verification/ConfigActivate.thy ===== *)
theory ConfigActivate
  imports Switching ResourceLock
begin

text \<open>
  Replacing a live configuration file: the route of a domain (\<open>src/src/ingress/activate.rs\<close>), the fragment of
  a runtime pool (\<open>src/src/runtime_config/activate.rs\<close>) and the file of a Compose stack
  (\<open>src/src/compose_config/activate.rs\<close>), with the content hashes and requests of their modules and the
  \<open>docker compose exec\<close> primitive of \<open>src/src/compose.rs\<close>.

  The three sources repeat one sequence: guard, stage, check, keep the previous file, rename, reload, and
  restore when the reload fails. It is defined once (\<open>activate_sequence\<close>), over the check of the staged
  file and the reload, which are the three sources' own. The locale \<open>reloader\<close> states what it needs of
  the two, and its lemma is interpreted for each of the three.
\<close>

section \<open>Content hashes and guards\<close>

type_synonym ConfigHash = string

definition ConfigHash_of :: "sha256 \<Rightarrow> bytes \<Rightarrow> ConfigHash" where
  "ConfigHash_of sha b = concat (map (\<lambda>byte. hex_fixed 2 (unat byte)) (sha b))"

definition ConfigHash_parse :: "string \<Rightarrow> unit + ConfigHash" where
  "ConfigHash_parse value =
     (if length value \<noteq> 64 \<or> \<not> list_all is_ascii_hexdigit value then Err () else Ok (map to_ascii_lowercase value))"

datatype HashGuard = Absent | Sha256 ConfigHash

definition is_satisfied_by :: "sha256 \<Rightarrow> HashGuard \<Rightarrow> bytes option \<Rightarrow> bool" where
  "is_satisfied_by sha guard current =
     (case guard of
        Absent \<Rightarrow> current = None
      | Sha256 expected \<Rightarrow> (case current of Some b \<Rightarrow> ConfigHash_of sha b = expected | None \<Rightarrow> False))"

definition guard_from_expected_hash :: "'e \<Rightarrow> string option \<Rightarrow> 'e + HashGuard" where
  "guard_from_expected_hash invalid expected =
     (case expected of
        None \<Rightarrow> Ok Absent
      | Some value \<Rightarrow> map_err (\<lambda>_. invalid) (map_ok Sha256 (ConfigHash_parse value)))"

definition MAX_CONTENT_BYTES :: nat where "MAX_CONTENT_BYTES = 256 * 1024"

datatype RouteTarget = Live | Backup

section \<open>Where the files are\<close>

definition ingress_route_path :: "string \<Rightarrow> path" where
  "ingress_route_path domain = expect_path (domain @ ''.'' @ ''caddyfile'')"

definition disabled_route_path :: "string \<Rightarrow> path" where
  "disabled_route_path domain = expect_path (domain @ ''.'' @ ''caddyfile.disabled'')"

definition backup_route_path :: "string \<Rightarrow> path" where
  "backup_route_path domain = expect_path (domain @ ''.'' @ ''maintenance-backup'')"

definition runtime_route_path :: "string \<Rightarrow> string \<Rightarrow> path" where
  "runtime_route_path runtime_id domain = expect_path (runtime_id @ ''/'' @ domain @ ''.caddyfile'')"

definition compose_route_path :: "string \<Rightarrow> path" where
  "compose_route_path stack_name = expect_path (stack_name @ ''/docker-compose.yml'')"

record RoutePaths =
  rp_live :: path
  rp_staged :: path
  rp_backup :: path

text \<open>The names are ASCII, so that \<open>display\<close> is the text of the path.\<close>

definition sibling :: "path \<Rightarrow> string \<Rightarrow> path" where
  "sibling live suffix = expect_path (join_with slash live @ suffix)"

definition RoutePaths_new :: "path \<Rightarrow> string \<Rightarrow> RoutePaths" where
  "RoutePaths_new live backup_suffix =
     \<lparr> rp_live = live, rp_staged = sibling live ''.tmp'', rp_backup = sibling live (''.rollback-'' @ backup_suffix) \<rparr>"

section \<open>Running a command in a service of the stack\<close>

definition COMPOSE_PROJECT :: string where "COMPOSE_PROJECT = ''wcp''"
definition COMPOSE_BASE_DIR_SUFFIX :: string where "COMPOSE_BASE_DIR_SUFFIX = ''compose/wp-stack''"

datatype ComposeError = NoHomeDirectory | Compose_Run ProcessRunError

text \<open>The account the engine runs as: \<open>$HOME\<close>, and the directory the user database names.\<close>

record account =
  ac_home :: "string option"
  ac_passwd :: "bytes option"

definition passwd_home_dir :: "account \<Rightarrow> string option" where
  "passwd_home_dir a =
     (case ac_passwd a of
        None \<Rightarrow> None
      | Some dir \<Rightarrow> if \<not> utf8_ok dir \<or> dir = [] then None else Some dir)"

definition home_dir :: "account \<Rightarrow> string option" where
  "home_dir a = (case ac_home a of Some home \<Rightarrow> if home \<noteq> [] then Some home else passwd_home_dir a | None \<Rightarrow> passwd_home_dir a)"

definition join_text :: "string \<Rightarrow> string \<Rightarrow> string" where
  "join_text base rel = (if ends_with base [slash] then base @ rel else base @ slash # rel)"

definition compose_base_dir :: "account \<Rightarrow> ComposeError + string" where
  "compose_base_dir a =
     (case home_dir a of Some home \<Rightarrow> Ok (join_text home COMPOSE_BASE_DIR_SUFFIX) | None \<Rightarrow> Err NoHomeDirectory)"

definition compose_root_dir :: "account \<Rightarrow> ComposeError + string" where
  "compose_root_dir a = (case home_dir a of Some home \<Rightarrow> Ok (join_text home ''compose'') | None \<Rightarrow> Err NoHomeDirectory)"

record Access =
  ax_stack_dir :: "string option"
  ax_docker_path :: "string option"

definition with_path :: "string option \<Rightarrow> ProcessRequest \<Rightarrow> ProcessRequest" where
  "with_path docker_path r = (case docker_path of None \<Rightarrow> r | Some p \<Rightarrow> with_env ''PATH'' p r)"

definition exec_inner ::
  "programs \<Rightarrow> account \<Rightarrow> string \<Rightarrow> string list \<Rightarrow> string option \<Rightarrow> string option \<Rightarrow> host \<Rightarrow> (ComposeError + ProcessOutput) \<times> host" where
  "exec_inner P a service args cwd path_override h =
     (case (case cwd of Some p \<Rightarrow> Ok p | None \<Rightarrow> compose_base_dir a) of
        Inl e \<Rightarrow> (Err e, h)
      | Inr dir \<Rightarrow>
          try_io (run P
              (with_path path_override (with_current_dir dir (with_args
                 ([''compose'', ''-p'', COMPOSE_PROJECT, ''--env-file'', ''.env'', ''-f'', ''stack/docker-compose.yml'', ''exec'', ''-T'', service] @ args)
                 (ProcessRequest_new ''docker''))))
              (limits_of 30 (64 * 1024)) h)
            Compose_Run (\<lambda>out h. (Ok out, h)))"

definition Access_exec ::
  "programs \<Rightarrow> account \<Rightarrow> Access \<Rightarrow> string \<Rightarrow> string list \<Rightarrow> host \<Rightarrow> (ComposeError + ProcessOutput) \<times> host" where
  "Access_exec P a access service args h = exec_inner P a service args (ax_stack_dir access) (ax_docker_path access) h"

section \<open>The sequence\<close>

record Activation =
  activated :: bool

datatype 'r ComposeFailure = CF_Run 'r | CF_Rejected SubprocessDiagnostics
datatype 'r RestoreFailure = RF_File io_error | RF_Reload "'r ComposeFailure"

datatype 'r ActivationError =
    AE_Io io_error
  | AE_Path ValidationError
  | HashGuardMismatch
  | ValidateFailed "'r ComposeFailure"
  | ReloadFailedAndRestored "'r ComposeFailure"
  | ReloadFailedUnchanged "'r ComposeFailure"
  | RecoveryFailed "'r ComposeFailure" "'r RestoreFailure"

definition check_output :: "string \<Rightarrow> ('r + ProcessOutput) \<times> host \<Rightarrow> ('r ComposeFailure + unit) \<times> host" where
  "check_output program res =
     try_io res CF_Run (\<lambda>out h.
       if exited_ok out then (Ok (), h) else (Err (CF_Rejected (diagnostics_from_output program out)), h))"

definition read_bytes :: "ManagedRoot \<Rightarrow> path \<Rightarrow> host \<Rightarrow> bytes io" where
  "read_bytes root p h = io_call h (\<lambda>h.
     case node_at h (root @ p) of
       None \<Rightarrow> (Err IoNotFound, h)
     | Some (File b) \<Rightarrow> (Ok b, h)
     | Some _ \<Rightarrow> (Err IoOther, h))"

definition read_optional :: "ManagedRoot \<Rightarrow> path \<Rightarrow> host \<Rightarrow> ('r ActivationError + bytes option) \<times> host" where
  "read_optional root p h =
     (case read_bytes root p h of
        (Inr b, h) \<Rightarrow> (Ok (Some b), h)
      | (Inl e, h) \<Rightarrow> if e = IoNotFound then (Ok None, h) else (Err (AE_Io e), h))"

definition discard :: "ManagedRoot \<Rightarrow> path \<Rightarrow> host \<Rightarrow> host" where
  "discard root p h = snd (remove_file root p h)"

type_synonym 'r step = "host \<Rightarrow> ('r ComposeFailure + unit) \<times> host"
type_synonym 'r activation = "('r ActivationError + Activation) \<times> host"

text \<open>After the commit point: the reload, and the restoration when it fails.\<close>

definition reload_or_restore :: "'r step \<Rightarrow> ManagedRoot \<Rightarrow> RoutePaths \<Rightarrow> bytes option \<Rightarrow> host \<Rightarrow> 'r activation" where
  "reload_or_restore reload root paths current h =
     (case reload h of
        (Inr _, h) \<Rightarrow> (Ok \<lparr> activated = True \<rparr>, discard root (rp_backup paths) h)
      | (Inl reload_failure, h) \<Rightarrow>
          try_io (if current \<noteq> None then rename root (rp_backup paths) (rp_live paths) h
                  else remove_file root (rp_live paths) h)
            (\<lambda>e. RecoveryFailed reload_failure (RF_File e)) (\<lambda>_ h.
          try_io (reload h) (\<lambda>second. RecoveryFailed reload_failure (RF_Reload second)) (\<lambda>_ h.
            (Err (ReloadFailedAndRestored reload_failure), h))))"

definition swap_in :: "'r step \<Rightarrow> ManagedRoot \<Rightarrow> RoutePaths \<Rightarrow> bytes option \<Rightarrow> host \<Rightarrow> 'r activation" where
  "swap_in reload root paths current h =
     (case (case current of None \<Rightarrow> (Ok (), h) | Some previous \<Rightarrow> write_atomic root (rp_backup paths) previous h) of
        (Inl e, h) \<Rightarrow> (Err (AE_Io e), discard root (rp_staged paths) h)
      | (Inr _, h) \<Rightarrow>
          (case rename root (rp_staged paths) (rp_live paths) h of
             (Inl e, h) \<Rightarrow> (Err (AE_Io e), discard root (rp_backup paths) (discard root (rp_staged paths) h))
           | (Inr _, h) \<Rightarrow> reload_or_restore reload root paths current h))"

definition activate_sequence ::
  "sha256 \<Rightarrow> (host \<Rightarrow> ('r ActivationError + unit) \<times> host) \<Rightarrow> 'r step \<Rightarrow> ManagedRoot \<Rightarrow> RoutePaths \<Rightarrow> bytes \<Rightarrow> HashGuard
    \<Rightarrow> host \<Rightarrow> 'r activation" where
  "activate_sequence sha check_staged reload root paths content guard h =
     try_io (read_optional root (rp_live paths) h) id (\<lambda>current h.
       if \<not> is_satisfied_by sha guard current then (Err HashGuardMismatch, h)
       else if current = Some content then
         try_io (reload h) ReloadFailedUnchanged (\<lambda>_ h. (Ok \<lparr> activated = False \<rparr>, h))
       else try_io (write_atomic root (rp_staged paths) content h) AE_Io (\<lambda>_ h.
         (case check_staged h of
            (Inl e, h) \<Rightarrow> (Err e, discard root (rp_staged paths) h)
          | (Inr _, h) \<Rightarrow> swap_in reload root paths current h)))"

section \<open>The route of a domain\<close>

definition INGRESS_SERVICE :: string where "INGRESS_SERVICE = ''ingress''"
definition LIVE_CONFIG_PATH :: string where "LIVE_CONFIG_PATH = ''/etc/caddy/Caddyfile''"

definition caddy_validate ::
  "programs \<Rightarrow> account \<Rightarrow> Access \<Rightarrow> string \<Rightarrow> string \<Rightarrow> ComposeError step" where
  "caddy_validate P a access service staged h =
     check_output ''caddy validate''
       (Access_exec P a access service [''caddy'', ''validate'', ''--config'', staged, ''--adapter'', ''caddyfile''] h)"

definition caddy_reload :: "programs \<Rightarrow> account \<Rightarrow> Access \<Rightarrow> string \<Rightarrow> ComposeError step" where
  "caddy_reload P a access service h =
     check_output ''caddy reload''
       (Access_exec P a access service [''caddy'', ''reload'', ''--config'', LIVE_CONFIG_PATH, ''--adapter'', ''caddyfile''] h)"

definition check_route ::
  "programs \<Rightarrow> account \<Rightarrow> Access \<Rightarrow> path \<Rightarrow> path \<Rightarrow> host \<Rightarrow> (ComposeError ActivationError + unit) \<times> host" where
  "check_route P a access ingress_dir staged h =
     try_io (resolve_existing_path ingress_dir staged h) AE_Path (\<lambda>p h.
       if \<not> utf8_ok (path_text p) then (Err (AE_Path PathResolutionFailed), h)
       else try_io (caddy_validate P a access INGRESS_SERVICE (path_text p) h) ValidateFailed (\<lambda>_ h. (Ok (), h)))"

definition activate_live ::
  "sha256 \<Rightarrow> programs \<Rightarrow> account \<Rightarrow> Access \<Rightarrow> path \<Rightarrow> string \<Rightarrow> bytes \<Rightarrow> HashGuard \<Rightarrow> string \<Rightarrow> host \<Rightarrow> ComposeError activation" where
  "activate_live sha P a access ingress_dir domain content guard backup_suffix h =
     try_io (ManagedRoot_open ingress_dir h) AE_Io (\<lambda>root h.
       let paths = RoutePaths_new (ingress_route_path domain) backup_suffix in
       activate_sequence sha (check_route P a access ingress_dir (rp_staged paths)) (caddy_reload P a access INGRESS_SERVICE)
         root paths content guard h)"

definition activate_backup ::
  "sha256 \<Rightarrow> path \<Rightarrow> string \<Rightarrow> bytes \<Rightarrow> HashGuard \<Rightarrow> host \<Rightarrow> ComposeError activation" where
  "activate_backup sha ingress_dir domain content guard h =
     try_io (ManagedRoot_open ingress_dir h) AE_Io (\<lambda>root h.
     try_io (read_optional root (backup_route_path domain) h) id (\<lambda>current h.
       if \<not> is_satisfied_by sha guard current then (Err HashGuardMismatch, h)
       else if current = Some content then (Ok \<lparr> activated = False \<rparr>, h)
       else try_io (write_atomic root (backup_route_path domain) content h) AE_Io (\<lambda>_ h. (Ok \<lparr> activated = True \<rparr>, h))))"

definition ingress_activate ::
  "sha256 \<Rightarrow> programs \<Rightarrow> account \<Rightarrow> Access \<Rightarrow> path \<Rightarrow> string \<Rightarrow> bytes \<Rightarrow> HashGuard \<Rightarrow> RouteTarget \<Rightarrow> string \<Rightarrow> host
    \<Rightarrow> ComposeError activation" where
  "ingress_activate sha P a access ingress_dir domain content guard target backup_suffix h =
     (case target of
        Live \<Rightarrow> activate_live sha P a access ingress_dir domain content guard backup_suffix h
      | Backup \<Rightarrow> activate_backup sha ingress_dir domain content guard h)"

section \<open>The fragment of a runtime pool\<close>

definition RUNTIME_CONTAINER_CONFIG_DIR :: string where "RUNTIME_CONTAINER_CONFIG_DIR = ''/etc/wcp/runtime.d''"

definition runtime_service_name :: "string \<Rightarrow> string" where
  "runtime_service_name i = ''runtime-'' @ i"

definition check_fragment ::
  "programs \<Rightarrow> account \<Rightarrow> Access \<Rightarrow> path \<Rightarrow> string \<Rightarrow> string \<Rightarrow> path \<Rightarrow> host \<Rightarrow> (ComposeError ActivationError + unit) \<times> host" where
  "check_fragment P a access runtime_dir service domain staged h =
     try_io (resolve_existing_path runtime_dir staged h) AE_Path (\<lambda>_ h.
     try_io (caddy_validate P a access service (RUNTIME_CONTAINER_CONFIG_DIR @ ''/'' @ domain @ ''.caddyfile.tmp'') h)
       ValidateFailed (\<lambda>_ h. (Ok (), h)))"

definition runtime_activate ::
  "sha256 \<Rightarrow> programs \<Rightarrow> account \<Rightarrow> Access \<Rightarrow> path \<Rightarrow> string \<Rightarrow> string \<Rightarrow> bytes \<Rightarrow> HashGuard \<Rightarrow> string \<Rightarrow> host
    \<Rightarrow> ComposeError activation" where
  "runtime_activate sha P a access runtime_dir runtime_id domain content guard backup_suffix h =
     try_io (ManagedRoot_open runtime_dir h) AE_Io (\<lambda>root h.
       let paths = RoutePaths_new (runtime_route_path runtime_id domain) backup_suffix;
           service = runtime_service_name runtime_id in
       try_io (create_dir_all root (expect_path runtime_id) h) AE_Io (\<lambda>_ h.
         activate_sequence sha (check_fragment P a access runtime_dir service domain (rp_staged paths))
           (caddy_reload P a access service) root paths content guard h))"

section \<open>The file of a Compose stack\<close>

definition docker_compose ::
  "programs \<Rightarrow> string list \<Rightarrow> string option \<Rightarrow> host \<Rightarrow> (ProcessRunError + ProcessOutput) \<times> host" where
  "docker_compose P args docker_path h =
     run P (with_path docker_path (with_args (''compose'' # args) (ProcessRequest_new ''docker''))) (limits_of 60 (64 * 1024)) h"

definition unprintable :: "string \<Rightarrow> SubprocessDiagnostics" where
  "unprintable program = \<lparr> sd_program = program, sd_exit_code = None, sd_timed_out = False, sd_cancelled = False,
     sd_stdout_truncated = False, sd_stderr_truncated = False \<rparr>"

definition config_check :: "programs \<Rightarrow> path \<Rightarrow> string option \<Rightarrow> ProcessRunError step" where
  "config_check P staged_path docker_path h =
     (if \<not> utf8_ok (path_text staged_path) then (Err (CF_Rejected (unprintable ''docker compose config'')), h)
      else check_output ''docker compose config'' (docker_compose P [''-f'', path_text staged_path, ''config''] docker_path h))"

definition up :: "programs \<Rightarrow> path \<Rightarrow> string option \<Rightarrow> ProcessRunError step" where
  "up P live_path docker_path h =
     (if \<not> utf8_ok (path_text live_path) then (Err (CF_Rejected (unprintable ''docker compose up'')), h)
      else check_output ''docker compose up'' (docker_compose P [''-f'', path_text live_path, ''up'', ''-d''] docker_path h))"

definition check_stack_file ::
  "programs \<Rightarrow> string option \<Rightarrow> path \<Rightarrow> path \<Rightarrow> host \<Rightarrow> (ProcessRunError ActivationError + unit) \<times> host" where
  "check_stack_file P docker_path compose_dir staged h =
     try_io (resolve_existing_path compose_dir staged h) AE_Path (\<lambda>p h.
     try_io (config_check P p docker_path h) ValidateFailed (\<lambda>_ h. (Ok (), h)))"

definition compose_activate ::
  "sha256 \<Rightarrow> programs \<Rightarrow> string option \<Rightarrow> path \<Rightarrow> string \<Rightarrow> bytes \<Rightarrow> HashGuard \<Rightarrow> string \<Rightarrow> host
    \<Rightarrow> ProcessRunError activation" where
  "compose_activate sha P docker_path compose_dir stack_name content guard backup_suffix h =
     try_io (ManagedRoot_open compose_dir h) AE_Io (\<lambda>root h.
       let paths = RoutePaths_new (compose_route_path stack_name) backup_suffix in
       try_io (create_dir_all root (expect_path stack_name) h) AE_Io (\<lambda>_ h.
         activate_sequence sha (check_stack_file P docker_path compose_dir (rp_staged paths))
           (up P (TrustedRoot_join compose_dir (rp_live paths)) docker_path) root paths content guard h))"

section \<open>All or nothing\<close>

text \<open>
  What an activation of \<open>content\<close> at \<open>live\<close> may end in. Only when the previous file could not be put back
  does an error leave the new content in place.
\<close>

definition live_after :: "bytes \<Rightarrow> node option \<Rightarrow> path \<Rightarrow> 'r activation \<Rightarrow> bool" where
  "live_after content old live out =
     (case fst out of
        Inr a \<Rightarrow> activated a = (old \<noteq> Some (File content)) \<and> node_at (snd out) live = Some (File content)
      | Inl e \<Rightarrow> node_at (snd out) live = (case e of RecoveryFailed _ (RF_File _) \<Rightarrow> Some (File content) | _ \<Rightarrow> old))"

definition touched :: "ManagedRoot \<Rightarrow> RoutePaths \<Rightarrow> path set" where
  "touched root paths = (\<Union>p \<in> {rp_staged paths, rp_backup paths}. {root @ p, root @ butlast p @ [last p @ ''.tmp'']})
     \<union> {root @ rp_live paths}"

definition siblings :: "RoutePaths \<Rightarrow> bool" where
  "siblings paths \<longleftrightarrow> (\<exists>d n s. paths = \<lparr> rp_live = d @ [n], rp_staged = d @ [n @ ''.tmp''], rp_backup = d @ [n @ ''.rollback-'' @ s] \<rparr>)"

lemma siblings_distinct:
  assumes "siblings paths"
  shows "rp_live paths \<noteq> rp_staged paths" "rp_live paths \<noteq> rp_backup paths" "rp_staged paths \<noteq> rp_backup paths"
    and "rp_live paths \<noteq> []" "rp_staged paths \<noteq> []" "rp_backup paths \<noteq> []"
    and "rp_live paths \<noteq> butlast (rp_staged paths) @ [last (rp_staged paths) @ ''.tmp'']"
    and "rp_live paths \<noteq> butlast (rp_backup paths) @ [last (rp_backup paths) @ ''.tmp'']"
    and "rp_staged paths \<noteq> butlast (rp_backup paths) @ [last (rp_backup paths) @ ''.tmp'']"
    and "rp_backup paths \<noteq> butlast (rp_staged paths) @ [last (rp_staged paths) @ ''.tmp'']"
  using assms by (auto simp: siblings_def)

lemma rename_Ok_node:
  assumes "rename root p q h = (Ok x, h')" and "p \<noteq> q"
  shows "node_at h (root @ p) \<noteq> None" and "node_at h' (root @ q) = node_at h (root @ p)"
  using assms by (auto simp: rename_def rename_node_def io_call_def split: if_splits option.splits node.splits)

lemma rename_Err_node: "rename root p q h = (Err e, h') \<Longrightarrow> node_at h' = node_at h"
  by (auto simp: rename_def rename_node_def io_call_def split: if_splits option.splits node.splits)

lemma rename_frame: "r \<noteq> root @ p \<Longrightarrow> r \<noteq> root @ q \<Longrightarrow> node_at (snd (rename root p q h)) r = node_at h r"
  by (auto simp: rename_def rename_node_def io_call_def split: option.splits node.splits)

lemma remove_file_Err: "remove_file root p h = (Err e, h') \<Longrightarrow> node_at h' = node_at h"
  by (auto simp: remove_file_def io_call_def split: if_splits option.splits node.splits)

lemma node_discard [simp]: "q \<noteq> root @ p \<Longrightarrow> node_at (discard root p h) q = node_at h q"
  by (simp add: discard_def remove_file_frame)

lemma kept_tick: "kept A w (next_tick w)"
  using kept_read[of "((), next_tick w)" w A] by simp

lemma kept_case:
  assumes "kept A h (snd r)" and "\<And>e w. r = (Inl e, w) \<Longrightarrow> kept A w (snd (f e w))"
    and "\<And>x w. r = (Inr x, w) \<Longrightarrow> kept A w (snd (g x w))"
  shows "kept A h (snd (case r of (Inl e, w) \<Rightarrow> f e w | (Inr x, w) \<Rightarrow> g x w))"
  using assms by (cases r rule: prod.exhaust, rename_tac a b, case_tac a) (auto intro: kept_trans)

lemma read_optional_cases:
  obtains (failed) e where "read_optional root p h = (Err (AE_Io e), next_tick h)"
  | (absent) "read_optional root p h = (Ok None, next_tick h)" and "node_at h (root @ p) = None"
  | (present) b where "read_optional root p h = (Ok (Some b), next_tick h)" and "node_at h (root @ p) = Some (File b)"
proof (cases "fails h (tick h)")
  case True
  then show ?thesis by (intro failed[of IoOther]) (simp add: read_optional_def read_bytes_def io_call_def)
next
  case False
  consider "node_at h (root @ p) = None" | b where "node_at h (root @ p) = Some (File b)"
    | n where "node_at h (root @ p) = Some n" "n = Dir \<or> (\<exists>t. n = Symlink t)"
    by (metis node.exhaust option.exhaust)
  then show ?thesis
  proof cases
    case 1
    with False show ?thesis by (intro absent) (simp_all add: read_optional_def read_bytes_def io_call_def)
  next
    case (2 b)
    with False show ?thesis by (intro present[of b]) (simp_all add: read_optional_def read_bytes_def io_call_def)
  next
    case (3 n)
    with False show ?thesis by (intro failed[of IoOther]) (auto simp: read_optional_def read_bytes_def io_call_def)
  qed
qed

text \<open>What an activation promises: its own files and the area of the programs apart, nothing changes.\<close>

definition activation_effect ::
  "sha256 \<Rightarrow> (path \<Rightarrow> bool) \<Rightarrow> ManagedRoot \<Rightarrow> path \<Rightarrow> bytes \<Rightarrow> HashGuard \<Rightarrow> host \<Rightarrow> 'r activation \<Rightarrow> bool" where
  "activation_effect sha A root live content guard h out \<longleftrightarrow>
     live_after content (node_at h (root @ live)) (root @ live) out \<and> kept A h (snd out) \<and>
     ((\<exists>x. fst out = Ok x) \<longrightarrow> is_satisfied_by sha guard (file_at root h live)) \<and>
     (fst out = Err HashGuardMismatch \<longrightarrow> \<not> is_satisfied_by sha guard (file_at root h live))"

lemma activation_effect_early:
  "kept A h h' \<Longrightarrow> node_at h' (root @ live) = node_at h (root @ live) \<Longrightarrow>
     activation_effect sha A root live content guard h (Err (AE_Io e), h')"
  by (simp add: activation_effect_def live_after_def)

lemma activation_effect_later:
  assumes "activation_effect sha A root live content guard h1 out" and "kept A h h1"
    and "node_at h1 (root @ live) = node_at h (root @ live)"
  shows "activation_effect sha A root live content guard h out"
  using assms kept_trans[OF assms(2)] by (auto simp: activation_effect_def file_at_def)

locale reloader =
  fixes check_staged :: "programs \<Rightarrow> host \<Rightarrow> ('r ActivationError + unit) \<times> host" and reload :: "programs \<Rightarrow> 'r step"
  assumes check_keeps: "confined A P \<Longrightarrow> kept A h (snd (check_staged P h))"
    and reload_keeps: "confined A P \<Longrightarrow> kept A h (snd (reload P h))"
    and check_errors: "check_staged P h = (Err e, h') \<Longrightarrow> (\<exists>v. e = AE_Path v) \<or> (\<exists>f. e = ValidateFailed f)"
begin

lemma read_cases:
  obtains (failed) e where "read_optional root p h = ((Err (AE_Io e), next_tick h) :: ('r ActivationError + bytes option) \<times> host)"
  | (absent) "read_optional root p h = ((Ok None, next_tick h) :: ('r ActivationError + bytes option) \<times> host)" and "node_at h (root @ p) = None"
  | (present) b where "read_optional root p h = ((Ok (Some b), next_tick h) :: ('r ActivationError + bytes option) \<times> host)"
      and "node_at h (root @ p) = Some (File b)"
  by (rule read_optional_cases)

lemma reload_node: "confined A P \<Longrightarrow> reload P h = (r, h') \<Longrightarrow> \<not> A q \<Longrightarrow> node_at h' q = node_at h q"
  using kept_node_at[OF reload_keeps[of A P h]] by simp

lemma restore_outcome:
  assumes conf: "confined A P" and "siblings paths" and free: "\<not> A (root @ rp_live paths)" "\<not> A (root @ rp_backup paths)"
    and "node_at h (root @ rp_live paths) = Some (File content)" and "old \<noteq> Some (File content)"
    and "case current of None \<Rightarrow> old = None | Some b \<Rightarrow> old = Some (File b) \<and> node_at h (root @ rp_backup paths) = old"
  shows "live_after content old (root @ rp_live paths) (reload_or_restore (reload P) root paths current h)"
proof -
  note d = siblings_distinct[OF assms(2)]
  obtain r1 h1 where r1: "reload P h = (r1, h1)" by (cases "reload P h")
  have live1: "node_at h1 (root @ rp_live paths) = Some (File content)" using reload_node[OF conf r1 free(1)] assms(5) by simp
  show ?thesis
  proof (cases r1)
    case (Inr u)
    then show ?thesis using r1 live1 d(2) assms(6) by (simp add: reload_or_restore_def live_after_def)
  next
    case (Inl failure)
    define putback where "putback = (if current \<noteq> None then rename root (rp_backup paths) (rp_live paths) h1
                  else remove_file root (rp_live paths) h1)"
    obtain r2 h2 where r2: "putback = (r2, h2)" by (cases putback)
    have restored: "node_at h2 (root @ rp_live paths) = old" if "r2 = Ok y" for y
    proof (cases current)
      case None
      then show ?thesis using that r2 assms(7) remove_file_Ok[of root "rp_live paths" h1 h2] by (simp add: putback_def)
    next
      case (Some b)
      have "node_at h1 (root @ rp_backup paths) = old" using reload_node[OF conf r1 free(2)] assms(7) Some by simp
      then show ?thesis
        using that r2 Some rename_Ok_node(2)[of root "rp_backup paths" "rp_live paths" h1 y h2] d(2) by (simp add: putback_def)
    qed
    have failed: "node_at h2 (root @ rp_live paths) = Some (File content)" if "r2 = Err e" for e
      using that r2 live1 rename_Err_node[of root "rp_backup paths" "rp_live paths" h1 e h2]
        remove_file_Err[of root "rp_live paths" h1 e h2]
      by (auto simp: putback_def split: if_splits)
    obtain r3 h3 where r3: "reload P h2 = (r3, h3)" by (cases "reload P h2")
    have "reload_or_restore (reload P) root paths current h = try_io putback (\<lambda>e. RecoveryFailed failure (RF_File e)) (\<lambda>_ h.
          try_io (reload P h) (\<lambda>second. RecoveryFailed failure (RF_Reload second)) (\<lambda>_ h.
            (Err (ReloadFailedAndRestored failure), h)))"
      using r1 Inl by (simp add: reload_or_restore_def putback_def)
    then show ?thesis
      using r2 r3 restored failed reload_node[OF conf r3 free(1)]
      by (cases r2; cases r3) (auto simp: live_after_def)
  qed
qed

lemma swap_outcome:
  assumes conf: "confined A P" and "siblings paths" and free: "\<not> A (root @ rp_live paths)" "\<not> A (root @ rp_backup paths)"
    and staged: "node_at h (root @ rp_staged paths) = Some (File content)" and live: "node_at h (root @ rp_live paths) = old"
    and "old \<noteq> Some (File content)" and cur: "case current of None \<Rightarrow> old = None | Some b \<Rightarrow> old = Some (File b)"
  shows "live_after content old (root @ rp_live paths) (swap_in (reload P) root paths current h)"
proof -
  note d = siblings_distinct[OF assms(2)]
  define save where "save = (case current of None \<Rightarrow> (Ok (), h) | Some previous \<Rightarrow> write_atomic root (rp_backup paths) previous h)"
  obtain r1 h1 where r1: "save = (r1, h1)" by (cases save)
  have same: "node_at h1 q = node_at h q" if "q \<in> {root @ rp_live paths, root @ rp_staged paths}" for q
    using that r1 d write_atomic_frame[of "rp_backup paths" q root "the current" h] by (cases current) (auto simp: save_def)
  have saved: "case current of None \<Rightarrow> old = None | Some b \<Rightarrow> old = Some (File b) \<and> node_at h1 (root @ rp_backup paths) = old"
    if "r1 = Ok u" for u
    using that r1 cur write_atomic_result(2)[OF d(6), of root "the current" h] by (cases current) (auto simp: save_def)
  obtain r2 h2 where r2: "rename root (rp_staged paths) (rp_live paths) h1 = (r2, h2)"
    by (cases "rename root (rp_staged paths) (rp_live paths) h1")
  have unfold: "swap_in (reload P) root paths current h = (case r1 of
      Inl e \<Rightarrow> (Err (AE_Io e), discard root (rp_staged paths) h1)
    | Inr _ \<Rightarrow> (case r2 of
         Inl e \<Rightarrow> (Err (AE_Io e), discard root (rp_backup paths) (discard root (rp_staged paths) h2))
       | Inr _ \<Rightarrow> reload_or_restore (reload P) root paths current h2))"
    using r1 r2 by (simp add: swap_in_def save_def split: sum.split)
  show ?thesis
  proof (cases "(\<exists>u. r1 = Ok u) \<and> (\<exists>u. r2 = Ok u)")
    case True
    then obtain u v where uv: "r1 = Ok u" "r2 = Ok v" by blast
    have "node_at h2 (root @ rp_live paths) = Some (File content)"
      using rename_Ok_node(2)[OF r2[unfolded uv]] d(1) same staged by simp
    moreover have "node_at h2 (root @ rp_backup paths) = node_at h1 (root @ rp_backup paths)"
      using rename_frame[of "root @ rp_backup paths" root "rp_staged paths" "rp_live paths" h1] r2 d by simp
    ultimately have "live_after content old (root @ rp_live paths) (reload_or_restore (reload P) root paths current h2)"
      using restore_outcome[OF conf assms(2) free, of h2 content old current] saved[OF uv(1)] assms(7)
      by (cases current) simp_all
    then show ?thesis using uv by (simp add: unfold)
  next
    case False
    then have "node_at (snd (swap_in (reload P) root paths current h)) (root @ rp_live paths) = node_at h1 (root @ rp_live paths)"
        "\<exists>e. fst (swap_in (reload P) root paths current h) = Err (AE_Io e)"
      using d rename_Err_node[of root "rp_staged paths" "rp_live paths" h1 _ h2] r2
      by (auto simp: unfold split: sum.split)
    then show ?thesis using same live by (auto simp: live_after_def)
  qed
qed

lemma restore_no_mismatch: "fst (reload_or_restore (reload P) root paths current h) \<noteq> Err HashGuardMismatch"
  by (auto simp: reload_or_restore_def try_io_def split: prod.split sum.split)

lemma swap_no_mismatch: "fst (swap_in (reload P) root paths current h) \<noteq> Err HashGuardMismatch"
  using restore_no_mismatch by (auto simp: swap_in_def split: prod.split sum.split)

lemma sequence_outcome:
  assumes conf: "confined A P" and "siblings paths" and free: "\<not> A (root @ rp_live paths)" "\<not> A (root @ rp_backup paths)" "\<not> A (root @ rp_staged paths)"
    and seq: "activate_sequence sha (check_staged P) (reload P) root paths content guard h = (res, h')"
  shows "live_after content (node_at h (root @ rp_live paths)) (root @ rp_live paths) (res, h')"
    and "(\<exists>x. res = Ok x) \<or> res = Err HashGuardMismatch \<Longrightarrow>
      is_satisfied_by sha guard (file_at root h (rp_live paths)) = (res \<noteq> Err HashGuardMismatch)"
proof -
  let ?live = "root @ rp_live paths"
  note d = siblings_distinct[OF assms(2)]
  have step: "live_after content (node_at h ?live) ?live (res, h') \<and>
      ((\<exists>x. res = Ok x) \<or> res = Err HashGuardMismatch \<longrightarrow> is_satisfied_by sha guard current = (res \<noteq> Err HashGuardMismatch))"
    if read: "read_optional root (rp_live paths) h = ((Ok current, next_tick h) :: ('r ActivationError + bytes option) \<times> host)"
      and cur: "case current of None \<Rightarrow> node_at h ?live = None | Some b \<Rightarrow> node_at h ?live = Some (File b)" for current
  proof (cases "is_satisfied_by sha guard current \<and> current \<noteq> Some content")
    case False
    obtain r1 h1 where r1: "reload P (next_tick h) = (r1, h1)" by (cases "reload P (next_tick h)")
    show ?thesis
      using False seq read cur r1 reload_node[OF conf r1 free(1)]
      by (cases r1) (auto simp: activate_sequence_def live_after_def split: if_splits)
  next
    case True
    obtain r1 h1 where r1: "write_atomic root (rp_staged paths) content (next_tick h) = (r1, h1)"
      by (cases "write_atomic root (rp_staged paths) content (next_tick h)")
    have live1: "node_at h1 ?live = node_at h ?live"
      using write_atomic_frame[of "rp_staged paths" ?live root content "next_tick h"] d r1 by simp
    obtain r2 h2 where r2: "check_staged P h1 = (r2, h2)" by (cases "check_staged P h1")
    have check: "node_at h2 q = node_at h1 q" if "\<not> A q" for q using kept_node_at[OF check_keeps[OF conf, of h1] that] r2 by simp
    show ?thesis
    proof (cases "r1 = Ok () \<and> r2 = Ok ()")
      case both: True
      have eq: "swap_in (reload P) root paths current h2 = (res, h')"
        using both True seq read r1 r2 by (simp add: activate_sequence_def)
      have "node_at h2 (root @ rp_staged paths) = Some (File content)"
        using write_atomic_result(2)[OF d(5), of root content "next_tick h"] r1 both check[OF free(3)] by simp
      from swap_outcome[OF conf assms(2) free(1,2) this refl, of current] have "live_after content (node_at h ?live) ?live (res, h')"
        using True cur check[OF free(1)] live1 eq by (cases current) auto
      moreover have "res \<noteq> Err HashGuardMismatch"
        using swap_no_mismatch[of P root paths current h2] eq by simp
      ultimately show ?thesis using True by simp
    next
      case False
      have "\<exists>e. res = Err e \<and> ((\<exists>i. e = AE_Io i) \<or> (\<exists>v. e = AE_Path v) \<or> (\<exists>f. e = ValidateFailed f))
          \<and> node_at h' ?live = node_at h ?live"
      proof (cases r1)
        case (Inl e)
        then show ?thesis using True seq read r1 live1 by (auto simp: activate_sequence_def)
      next
        case (Inr u)
        then obtain e where e: "r2 = Err e" using False by (cases r2) auto
        then have "res = Err e" "h' = discard root (rp_staged paths) h2"
          using Inr True seq read r1 r2 by (auto simp: activate_sequence_def)
        then show ?thesis using check_errors[OF r2[unfolded e]] check[OF free(1)] live1 d by auto
      qed
      then show ?thesis by (auto simp: live_after_def)
    qed
  qed
  show "live_after content (node_at h ?live) ?live (res, h')"
    by (cases rule: read_cases[of root "rp_live paths" h])
       (use seq step in \<open>auto simp: activate_sequence_def live_after_def\<close>)
  show "is_satisfied_by sha guard (file_at root h (rp_live paths)) = (res \<noteq> Err HashGuardMismatch)"
    if "(\<exists>x. res = Ok x) \<or> res = Err HashGuardMismatch"
    by (cases rule: read_cases[of root "rp_live paths" h])
       (use seq step that in \<open>auto simp: activate_sequence_def file_at_def\<close>)
qed

lemma sequence_kept:
  assumes conf: "confined A P" and "siblings paths"
  shows "kept (\<lambda>q. A q \<or> q \<in> touched root paths) h (snd (activate_sequence sha (check_staged P) (reload P) root paths content guard h))"
proof -
  let ?K = "kept (\<lambda>q. A q \<or> q \<in> touched root paths)"
  note d = siblings_distinct[OF assms(2)]
  have wr: "?K w (snd (write_atomic root p c w))" if "p \<in> {rp_staged paths, rp_backup paths}" for p c w
    using that d by (intro kept_node) (auto simp: touched_def intro!: write_atomic_frame)
  have rm: "?K w (snd (remove_file root p w))" "?K w (discard root p w)"
    if "p \<in> {rp_live paths, rp_staged paths, rp_backup paths}" for p w
    using that by (auto simp: discard_def touched_def intro!: kept_node remove_file_frame)
  have mv: "?K w (snd (rename root p q w))"
    if "p \<in> {rp_staged paths, rp_backup paths}" "q = rp_live paths" for p q w
    using that by (auto simp: touched_def intro!: kept_node rename_frame)
  have rl: "?K w (snd (reload P w))" "?K w (snd (check_staged P w))" for w
    by (auto intro: kept_mono[OF reload_keeps[OF conf]] kept_mono[OF check_keeps[OF conf]])
  have rd: "?K w (snd (read_optional root p w :: ('r ActivationError + bytes option) \<times> host))" for p w
    by (cases rule: read_cases[of root p w]) (simp_all add: kept_tick)
  have restore: "?K w (snd (reload_or_restore (reload P) root paths current w))" for current w
    unfolding reload_or_restore_def by (intro kept_case kept_try_io) (auto intro: rl rm mv)
  have swap: "?K w (snd (swap_in (reload P) root paths current w))" for current w
    unfolding swap_in_def
    by (intro kept_case) (auto intro: wr mv restore rm kept_trans[OF rm(2) rm(2)] split: option.split)
  show ?thesis
    unfolding activate_sequence_def by (auto intro!: kept_try_io kept_case rd rl wr rm swap)
qed

lemma sequence_effect:
  assumes "confined A P" and "siblings paths"
    and "\<And>p. p \<in> {rp_live paths, rp_staged paths, rp_backup paths} \<Longrightarrow> \<not> A (root @ p)"
  shows "activation_effect sha (\<lambda>q. A q \<or> q \<in> touched root paths) root (rp_live paths) content guard h
    (activate_sequence sha (check_staged P) (reload P) root paths content guard h)"
proof -
  let ?out = "activate_sequence sha (check_staged P) (reload P) root paths content guard h"
  note out = sequence_outcome[OF assms(1,2) _ _ _ surjective_pairing[of ?out]]
  show ?thesis
    using out assms(3) sequence_kept[OF assms(1,2), of root h sha content guard]
    by (auto simp: activation_effect_def)
qed

end

section \<open>The three operations\<close>

lemma join_with_last: "join_with slash (d @ [n]) @ suffix = join_with slash (d @ [n @ suffix])"
proof (induction d)
  case (Cons x d)
  then show ?case by (cases d) auto
qed simp

lemma sibling_path:
  assumes "list_all safe_component d" and "safe_component (n @ suffix)"
  shows "sibling (d @ [n]) suffix = d @ [n @ suffix]"
  using expect_path_join[of "d @ [n @ suffix]"] assms by (simp add: sibling_def join_with_last)

lemma RoutePaths_siblings:
  assumes "list_all safe_component d" and "list_all name_char n" and "2 < length n" and "uuid_wf suffix"
  shows "siblings (RoutePaths_new (d @ [n]) suffix)"
proof -
  have "list_all name_char ''.tmp''" "list_all name_char ''.rollback-''" by (simp_all add: name_char_def)
  then have "safe_component (n @ ''.tmp'')" "safe_component (n @ ''.rollback-'' @ suffix)"
    using assms(2,3) uuid_wf_name_chars[OF assms(4)] by (intro safe_componentI; simp)+
  then show ?thesis using assms(1) by (auto simp: siblings_def RoutePaths_new_def sibling_path)
qed

lemma kept_check_output: "kept A h (snd res) \<Longrightarrow> kept A h (snd (check_output program res))"
  unfolding check_output_def by (rule kept_try_io) auto

lemma kept_exec: "confined A P \<Longrightarrow> kept A h (snd (Access_exec P a access service args h))"
  unfolding Access_exec_def exec_inner_def by (auto intro!: kept_try_io kept_run split: sum.split)

lemma kept_caddy:
  "confined A P \<Longrightarrow> kept A h (snd (caddy_validate P a access service staged h))"
  "confined A P \<Longrightarrow> kept A h (snd (caddy_reload P a access service h))"
  unfolding caddy_validate_def caddy_reload_def by (auto intro: kept_check_output kept_exec)

lemma kept_resolve_existing: "kept A h (snd (resolve_existing_path root p h))"
  by (rule kept_read) simp_all

lemma kept_docker: "confined A P \<Longrightarrow> kept A h (snd (docker_compose P args docker_path h))"
  unfolding docker_compose_def by (rule kept_run)

lemma kept_stack_steps:
  "confined A P \<Longrightarrow> kept A h (snd (config_check P p docker_path h))"
  "confined A P \<Longrightarrow> kept A h (snd (up P p docker_path h))"
  unfolding config_check_def up_def by (auto intro: kept_check_output kept_docker)

interpretation ingress: reloader "\<lambda>P. check_route P a access root staged" "\<lambda>P. caddy_reload P a access service"
  for a access root staged service
proof
  show "confined A P \<Longrightarrow> kept A h (snd (check_route P a access root staged h))" for A P h
    unfolding check_route_def by (auto intro!: kept_try_io kept_resolve_existing kept_caddy)
  show "check_route P a access root staged h = (Err e, h') \<Longrightarrow> (\<exists>v. e = AE_Path v) \<or> (\<exists>f. e = ValidateFailed f)" for P h e h'
    by (auto simp: check_route_def try_io_def split: prod.splits sum.splits if_splits)
qed (rule kept_caddy)

interpretation runtime: reloader "\<lambda>P. check_fragment P a access root service domain staged" "\<lambda>P. caddy_reload P a access service"
  for a access root service domain staged
proof
  show "confined A P \<Longrightarrow> kept A h (snd (check_fragment P a access root service domain staged h))" for A P h
    unfolding check_fragment_def by (auto intro!: kept_try_io kept_resolve_existing kept_caddy)
  show "check_fragment P a access root service domain staged h = (Err e, h') \<Longrightarrow> (\<exists>v. e = AE_Path v) \<or> (\<exists>f. e = ValidateFailed f)" for P h e h'
    by (auto simp: check_fragment_def try_io_def split: prod.splits sum.splits)
qed (rule kept_caddy)

interpretation stack: reloader "\<lambda>P. check_stack_file P docker_path root staged" "\<lambda>P. up P live docker_path"
  for docker_path root staged live
proof
  show "confined A P \<Longrightarrow> kept A h (snd (check_stack_file P docker_path root staged h))" for A P h
    unfolding check_stack_file_def by (auto intro!: kept_try_io kept_resolve_existing kept_stack_steps)
  show "check_stack_file P docker_path root staged h = (Err e, h') \<Longrightarrow> (\<exists>v. e = AE_Path v) \<or> (\<exists>f. e = ValidateFailed f)" for P h e h'
    by (auto simp: check_stack_file_def try_io_def split: prod.splits sum.splits)
qed (rule kept_stack_steps)

lemma open_root_kept: "kept A h (snd (ManagedRoot_open root h))" "node_at (snd (ManagedRoot_open root h)) = node_at h"
  by (auto simp: ManagedRoot_open_def intro: kept_read)

text \<open>A sequence that opens its root and, for two of the operations, makes the directory of the file.\<close>

lemma opened_effect:
  assumes "\<And>h. activation_effect sha A root live content guard h (k root h)"
  shows "activation_effect sha A root live content guard h (try_io (ManagedRoot_open root h) AE_Io k)"
proof (cases rule: try_io_cases[of "ManagedRoot_open root h" AE_Io k])
  case (error e w)
  then show ?thesis
    using open_root_kept[where root = root and h = h] by (auto intro!: activation_effect_early)
next
  case (ok r w)
  then have r: "r = root" using open_managed_Ok[of root "[]" h r w] by (simp add: ManagedRoot_open_def)
  have "kept A h w" "node_at w = node_at h" using open_root_kept[where root = root and h = h] ok(1) by simp_all
  then show ?thesis unfolding ok(2) r by (intro activation_effect_later[OF assms[of w]]) simp_all
qed

lemma in_directory_effect:
  assumes "\<And>h. activation_effect sha A root (d # live) content guard h (k () h)" and "live \<noteq> []" and "A (root @ [d])"
  shows "activation_effect sha A root (d # live) content guard h (try_io (create_dir_all root [d] h) AE_Io k)"
proof -
  have frame: "node_at (snd (create_dir_all root [d] h)) q = node_at h q" if "q \<noteq> root @ [d]" for q
    using that by (auto intro!: create_dir_all_frame simp: Cons_eq_append_conv)
  then have kept: "kept A h (snd (create_dir_all root [d] h))" 
    using assms(3) by (intro kept_node) (simp, metis)
  have same: "node_at (snd (create_dir_all root [d] h)) (root @ d # live) = node_at h (root @ d # live)"
    using frame assms(2) by simp
  show ?thesis
  proof (cases rule: try_io_cases[of "create_dir_all root [d] h" AE_Io k])
    case (error e w)
    then show ?thesis using kept same by (auto intro!: activation_effect_early)
  next
    case (ok u w)
    then show ?thesis using kept same assms(1) by (auto intro: activation_effect_later)
  qed
qed

text \<open>The places of the three files, from accepted names.\<close>

lemma domain_file: "Domain_parse v = Ok domain \<Longrightarrow> list_all name_char (domain @ ''.caddyfile'') \<and> ingress_route_path domain = [domain @ ''.caddyfile'']"
proof -
  assume "Domain_parse v = Ok domain"
  then have "list_all name_char (domain @ ''.caddyfile'')" 
    using Domain_parse_chars[of v domain] by (simp add: name_char_def)
  moreover from this have "safe_component (domain @ ''.caddyfile'')" by (intro safe_componentI) simp_all
  ultimately show ?thesis using parse_one by (simp add: ingress_route_path_def expect_path_def)
qed

lemma RuntimeId_component: "RuntimeId_parse v = Ok i \<Longrightarrow> safe_component i"
proof -
  assume "RuntimeId_parse v = Ok i"
  then have i: "i \<noteq> []" "list_all label_char i" by (auto simp: RuntimeId_parse_def split: if_splits)
  moreover have "\<not> label_char CHR ''.''" by code_simp
  moreover have "name_char c" if "c \<in> set i" for c using that i(2) name_char_of_classes(1) by (auto simp: list_all_iff)
  ultimately show ?thesis by (fastforce simp: safe_component_def name_char_def)
qed

lemma StackName_component: "StackName_parse v = Ok n \<Longrightarrow> safe_component n"
proof -
  assume n: "StackName_parse v = Ok n"
  then have "n = v" "v \<notin> {[], ''.'', ''..''}" "list_all stack_char v"
    by (auto simp: StackName_parse_def stack_char_def split: if_splits list.splits)
  moreover have "name_char c" if "c \<in> set n" for c
    using that calculation name_char_of_classes(2) by (auto simp: list_all_iff)
  ultimately show ?thesis by (fastforce simp: safe_component_def name_char_def)
qed

lemma one_path: "safe_component n \<Longrightarrow> expect_path n = [n]"
  using parse_one by (simp add: expect_path_def)

lemma runtime_file:
  assumes "RuntimeId_parse v = Ok i" and "Domain_parse w = Ok domain"
  shows "runtime_route_path i domain = [i, domain @ ''.caddyfile'']"
  using parse_two[OF RuntimeId_component[OF assms(1)], of "domain @ ''.caddyfile''"] domain_file[OF assms(2)]
  by (simp add: runtime_route_path_def expect_path_def safe_componentI)

lemma stack_file: "StackName_parse v = Ok n \<Longrightarrow> compose_route_path n = [n, ''docker-compose.yml'']"
proof -
  assume "StackName_parse v = Ok n"
  moreover have "safe_component ''docker-compose.yml''" by (intro safe_componentI) (simp_all add: name_char_def)
  ultimately show ?thesis
    using parse_two[OF StackName_component] by (simp add: compose_route_path_def expect_path_def)
qed

definition operation_area :: "(path \<Rightarrow> bool) \<Rightarrow> ManagedRoot \<Rightarrow> path \<Rightarrow> string \<Rightarrow> path \<Rightarrow> bool" where
  "operation_area A root live suffix q \<longleftrightarrow>
     A q \<or> q \<in> touched root (RoutePaths_new live suffix) \<or> q = root @ butlast live"

definition programs_apart :: "(path \<Rightarrow> bool) \<Rightarrow> ManagedRoot \<Rightarrow> RoutePaths \<Rightarrow> bool" where
  "programs_apart A root paths \<longleftrightarrow> \<not> A (root @ rp_live paths) \<and> \<not> A (root @ rp_staged paths) \<and> \<not> A (root @ rp_backup paths)"

lemma activation_effect_mono:
  "activation_effect sha A root live content guard h out \<Longrightarrow> (\<And>q. A q \<Longrightarrow> B q) \<Longrightarrow>
     activation_effect sha B root live content guard h out"
  by (auto simp: activation_effect_def intro: kept_mono)

lemma rp_live_new [simp]: "rp_live (RoutePaths_new live suffix) = live"
  by (simp add: RoutePaths_new_def)

lemma ingress_live_effect:
  assumes "confined A P" and "Domain_parse v = Ok domain" and "uuid_wf suffix"
    and "programs_apart A root (RoutePaths_new (ingress_route_path domain) suffix)"
  shows "activation_effect sha (operation_area A root (ingress_route_path domain) suffix) root (ingress_route_path domain)
    content guard h (activate_live sha P a access root domain content guard suffix h)"
proof -
  have sib: "siblings (RoutePaths_new (ingress_route_path domain) suffix)"
    using RoutePaths_siblings[of "[]" "domain @ ''.caddyfile''"] domain_file[OF assms(2)] assms(3) by simp
  show ?thesis
    unfolding activate_live_def Let_def
    by (rule opened_effect, rule activation_effect_mono, rule ingress.sequence_effect[OF assms(1) sib, simplified])
       (use assms(4) in \<open>auto simp: programs_apart_def operation_area_def\<close>)
qed

lemma nested_siblings:
  assumes "safe_component d" and "list_all name_char n" "2 < length n" and "uuid_wf suffix"
  shows "siblings (RoutePaths_new [d, n] suffix)"
  using RoutePaths_siblings[of "[d]" n suffix] assms by simp

lemma runtime_effect:
  assumes "confined A P" and "RuntimeId_parse u = Ok i" and "Domain_parse v = Ok domain" and "uuid_wf suffix"
    and "programs_apart A root (RoutePaths_new (runtime_route_path i domain) suffix)"
  shows "activation_effect sha (operation_area A root (runtime_route_path i domain) suffix) root (runtime_route_path i domain)
    content guard h (runtime_activate sha P a access root i domain content guard suffix h)"
proof -
  note at = runtime_file[OF assms(2,3)]
  have sib: "siblings (RoutePaths_new [i, domain @ ''.caddyfile''] suffix)"
    using domain_file[OF assms(3)] by (intro nested_siblings RuntimeId_component[OF assms(2)] assms(4)) auto
  show ?thesis
    unfolding runtime_activate_def Let_def at one_path[OF RuntimeId_component[OF assms(2)]]
    by (rule opened_effect, rule in_directory_effect, rule activation_effect_mono,
        rule runtime.sequence_effect[OF assms(1) sib, simplified])
       (use assms(5) in \<open>auto simp: programs_apart_def operation_area_def at\<close>)
qed

lemma stack_effect:
  assumes "confined A P" and "StackName_parse v = Ok n" and "uuid_wf suffix"
    and "programs_apart A root (RoutePaths_new (compose_route_path n) suffix)"
  shows "activation_effect sha (operation_area A root (compose_route_path n) suffix) root (compose_route_path n)
    content guard h (compose_activate sha P docker_path root n content guard suffix h)"
proof -
  note at = stack_file[OF assms(2)]
  have sib: "siblings (RoutePaths_new [n, ''docker-compose.yml''] suffix)"
    by (intro nested_siblings StackName_component[OF assms(2)] assms(3)) (simp_all add: name_char_def)
  show ?thesis
    unfolding compose_activate_def Let_def at one_path[OF StackName_component[OF assms(2)]]
    by (rule opened_effect, rule in_directory_effect, rule activation_effect_mono,
        rule stack.sequence_effect[OF assms(1) sib, simplified])
       (use assms(4) in \<open>auto simp: programs_apart_def operation_area_def at\<close>)
qed

end
