(* ===== verification/ConfigExecute.thy ===== *)
theory ConfigExecute
  imports ConfigActivate Deploy
begin

text \<open>
  The operations \<open>ingress.activateConfig\<close>, \<open>runtime.activateConfig\<close> and \<open>compose.activateConfig\<close> as a whole
  (\<open>src/src/ingress/execute.rs\<close>, \<open>src/src/runtime_config/execute.rs\<close>, \<open>src/src/compose_config/execute.rs\<close>): requests
  and results, the state directories, the lock of the managed stack (\<open>src/src/stack_deploy.rs\<close>), admission,
  activation, recording and replay.

  The three sources repeat one pipeline with their own types and messages. It is defined once
  (\<open>config_execute\<close>) over a record of what they differ in, \<open>config_op\<close>. Each ends in \<open>config_answer\<close>.
\<close>

section \<open>Requests\<close>

record ActivateConfigRequest =
  ar_domain :: string
  ar_content :: bytes
  ar_guard :: HashGuard
  ar_target :: RouteTarget
  ar_request_id :: RequestId
  ar_idempotency_key :: "IdempotencyKey option"

datatype ConfigRequestError =
    Cre_InvalidRuntimeId | Cre_InvalidDomain | Cre_InvalidStackName | Cre_ContentTooLarge | Cre_InvalidExpectedHash
  | Cre_InvalidRequestId | Cre_InvalidIdempotencyKey

definition ActivateConfigRequest_parse ::
  "(string \<Rightarrow> uuid option) \<Rightarrow> string \<Rightarrow> bytes \<Rightarrow> HashGuard \<Rightarrow> RouteTarget \<Rightarrow> string \<Rightarrow> string option
    \<Rightarrow> ConfigRequestError + ActivateConfigRequest" where
  "ActivateConfigRequest_parse parse_str domain content guard target request_id idempotency_key =
     (if MAX_CONTENT_BYTES < length content then Err Cre_ContentTooLarge
      else bind_ok (map_err (\<lambda>_. Cre_InvalidDomain) (Domain_parse domain)) (\<lambda>domain.
        bind_ok (map_err (\<lambda>_. Cre_InvalidRequestId) (RequestId_parse parse_str request_id)) (\<lambda>request.
        bind_ok (map_err (\<lambda>_. Cre_InvalidIdempotencyKey) (transpose_key idempotency_key)) (\<lambda>key.
          Ok \<lparr> ar_domain = domain, ar_content = content, ar_guard = guard, ar_target = target,
               ar_request_id = request, ar_idempotency_key = key \<rparr>))))"

record RuntimeActivateConfigRequest =
  rr_runtime_id :: string
  rr_domain :: string
  rr_content :: bytes
  rr_guard :: HashGuard
  rr_request :: RequestId
  rr_key :: "IdempotencyKey option"

definition RuntimeActivateConfigRequest_parse ::
  "(string \<Rightarrow> uuid option) \<Rightarrow> string \<Rightarrow> string \<Rightarrow> bytes \<Rightarrow> HashGuard \<Rightarrow> string \<Rightarrow> string option
    \<Rightarrow> ConfigRequestError + RuntimeActivateConfigRequest" where
  "RuntimeActivateConfigRequest_parse parse_str runtime_id domain content guard request_id idempotency_key =
     (if MAX_CONTENT_BYTES < length content then Err Cre_ContentTooLarge
      else bind_ok (map_err (\<lambda>_. Cre_InvalidRuntimeId) (RuntimeId_parse runtime_id)) (\<lambda>runtime_id.
        bind_ok (map_err (\<lambda>_. Cre_InvalidDomain) (Domain_parse domain)) (\<lambda>domain.
        bind_ok (map_err (\<lambda>_. Cre_InvalidRequestId) (RequestId_parse parse_str request_id)) (\<lambda>request.
        bind_ok (map_err (\<lambda>_. Cre_InvalidIdempotencyKey) (transpose_key idempotency_key)) (\<lambda>key.
          Ok \<lparr> rr_runtime_id = runtime_id, rr_domain = domain, rr_content = content, rr_guard = guard,
               rr_request = request, rr_key = key \<rparr>)))))"

record ComposeActivateConfigRequest =
  cr_stack_name :: string
  cr_content :: bytes
  cr_guard :: HashGuard
  cr_request :: RequestId
  cr_key :: "IdempotencyKey option"

definition ComposeActivateConfigRequest_parse ::
  "(string \<Rightarrow> uuid option) \<Rightarrow> string \<Rightarrow> bytes \<Rightarrow> HashGuard \<Rightarrow> string \<Rightarrow> string option
    \<Rightarrow> ConfigRequestError + ComposeActivateConfigRequest" where
  "ComposeActivateConfigRequest_parse parse_str stack_name content guard request_id idempotency_key =
     (if MAX_CONTENT_BYTES < length content then Err Cre_ContentTooLarge
      else bind_ok (map_err (\<lambda>_. Cre_InvalidStackName) (StackName_parse stack_name)) (\<lambda>stack_name.
        bind_ok (map_err (\<lambda>_. Cre_InvalidRequestId) (RequestId_parse parse_str request_id)) (\<lambda>request.
        bind_ok (map_err (\<lambda>_. Cre_InvalidIdempotencyKey) (transpose_key idempotency_key)) (\<lambda>key.
          Ok \<lparr> cr_stack_name = stack_name, cr_content = content, cr_guard = guard, cr_request = request, cr_key = key \<rparr>))))"

section \<open>Results\<close>

record ActivateConfigResult =
  ac_domain :: string
  ac_activated :: bool
  ac_content_sha256 :: ConfigHash
  ac_activated_at :: u64

definition ActivateConfigResult_json :: "ActivateConfigResult \<Rightarrow> json" where
  "ActivateConfigResult_json r = value_map
     [(''domain'', JStr (ac_domain r)), (''activated'', JBool (ac_activated r)),
      (''contentSha256'', JStr (ac_content_sha256 r)), (''activatedAtUnixSecs'', json_u64 (ac_activated_at r))]"

definition ActivateConfigResult_of_json :: "json \<Rightarrow> ActivateConfigResult option" where
  "ActivateConfigResult_of_json v = Option.bind (as_obj v) (\<lambda>kvs.
     Option.bind (req as_str (field_of ''domain'' kvs)) (\<lambda>domain.
     Option.bind (req as_bool (field_of ''activated'' kvs)) (\<lambda>activated.
     Option.bind (req as_str (field_of ''contentSha256'' kvs)) (\<lambda>hash.
     Option.bind (req as_u64 (field_of ''activatedAtUnixSecs'' kvs)) (\<lambda>at.
       Some \<lparr> ac_domain = domain, ac_activated = activated, ac_content_sha256 = hash, ac_activated_at = at \<rparr>)))))"

record RuntimeActivateConfigResult =
  rc_runtime_id :: string
  rc_domain :: string
  rc_activated :: bool
  rc_content_sha256 :: ConfigHash
  rc_activated_at :: u64

definition RuntimeActivateConfigResult_json :: "RuntimeActivateConfigResult \<Rightarrow> json" where
  "RuntimeActivateConfigResult_json r = value_map
     [(''runtimeId'', JStr (rc_runtime_id r)), (''domain'', JStr (rc_domain r)), (''activated'', JBool (rc_activated r)),
      (''contentSha256'', JStr (rc_content_sha256 r)), (''activatedAtUnixSecs'', json_u64 (rc_activated_at r))]"

definition RuntimeActivateConfigResult_of_json :: "json \<Rightarrow> RuntimeActivateConfigResult option" where
  "RuntimeActivateConfigResult_of_json v = Option.bind (as_obj v) (\<lambda>kvs.
     Option.bind (req as_str (field_of ''runtimeId'' kvs)) (\<lambda>runtime_id.
     Option.bind (req as_str (field_of ''domain'' kvs)) (\<lambda>domain.
     Option.bind (req as_bool (field_of ''activated'' kvs)) (\<lambda>activated.
     Option.bind (req as_str (field_of ''contentSha256'' kvs)) (\<lambda>hash.
     Option.bind (req as_u64 (field_of ''activatedAtUnixSecs'' kvs)) (\<lambda>at.
       Some \<lparr> rc_runtime_id = runtime_id, rc_domain = domain, rc_activated = activated, rc_content_sha256 = hash,
              rc_activated_at = at \<rparr>))))))"

record ComposeActivateConfigResult =
  cc_stack_name :: string
  cc_activated :: bool
  cc_content_sha256 :: ConfigHash
  cc_activated_at :: u64

definition ComposeActivateConfigResult_json :: "ComposeActivateConfigResult \<Rightarrow> json" where
  "ComposeActivateConfigResult_json r = value_map
     [(''stackName'', JStr (cc_stack_name r)), (''activated'', JBool (cc_activated r)),
      (''contentSha256'', JStr (cc_content_sha256 r)), (''activatedAtUnixSecs'', json_u64 (cc_activated_at r))]"

definition ComposeActivateConfigResult_of_json :: "json \<Rightarrow> ComposeActivateConfigResult option" where
  "ComposeActivateConfigResult_of_json v = Option.bind (as_obj v) (\<lambda>kvs.
     Option.bind (req as_str (field_of ''stackName'' kvs)) (\<lambda>stack_name.
     Option.bind (req as_bool (field_of ''activated'' kvs)) (\<lambda>activated.
     Option.bind (req as_str (field_of ''contentSha256'' kvs)) (\<lambda>hash.
     Option.bind (req as_u64 (field_of ''activatedAtUnixSecs'' kvs)) (\<lambda>at.
       Some \<lparr> cc_stack_name = stack_name, cc_activated = activated, cc_content_sha256 = hash, cc_activated_at = at \<rparr>)))))"

section \<open>Errors and what they report\<close>

datatype ('r, 'res) ActivateConfigError =
    StackBusy
  | Cfe_Io io_error
  | Cfe_Preflight PreflightError
  | Cfe_ReplayInProgress
  | Cfe_Activate "'r ActivationError"
  | Cfe_State StateError
  | Cfe_Cancelled
  | Cfe_PostCommitRecordFailed 'res StateError
  | Cfe_Replayed ErrorCode string

definition compose_failure_code :: "('r \<Rightarrow> ErrorCode) \<Rightarrow> 'r ComposeFailure \<Rightarrow> ErrorCode \<Rightarrow> ErrorCode" where
  "compose_failure_code run_code failure rejected =
     (case failure of
        CF_Run error \<Rightarrow> run_code error
      | CF_Rejected diagnostics \<Rightarrow>
          if sd_timed_out diagnostics then Timeout
          else if sd_cancelled diagnostics then Cancelled
          else rejected)"

definition timed_out :: "'r ComposeFailure \<Rightarrow> bool" where
  "timed_out failure = (case failure of CF_Rejected diagnostics \<Rightarrow> sd_timed_out diagnostics | CF_Run _ \<Rightarrow> False)"

definition compose_error_code :: "ComposeError \<Rightarrow> ErrorCode" where
  "compose_error_code e = (case e of NoHomeDirectory \<Rightarrow> Internal | Compose_Run error \<Rightarrow> spawn_error_code error)"

text \<open>The messages of one of the three sources.\<close>

record config_words =
  cw_internal :: string
  cw_lock :: string
  cw_path :: string
  cw_rejected :: string
  cw_timed_out :: string
  cw_restored :: string
  cw_unchanged :: string
  cw_recovery :: string

fun config_protocol :: "('r \<Rightarrow> ErrorCode) \<Rightarrow> config_words \<Rightarrow> ('r, 'res) ActivateConfigError \<Rightarrow> ErrorCode \<times> string" where
  "config_protocol rc w StackBusy = (Conflict, ''another operation on the wcp stack is in progress'')"
| "config_protocol rc w (Cfe_Io _) = (Internal, cw_internal w)"
| "config_protocol rc w (Cfe_State _) = (Internal, cw_internal w)"
| "config_protocol rc w (Cfe_PostCommitRecordFailed _ _) = (Internal, cw_internal w)"
| "config_protocol rc w (Cfe_Preflight (Pf_Lock _)) = (Conflict, cw_lock w)"
| "config_protocol rc w (Cfe_Preflight _) = (Internal, ''preflight failed'')"
| "config_protocol rc w Cfe_ReplayInProgress =
     (Conflict, ''the original request for this idempotency key is still in progress'')"
| "config_protocol rc w (Cfe_Activate (AE_Io _)) = (Internal, cw_internal w)"
| "config_protocol rc w (Cfe_Activate (AE_Path _)) = (InvalidInput, cw_path w)"
| "config_protocol rc w (Cfe_Activate HashGuardMismatch) =
     (ConfigHashMismatch, ''the configuration changed since it was read - re-read it and retry'')"
| "config_protocol rc w (Cfe_Activate (ValidateFailed f)) =
     (compose_failure_code rc f ConfigValidationFailed, cw_rejected w)"
| "config_protocol rc w (Cfe_Activate (ReloadFailedAndRestored f)) =
     (compose_failure_code rc f ConfigReloadFailed, if timed_out f then cw_timed_out w else cw_restored w)"
| "config_protocol rc w (Cfe_Activate (ReloadFailedUnchanged f)) =
     (compose_failure_code rc f ConfigReloadFailed, cw_unchanged w)"
| "config_protocol rc w (Cfe_Activate (RecoveryFailed _ _)) = (ConfigRecoveryFailed, cw_recovery w)"
| "config_protocol rc w Cfe_Cancelled = (Cancelled, ''cancelled before the commit point'')"
| "config_protocol rc w (Cfe_Replayed code message) = (code, message)"

definition ingress_words :: config_words where
  "ingress_words = \<lparr>
     cw_internal = ''internal ingress activation error'',
     cw_lock = ''another ingress configuration activation is already in progress'',
     cw_path = ''the route file does not resolve inside the configured ingress root'',
     cw_rejected = ''the submitted configuration was rejected before it was activated'',
     cw_timed_out = ''the submitted configuration timed out while loading; the previous ''
       @ ''configuration was put back on disk, but whether the running server is on ''
       @ ''it could not be confirmed - verify the live ingress configuration'',
     cw_restored = ''the submitted configuration failed to load; the previous configuration was restored and is live'',
     cw_unchanged = ''the configuration was already in place but failed to load; nothing was changed'',
     cw_recovery = ''the configuration failed to load and could not be rolled back; the live ''
       @ ''ingress configuration needs manual inspection'' \<rparr>"

definition runtime_words :: config_words where
  "runtime_words = \<lparr>
     cw_internal = ''internal runtime config activation error'',
     cw_lock = ''another activation for this runtime pool is already in progress'',
     cw_path = ''the fragment does not resolve inside the configured runtime root'',
     cw_rejected = ''the submitted configuration was rejected before it was activated'',
     cw_timed_out = ''the submitted configuration timed out while loading; the previous ''
       @ ''configuration was put back on disk, but whether the running server is on ''
       @ ''it could not be confirmed - verify the live runtime configuration'',
     cw_restored = ''the submitted configuration failed to load; the previous configuration was restored and is live'',
     cw_unchanged = ''the configuration was already in place but failed to load; nothing was changed'',
     cw_recovery = ''the configuration failed to load and could not be rolled back; the live ''
       @ ''runtime configuration needs manual inspection'' \<rparr>"

definition compose_words :: config_words where
  "compose_words = \<lparr>
     cw_internal = ''internal compose activation error'',
     cw_lock = ''another activation for this compose stack is already in progress'',
     cw_path = ''the compose file does not resolve inside the configured compose root'',
     cw_rejected = ''the submitted compose file was rejected before it was activated'',
     cw_timed_out = ''the submitted compose file timed out while coming up; the previous ''
       @ ''file was put back on disk, but whether the stack is actually on it ''
       @ ''could not be confirmed - verify the live stack'',
     cw_restored = ''the submitted compose file failed to come up; the previous file was restored and is live'',
     cw_unchanged = ''the compose file was already in place but the stack failed to come up; nothing was changed'',
     cw_recovery = ''the compose file failed to come up and could not be rolled back; the live ''
       @ ''stack needs manual inspection'' \<rparr>"

section \<open>State directories and the lock of the stack\<close>

definition open_subtree :: "ManagedRoot \<Rightarrow> path \<Rightarrow> host \<Rightarrow> ManagedRoot io" where
  "open_subtree engine_state relative h =
     try_io (create_dir_all engine_state relative h) id (\<lambda>_ h.
     try_io (open_managed_dir engine_state relative h) id (\<lambda>scoped h.
     try_io (create_dir_all scoped (expect_path ''locks'') h) id (\<lambda>_ h.
     try_io (create_dir_all scoped (expect_path ''transactions'') h) id (\<lambda>_ h.
     try_io (create_dir_all scoped (expect_path ''audit'') h) id (\<lambda>_ h.
       (Ok scoped, h))))))"

definition open_ingress_state :: "ManagedRoot \<Rightarrow> host \<Rightarrow> ManagedRoot io" where
  "open_ingress_state engine_state = open_subtree engine_state (expect_path ''ingress'')"

definition open_runtime_config_state :: "ManagedRoot \<Rightarrow> string \<Rightarrow> host \<Rightarrow> ManagedRoot io" where
  "open_runtime_config_state engine_state runtime_id = open_subtree engine_state (expect_path (''runtime-config/'' @ runtime_id))"

definition open_compose_state :: "ManagedRoot \<Rightarrow> string \<Rightarrow> host \<Rightarrow> ManagedRoot io" where
  "open_compose_state engine_state stack_name = open_subtree engine_state (expect_path (''compose/'' @ stack_name))"

definition STACK_NAME :: string where "STACK_NAME = ''wp-stack''"
definition SCOPE :: string where "SCOPE = ''stacks/wcp''"

definition open_scope :: "ManagedRoot \<Rightarrow> host \<Rightarrow> ManagedRoot io" where
  "open_scope engine_state = open_subtree engine_state (expect_path SCOPE)"

definition acquire_stack_lock :: "crates \<Rightarrow> ManagedRoot \<Rightarrow> RequestId \<Rightarrow> host \<Rightarrow> (LockError + path) \<times> host" where
  "acquire_stack_lock L scope holder h = lock_acquire L scope lock_path holder h"

section \<open>The pipeline\<close>

record ('r, 'res) config_op =
  op_name :: string
  op_request :: RequestId
  op_key :: "IdempotencyKey option"
  op_protocol :: "('r, 'res) ActivateConfigError \<Rightarrow> ErrorCode \<times> string"
  op_activate :: "host \<Rightarrow> 'r activation"
  op_result :: "bool \<Rightarrow> u64 \<Rightarrow> 'res"
  op_json :: "'res \<Rightarrow> json"
  op_of_json :: "json \<Rightarrow> 'res option"

definition config_replay ::
  "crates \<Rightarrow> ('r, 'res) config_op \<Rightarrow> ManagedRoot \<Rightarrow> RequestId \<Rightarrow> host \<Rightarrow> (('r, 'res) ActivateConfigError + 'res) or_panic \<times> host" where
  "config_replay L op scope original h =
     (case State_load L scope (state_path original) h of
        (Inl e, h) \<Rightarrow> (Returns (Err (Cfe_State e)), h)
      | (Inr s, h) \<Rightarrow>
          (if ts_operation s \<noteq> op_name op then Returns (Err (Cfe_State State_Corrupt))
           else case ts_status s of
              InProgress \<Rightarrow> Returns (Err Cfe_ReplayInProgress)
            | Committed \<Rightarrow>
                (case ts_outcome s of
                   None \<Rightarrow> Panics
                 | Some outcome \<Rightarrow>
                     (case oc_result outcome of
                        None \<Rightarrow> Panics
                      | Some v \<Rightarrow>
                          (case op_of_json op v of
                             None \<Rightarrow> Returns (Err (Cfe_State State_Corrupt))
                           | Some r \<Rightarrow> Returns (Ok r))))
            | Failed \<Rightarrow>
                (case ts_outcome s of
                   None \<Rightarrow> Panics
                 | Some outcome \<Rightarrow> Returns (Err (Cfe_Replayed
                     (case oc_error_code outcome of None \<Rightarrow> Internal | Some c \<Rightarrow> c)
                     (case oc_error_message outcome of None \<Rightarrow> [] | Some m \<Rightarrow> m)))), h))"

text \<open>From the commit point on: the lock of the scope is given back before the outcome is recorded.\<close>

definition config_record ::
  "crates \<Rightarrow> ('r, 'res) config_op \<Rightarrow> ManagedRoot \<Rightarrow> Admitted \<Rightarrow> bool \<Rightarrow> host \<Rightarrow> (('r, 'res) ActivateConfigError + 'res) or_panic \<times> host" where
  "config_record L op scope admitted done' h =
     (let h = release (ad_lock admitted) h; result = op_result op done' (unix_now_secs h) in
      (case mark_committed h (op_json op result) (ad_state admitted) of
         Inl _ \<Rightarrow> (Panics, h)
       | Inr state \<Rightarrow>
           (case State_save L scope (state_path (op_request op)) state h of
              (Inl cause, h) \<Rightarrow> (Returns (Err (Cfe_PostCommitRecordFailed result cause)), h)
            | (Inr _, h) \<Rightarrow>
                (Returns (Ok result), snd (audit_append L scope audit_path (audit_result h (op_request op) True None) h)))))"

definition config_body ::
  "crates \<Rightarrow> (nat \<Rightarrow> bool) \<Rightarrow> ('r, 'res) config_op \<Rightarrow> ManagedRoot \<Rightarrow> host \<Rightarrow> (('r, 'res) ActivateConfigError + 'res) or_panic \<times> host" where
  "config_body L cancel op scope h =
     (case preflight_run L scope (op_request op) (op_key op) (op_name op) h of
        (Inl e, h) \<Rightarrow> (Returns (Err (Cfe_Preflight e)), h)
      | (Inr (Replay original), h) \<Rightarrow> config_replay L op scope original h
      | (Inr (Proceed admitted), h) \<Rightarrow>
          (case try_io (precommit_check cancel Cfe_Cancelled h) id (\<lambda>_ h.
                try_io (op_activate op h) Cfe_Activate (\<lambda>activation h. (Ok activation, h))) of
             (Inl e, h) \<Rightarrow>
               (Returns (Err e), release (ad_lock admitted)
                  (record_failure L scope (op_request op) (ad_state admitted) (op_protocol op e) h))
           | (Inr activation, h) \<Rightarrow> config_record L op scope admitted (activated activation) h))"

text \<open>The scope is opened first, then, where the operation touches the managed stack, its lock is taken.\<close>

definition config_execute ::
  "crates \<Rightarrow> (nat \<Rightarrow> bool) \<Rightarrow> ('r, 'res) config_op \<Rightarrow> ManagedRoot \<Rightarrow> (host \<Rightarrow> ManagedRoot io) \<Rightarrow> bool \<Rightarrow> host
    \<Rightarrow> (('r, 'res) ActivateConfigError + 'res) or_panic \<times> host" where
  "config_execute L cancel op engine_state open_state stack h =
     (case open_state h of
        (Inl e, h) \<Rightarrow> (Returns (Err (Cfe_Io e)), h)
      | (Inr scope, h) \<Rightarrow>
          if \<not> stack then config_body L cancel op scope h
          else (case open_scope engine_state h of
                  (Inl e, h) \<Rightarrow> (Returns (Err (Cfe_Io e)), h)
                | (Inr stack_scope, h) \<Rightarrow>
                    (case acquire_stack_lock L stack_scope (op_request op) h of
                       (Inl _, h) \<Rightarrow> (Returns (Err StackBusy), h)
                     | (Inr stack_lock, h) \<Rightarrow>
                         (case config_body L cancel op scope h of (out, h) \<Rightarrow> (out, release stack_lock h)))))"

section \<open>The three operations\<close>

record ActivateContext =
  ax_root :: path
  ax_engine_state :: ManagedRoot
  ax_compose :: Access

definition ingress_op ::
  "sha256 \<Rightarrow> programs \<Rightarrow> account \<Rightarrow> ActivateContext \<Rightarrow> ActivateConfigRequest \<Rightarrow> (ComposeError, ActivateConfigResult) config_op" where
  "ingress_op sha P a ctx rq = \<lparr>
     op_name = ''ingress.activateConfig'', op_request = ar_request_id rq, op_key = ar_idempotency_key rq,
     op_protocol = config_protocol compose_error_code ingress_words,
     op_activate = ingress_activate sha P a (ax_compose ctx) (ax_root ctx) (ar_domain rq) (ar_content rq) (ar_guard rq)
       (ar_target rq) (ar_request_id rq),
     op_result = (\<lambda>activated at. \<lparr> ac_domain = ar_domain rq, ac_activated = activated,
       ac_content_sha256 = ConfigHash_of sha (ar_content rq), ac_activated_at = at \<rparr>),
     op_json = ActivateConfigResult_json, op_of_json = ActivateConfigResult_of_json \<rparr>"

definition ingress_execute ::
  "crates \<Rightarrow> sha256 \<Rightarrow> programs \<Rightarrow> account \<Rightarrow> (nat \<Rightarrow> bool) \<Rightarrow> ActivateContext \<Rightarrow> ActivateConfigRequest \<Rightarrow> host
    \<Rightarrow> ((ComposeError, ActivateConfigResult) ActivateConfigError + ActivateConfigResult) or_panic \<times> host" where
  "ingress_execute L sha P a cancel ctx rq h =
     config_execute L cancel (ingress_op sha P a ctx rq) (ax_engine_state ctx) (open_ingress_state (ax_engine_state ctx)) True h"

definition runtime_op ::
  "sha256 \<Rightarrow> programs \<Rightarrow> account \<Rightarrow> ActivateContext \<Rightarrow> RuntimeActivateConfigRequest
    \<Rightarrow> (ComposeError, RuntimeActivateConfigResult) config_op" where
  "runtime_op sha P a ctx rq = \<lparr>
     op_name = ''runtime.activateConfig'', op_request = rr_request rq, op_key = rr_key rq,
     op_protocol = config_protocol compose_error_code runtime_words,
     op_activate = runtime_activate sha P a (ax_compose ctx) (ax_root ctx) (rr_runtime_id rq) (rr_domain rq) (rr_content rq)
       (rr_guard rq) (rr_request rq),
     op_result = (\<lambda>activated at. \<lparr> rc_runtime_id = rr_runtime_id rq, rc_domain = rr_domain rq, rc_activated = activated,
       rc_content_sha256 = ConfigHash_of sha (rr_content rq), rc_activated_at = at \<rparr>),
     op_json = RuntimeActivateConfigResult_json, op_of_json = RuntimeActivateConfigResult_of_json \<rparr>"

definition runtime_execute ::
  "crates \<Rightarrow> sha256 \<Rightarrow> programs \<Rightarrow> account \<Rightarrow> (nat \<Rightarrow> bool) \<Rightarrow> ActivateContext \<Rightarrow> RuntimeActivateConfigRequest \<Rightarrow> host
    \<Rightarrow> ((ComposeError, RuntimeActivateConfigResult) ActivateConfigError + RuntimeActivateConfigResult) or_panic \<times> host" where
  "runtime_execute L sha P a cancel ctx rq h =
     config_execute L cancel (runtime_op sha P a ctx rq) (ax_engine_state ctx)
       (open_runtime_config_state (ax_engine_state ctx) (rr_runtime_id rq)) True h"

record ComposeActivateContext =
  cx_compose_root :: path
  cx_engine_state :: ManagedRoot
  cx_docker_path :: "string option"

definition compose_op ::
  "sha256 \<Rightarrow> programs \<Rightarrow> ComposeActivateContext \<Rightarrow> ComposeActivateConfigRequest
    \<Rightarrow> (ProcessRunError, ComposeActivateConfigResult) config_op" where
  "compose_op sha P ctx rq = \<lparr>
     op_name = ''compose.activateConfig'', op_request = cr_request rq, op_key = cr_key rq,
     op_protocol = config_protocol spawn_error_code compose_words,
     op_activate = compose_activate sha P (cx_docker_path ctx) (cx_compose_root ctx) (cr_stack_name rq) (cr_content rq)
       (cr_guard rq) (cr_request rq),
     op_result = (\<lambda>activated at. \<lparr> cc_stack_name = cr_stack_name rq, cc_activated = activated,
       cc_content_sha256 = ConfigHash_of sha (cr_content rq), cc_activated_at = at \<rparr>),
     op_json = ComposeActivateConfigResult_json, op_of_json = ComposeActivateConfigResult_of_json \<rparr>"

definition compose_execute ::
  "crates \<Rightarrow> sha256 \<Rightarrow> programs \<Rightarrow> (nat \<Rightarrow> bool) \<Rightarrow> ComposeActivateContext \<Rightarrow> ComposeActivateConfigRequest \<Rightarrow> host
    \<Rightarrow> ((ProcessRunError, ComposeActivateConfigResult) ActivateConfigError + ComposeActivateConfigResult) or_panic \<times> host" where
  "compose_execute L sha P cancel ctx rq h =
     config_execute L cancel (compose_op sha P ctx rq) (cx_engine_state ctx)
       (open_compose_state (cx_engine_state ctx) (cr_stack_name rq)) (cr_stack_name rq = STACK_NAME) h"

section \<open>How an operation ends\<close>

text \<open>
  The answers of an operation that puts \<open>content\<close> at \<open>live\<close>, between the host \<open>h\<close> before and the host \<open>h'\<close>
  after it: a success is a fresh one, with the content in place, the guard satisfied by the file that was
  there and the committed record on disk; or the request has a key that on \<open>h\<close> belonged to a committed
  request of the same operation, the answer is the result in that request's record, and nothing changed.
\<close>

definition replayed_result :: "crates \<Rightarrow> ('r, 'res) config_op \<Rightarrow> ManagedRoot \<Rightarrow> host \<Rightarrow> 'res \<Rightarrow> bool" where
  "replayed_result L op scope h r \<longleftrightarrow> (\<exists>k j t oc v. op_key op = Some k \<and> owner L scope h k = Some j
     \<and> stored L scope h (state_path j) = Some t \<and> ts_operation t = op_name op
     \<and> ts_status t = Committed \<and> ts_outcome t = Some oc \<and> oc_result oc = Some v \<and> op_of_json op v = Some r)"

definition config_outcome ::
  "crates \<Rightarrow> ('r, 'res) config_op \<Rightarrow> ManagedRoot \<Rightarrow> bytes \<Rightarrow> bool \<Rightarrow> node option \<Rightarrow> node option \<Rightarrow> host \<Rightarrow> host
    \<Rightarrow> (('r, 'res) ActivateConfigError + 'res) or_panic \<Rightarrow> bool" where
  "config_outcome L op scope content satisfied old new h h' out \<longleftrightarrow>
     (case out of
         Panics \<Rightarrow> new = old
       | Returns (Inr r) \<Rightarrow>
           new = Some (File content) \<and> satisfied \<and> recorded L scope h' (op_request op) (op_json op r)
             \<and> (\<exists>t. r = op_result op (old \<noteq> Some (File content)) t)
           \<or> new = old \<and> replayed_result L op scope h r
       | Returns (Inl (Cfe_PostCommitRecordFailed r _)) \<Rightarrow>
           new = Some (File content) \<and> satisfied \<and> (\<exists>t. r = op_result op (old \<noteq> Some (File content)) t)
       | Returns (Inl (Cfe_Activate (RecoveryFailed _ (RF_File _)))) \<Rightarrow> new = Some (File content)
       | Returns (Inl _) \<Rightarrow> new = old)"

definition config_answer ::
  "crates \<Rightarrow> sha256 \<Rightarrow> ('r, 'res) config_op \<Rightarrow> ManagedRoot \<Rightarrow> ManagedRoot \<Rightarrow> path \<Rightarrow> bytes \<Rightarrow> HashGuard \<Rightarrow> host
    \<Rightarrow> (('r, 'res) ActivateConfigError + 'res) or_panic \<times> host \<Rightarrow> bool" where
  "config_answer L sha op scope root live content guard h res \<longleftrightarrow>
     flocked (snd res) = flocked h \<and>
     config_outcome L op scope content (is_satisfied_by sha guard (file_at root h live)) (node_at h (root @ live))
       (node_at (snd res) (root @ live)) h (snd res) (fst res)"

text \<open>
  The lock of the managed stack: an operation that does not concern this stack never reports it busy, and
  one that does fails and leaves \<open>q\<close> as it was while another operation holds the lock.
\<close>

definition stack_guarded :: "bool \<Rightarrow> ManagedRoot \<Rightarrow> path \<Rightarrow> host
    \<Rightarrow> (('r, 'res) ActivateConfigError + 'res) or_panic \<times> host \<Rightarrow> bool" where
  "stack_guarded stack engine q h res \<longleftrightarrow>
     (fst res = Returns (Err StackBusy) \<longrightarrow> stack) \<and>
     (stack \<and> flocked h (engine @ [''stacks'', ''wcp''] @ lock_path) \<longrightarrow>
        (\<exists>e. fst res = Returns (Err e)) \<and> node_at (snd res) q = node_at h q)"

lemma config_replay_effect:
  assumes "config_replay L op scope j h = (out, h')"
  shows "node_at h' = node_at h" and "flocked h' = flocked h"
    and "out = Returns (Ok r) \<Longrightarrow> stored L scope h (state_path j) = Some t \<Longrightarrow> ts_operation t = op_name op
      \<and> ts_status t = Committed \<and> (\<exists>oc v. ts_outcome t = Some oc \<and> oc_result oc = Some v \<and> op_of_json op v = Some r)"
    and "out = Returns (Err e) \<Longrightarrow> (\<forall>r c. e \<noteq> Cfe_PostCommitRecordFailed r c) \<and> (\<forall>x. e \<noteq> Cfe_Activate x) \<and> e \<noteq> StackBusy"
proof -
  obtain x w where ld: "State_load L scope (state_path j) h = (x, w)" by fastforce
  then have w: "node_at w = node_at h" "env w = env h"
    using node_at_State_load[of L scope "state_path j" h] State_env(3)[of L scope "state_path j" h] by simp_all
  have h': "h' = w" using assms ld by (cases x) (auto simp: config_replay_def)
  show "node_at h' = node_at h" "flocked h' = flocked h" using w h' flocked_env[of w h] by simp_all
  show "ts_operation t = op_name op \<and> ts_status t = Committed
      \<and> (\<exists>oc v. ts_outcome t = Some oc \<and> oc_result oc = Some v \<and> op_of_json op v = Some r)"
    if out: "out = Returns (Ok r)" and st: "stored L scope h (state_path j) = Some t"
  proof -
    obtain s where s: "x = Ok s" using out assms ld by (cases x) (auto simp: config_replay_def)
    with State_load_Ok[OF ld[unfolded s]] st have "s = t" by simp
    with assms ld s out show ?thesis
      by (auto simp: config_replay_def split: if_splits TransactionStatus.splits option.splits)
  qed
  show "out = Returns (Err e) \<Longrightarrow> (\<forall>r c. e \<noteq> Cfe_PostCommitRecordFailed r c) \<and> (\<forall>x. e \<noteq> Cfe_Activate x) \<and> e \<noteq> StackBusy"
    using assms ld by (cases x) (auto simp: config_replay_def split: if_splits TransactionStatus.splits option.splits)
qed

lemma bookkeeping_keeps:
  assumes "\<not> below scope q"
  shows "node_at (snd (State_save L scope (state_path j) s h)) q = node_at h q"
    and "node_at (snd (audit_append L scope audit_path a h)) q = node_at h q"
    and "node_at (record_failure L scope j s cm h) q = node_at h q"
    and "node_at (snd (preflight_run L scope j key oper h)) q = node_at h q"
proof -
  show "node_at (snd (State_save L scope (state_path j) s h)) q = node_at h q"
    "node_at (snd (audit_append L scope audit_path a h)) q = node_at h q"
    using same_outside_below_calls(5)[of "state_path j" scope h L s] same_outside_below_calls(4)[of scope h L audit_path a] assms
    by (simp_all add: same_outside_def state_path_def)
  show "node_at (record_failure L scope j s cm h) q = node_at h q" by (rule kept_node_at[OF kept_failure assms])
  have "\<not> preflight_area scope q" using assms preflight_area_below by blast
  then show "node_at (snd (preflight_run L scope j key oper h)) q = node_at h q"
    using same_outside_run[of scope h L j key oper] unfolding same_outside_def by blast
qed

lemma config_record_effect:
  assumes "crates_ok L" and "uuid_wf (op_request op)" and "\<And>r. op_json op r \<noteq> JNull" and "\<not> below scope q"
    and run: "preflight_run L scope (op_request op) key oper w = (Ok (Proceed a), w')"
    and rec: "config_record L op scope a b h = (out, h')"
  shows "flocked h' = (flocked h)(ad_lock a := False) \<and> node_at h' q = node_at h q \<and>
    (\<exists>t. let r = op_result op b t in (\<exists>c. out = Returns (Err (Cfe_PostCommitRecordFailed r c))) \<or>
       out = Returns (Ok r) \<and> recorded L scope h' (op_request op) (op_json op r))"
proof -
  let ?h = "release (ad_lock a) h" and ?i = "op_request op"
  let ?r = "op_result op b (unix_now_secs ?h)"
  note p = admitted_promise[OF run assms(1,2)]
  obtain s where s: "mark_committed ?h (op_json op ?r) (ad_state a) = Ok s"
    using p(5) by (simp add: mark_committed_def finish_def)
  obtain x h1 where sv: "State_save L scope (state_path ?i) s ?h = (x, h1)" by fastforce
  have k1: "node_at h1 q = node_at h q" using bookkeeping_keeps(1)[OF assms(4), of L ?i s ?h] sv by simp
  have f1: "flocked h1 = (flocked h)(ad_lock a := False)"
    using flocked_env[of h1 ?h] State_env(2)[of L scope "state_path ?i" s ?h] sv by simp
  show ?thesis
  proof (cases x)
    case (Inl c)
    then show ?thesis using rec s sv k1 f1 by (auto simp: config_record_def Let_def)
  next
    case (Inr u)
    let ?au = "audit_result h1 ?i True None"
    have out: "out = Returns (Ok ?r)" "h' = snd (audit_append L scope audit_path ?au h1)"
      using rec s sv Inr by (simp_all add: config_record_def Let_def)
    have "recorded L scope h1 ?i (op_json op ?r)"
      using recorded_saved[OF assms(1) run assms(2) s assms(3)] sv Inr by simp
    then have "recorded L scope h' ?i (op_json op ?r)"
      using stored_node[of h' scope "state_path ?i" h1 L] out(2)
        audit_append_frame[of "scope @ state_path ?i" scope audit_path L ?au h1] by (simp add: recorded_def)
    then show ?thesis
      using out k1 f1 bookkeeping_keeps(2)[OF assms(4), of L ?au h1]
        flocked_env[OF audit_append_env[of L scope audit_path ?au h1]]
      by (auto simp: Let_def intro!: exI[of _ "unix_now_secs ?h"])
  qed
qed

lemma config_body_effect:
  assumes "crates_ok L" and "uuid_wf (op_request op)" and "\<And>r. op_json op r \<noteq> JNull" and out: "\<not> below scope (root @ live)"
    and act: "\<And>h. activation_effect sha B root live content guard h (op_activate op h)"
  shows "config_answer L sha op scope root live content guard h (config_body L cancel op scope h)"
proof -
  let ?q = "root @ live"
  obtain p h1 where p: "preflight_run L scope (op_request op) (op_key op) (op_name op) h = (p, h1)" by fastforce
  have k1: "node_at h1 ?q = node_at h ?q"
    using bookkeeping_keeps(4)[OF out, of L "op_request op" "op_key op" "op_name op" h] p by simp
  note f1 = preflight_run_flocked[OF p]
  consider e where "p = Err e" | j where "p = Ok (Replay j)" | a where "p = Ok (Proceed a)"
    by (metis Outcome.exhaust sumE)
  then show ?thesis
  proof cases
    case 1
    then show ?thesis using p k1 f1 by (simp add: config_body_def config_answer_def config_outcome_def)
  next
    case (2 j)
    obtain res h2 where rp: "config_replay L op scope j h1 = (res, h2)" by fastforce
    have body: "config_body L cancel op scope h = (res, h2)" using p 2 rp by (simp add: config_body_def)
    obtain k t where key: "op_key op = Some k" "owner L scope h k = Some j"
        "stored L scope h (state_path j) = Some t" "stored L scope h1 (state_path j) = Some t"
      using p[unfolded 2] by (rule preflight_replay_recorded)
    have "replayed_result L op scope h r" if "res = Returns (Ok r)" for r
      using config_replay_effect(3)[OF rp that key(4)] key(1-3) unfolding replayed_result_def by blast
    then show ?thesis
      using config_replay_effect(1,2,4)[OF rp] k1 f1 2 body
      by (auto simp: config_answer_def config_outcome_def Let_def split: or_panic.split sum.split ActivateConfigError.split)
  next
    case (3 a)
    have lk: "\<not> flocked h (ad_lock a)" "flocked h1 = (flocked h)(ad_lock a := True)" using f1 3 by simp_all
    have fl: "(flocked h1)(ad_lock a := False) = flocked h" using lk by (auto simp: fun_eq_iff)
    have failed: "config_answer L sha op scope root live content guard h
        (Returns (Err e), release (ad_lock a) (record_failure L scope (op_request op) (ad_state a) cm h2))"
      if "flocked h2 = flocked h1" "\<forall>r c. e \<noteq> Cfe_PostCommitRecordFailed r c"
        "node_at h2 ?q = (case e of Cfe_Activate (RecoveryFailed _ (RF_File _)) \<Rightarrow> Some (File content) | _ \<Rightarrow> node_at h ?q)" for e h2 cm
      using that fl kept_failure[of scope h2 L "op_request op" "ad_state a" cm] bookkeeping_keeps(3)[OF out, of L "op_request op" "ad_state a" cm h2]
      by (cases e) (auto simp: config_answer_def config_outcome_def kept_def split: ActivationError.split RestoreFailure.split)
    obtain r h2 where r: "op_activate op h1 = (r, h2)" by fastforce
    from act[of h1] r have eff: "live_after content (node_at h ?q) ?q (r, h2)" "flocked h2 = flocked h1"
      "(\<exists>x. r = Ok x) \<Longrightarrow> is_satisfied_by sha guard (file_at root h live)"
      using k1 by (simp_all add: activation_effect_def kept_def file_at_def)
    show ?thesis
    proof (cases "PreCommit_check (PreCommit cancel) (tick h1)")
      case (Inl e)
      then show ?thesis using p 3 failed[of h1 Cfe_Cancelled] k1 by (simp add: config_body_def precommit_check_def)
    next
      case (Inr u)
      then have check: "precommit_check cancel x h1 = (Ok u, h1)" for x :: "('a, 'b) ActivateConfigError" by (simp add: precommit_check_def)
      show ?thesis
      proof (cases r)
        case (Inl e)
        then have "config_body L cancel op scope h = (Returns (Err (Cfe_Activate e)), release (ad_lock a)
            (record_failure L scope (op_request op) (ad_state a) (op_protocol op (Cfe_Activate e)) h2))"
          using p 3 check r by (simp add: config_body_def)
        then show ?thesis
          using failed[of h2 "Cfe_Activate e"] eff(1,2) Inl
          by (simp add: live_after_def split: ActivationError.splits RestoreFailure.splits)
      next
        case (Inr act')
        then have "config_body L cancel op scope h = config_record L op scope a (activated act') h2"
          using p 3 check r by (simp add: config_body_def)
        moreover obtain res h3 where rec: "config_record L op scope a (activated act') h2 = (res, h3)" by fastforce
        moreover note config_record_effect[OF assms(1,2,3) out p[unfolded 3] rec]
        ultimately show ?thesis
          using eff Inr fl by (auto simp: config_answer_def config_outcome_def live_after_def Let_def)
      qed
    qed
  qed
qed

lemma kept_open_subtree: "kept (below engine) h (snd (open_subtree engine rel h))"
proof -
  have o: "kept (below engine) w (snd (open_managed_dir engine p w))" for p w by (rule kept_read) simp_all
  have c: "kept (below engine) w (snd (create_dir_all scope q w))"
    if "open_managed_dir engine p v = (Ok scope, v')" for scope p q v v' w
    using kept_create_dirs[of engine w p q] open_managed_Ok[OF that] by simp
  show ?thesis
    unfolding open_subtree_def
    by (intro kept_try_io o) (auto intro!: kept_try_io c kept_create_dirs[where p = "[]", simplified] o)
qed

lemma open_subtree_Ok: "open_subtree engine rel h = (Ok scope, h') \<Longrightarrow> scope = engine @ rel"
  by (auto simp: open_subtree_def try_io_Ok_iff dest: open_managed_Ok)

lemma recorded_release [simp]: "recorded L scope (release p h) = recorded L scope h"
  by (simp add: recorded_def fun_eq_iff stored_cong[of "release p h" h])

lemma config_outcome_release [simp]:
  "config_outcome L op scope content sat old new h (release p h') out = config_outcome L op scope content sat old new h h' out"
proof (cases out)
  case (Returns r)
  then show ?thesis by (cases r) (simp_all add: config_outcome_def)
qed (simp add: config_outcome_def)

text \<open>The steps before admission touch no record and no claim of the scope.\<close>

definition same_records :: "ManagedRoot \<Rightarrow> host \<Rightarrow> host \<Rightarrow> bool" where
  "same_records scope h h' \<longleftrightarrow> (\<forall>k. file_at scope h' (index_path k) = file_at scope h (index_path k))
     \<and> (\<forall>j. file_at scope h' (state_path j) = file_at scope h (state_path j))"

lemma replayed_cong:
  assumes "same_records scope h h'"
  shows "replayed_result L op scope h' r = replayed_result L op scope h r"
proof -
  have "owner L scope h' k = owner L scope h k" for k
    by (rule owner_cong) (use assms in \<open>simp add: same_records_def\<close>)
  moreover have "stored L scope h' (state_path j) = stored L scope h (state_path j)" for j
    using assms by (simp add: stored_def same_records_def)
  ultimately show ?thesis by (simp add: replayed_result_def)
qed

lemma same_records_open: "same_records scope h (snd (open_subtree engine rel h))"
proof -
  have "file_at r (snd (open_subtree engine rel h)) = file_at r h" for r
    unfolding open_subtree_def
    by (intro try_io_keeps[where g = "file_at r"]) (simp_all add: file_at_cong[OF node_at_read_only(7)])
  then show ?thesis by (simp add: same_records_def)
qed

lemma same_records_lock: "same_records scope h (snd (lock_acquire L sc lock_path i h))"
proof -
  have "scope @ state_path j \<noteq> sc @ lock_path" and "scope @ index_path k \<noteq> sc @ lock_path" for j k
    by (rule notI, drule arg_cong[where f = "\<lambda>p. last (butlast p)"],
        simp add: lock_path_def state_path_def index_path_def idempotency_dir_def butlast_append)+
  then show ?thesis by (simp add: same_records_def file_at_def lock_acquire_frame)
qed

lemma same_records_trans: "same_records scope h h1 \<Longrightarrow> same_records scope h1 h2 \<Longrightarrow> same_records scope h h2"
  by (simp add: same_records_def)

lemma config_outcome_before:
  assumes "same_records scope h h1"
  shows "config_outcome L op scope content sat old new h1 h' out = config_outcome L op scope content sat old new h h' out"
  by (simp only: config_outcome_def replayed_cong[OF assms])

lemma config_answer_later:
  assumes "config_answer L sha op scope root live content guard h1 res"
    and "node_at h1 (root @ live) = node_at h (root @ live)" and "flocked h1 = flocked h" and "same_records scope h h1"
  shows "config_answer L sha op scope root live content guard h res"
  using assms(1-3) by (simp add: config_answer_def file_at_def config_outcome_before[OF assms(4)])

lemma config_answer_locked:
  assumes "config_answer L sha op scope root live content guard h1 (out, h2)"
    and "node_at h1 (root @ live) = node_at h (root @ live)" and "flocked h1 = (flocked h)(l := True)" and "\<not> flocked h l"
    and "same_records scope h h1"
  shows "config_answer L sha op scope root live content guard h (out, release l h2)"
proof -
  have "((flocked h)(l := True))(l := False) = flocked h" using assms(4) by (auto simp: fun_eq_iff)
  then show ?thesis
    using assms(1-3) by (simp add: config_answer_def file_at_def config_outcome_before[OF assms(5)])
qed

lemma config_execute_effect:
  assumes "crates_ok L" and "uuid_wf (op_request op)" and "\<And>r. op_json op r \<noteq> JNull" and "apart root engine"
    and act: "\<And>h. activation_effect sha B root live content guard h (op_activate op h)"
  shows "config_answer L sha op (engine @ rel) root live content guard h
    (config_execute L cancel op engine (open_subtree engine rel) stack h)"
proof -
  let ?q = "root @ live"
  have out: "\<not> below engine ?q" using assms(4) by (rule cur_outside_engine)
  then have out': "\<not> below (engine @ p) ?q" for p using below_trans below_append by blast
  have op: "node_at (snd (open_subtree engine p w)) ?q = node_at w ?q" "flocked (snd (open_subtree engine p w)) = flocked w" for p w
    using kept_node_at[OF kept_open_subtree out] kept_open_subtree[of engine w p] by (simp_all add: kept_def)
  note body = config_body_effect[OF assms(1-3) out' act, where cancel = cancel]
  have io_answer: "config_answer L sha op scope root live content guard h (Returns (Err (Cfe_Io e)), w)"
    if "node_at w ?q = node_at h ?q" "flocked w = flocked h" for scope e w
    using that by (simp add: config_answer_def config_outcome_def)
  obtain r1 h1 where r1: "open_subtree engine rel h = (r1, h1)" by fastforce
  note k1 = op[of rel h, unfolded r1 snd_conv]
  have s1: "same_records (engine @ rel) h h1" using same_records_open[of "engine @ rel" h engine rel] r1 by simp
  show ?thesis
  proof (cases "(\<exists>e. r1 = Inl e) \<or> \<not> stack")
    case True
    show ?thesis
    proof (cases r1)
      case (Inl e)
      then show ?thesis using r1 k1 by (simp add: config_execute_def io_answer)
    next
      case (Inr scope)
      then have "scope = engine @ rel" "\<not> stack" using True r1 open_subtree_Ok by auto
      then have "config_execute L cancel op engine (open_subtree engine rel) stack h = config_body L cancel op (engine @ rel) h1"
        using r1 Inr by (simp add: config_execute_def)
      then show ?thesis using config_answer_later[OF body[of rel h1] k1 s1] by simp
    qed
  next
    case False
    then obtain scope where r1': "r1 = Ok scope" and stack by (cases r1) auto
    then have scope: "scope = engine @ rel" using r1 open_subtree_Ok by blast
    obtain r2 h2 where r2: "open_scope engine h1 = (r2, h2)" by fastforce
    have k2: "node_at h2 ?q = node_at h ?q" "flocked h2 = flocked h"
      using op[of "expect_path SCOPE" h1] r2 k1 by (simp_all add: open_scope_def)
    show ?thesis
    proof (cases r2)
      case (Inl e)
      then show ?thesis using r1 r1' r2 \<open>stack\<close> k2 by (simp add: config_execute_def config_answer_def config_outcome_def)
    next
      case (Inr sc)
      then have sc: "sc = engine @ expect_path SCOPE" using r2 open_subtree_Ok by (auto simp: open_scope_def)
      have "?q \<noteq> sc @ lock_path" using out by (auto simp: sc)
      then have frame: "node_at (snd (lock_acquire L sc lock_path i w)) ?q = node_at w ?q" for i w by (rule lock_acquire_frame)
      show ?thesis
      proof (cases rule: lock_acquire_cases[of L sc lock_path "op_request op" h2])
        case (granted h3)
        obtain res h4 where b: "config_body L cancel op scope h3 = (res, h4)" by fastforce
        have s3: "same_records scope h h3"
        proof (rule same_records_trans[OF s1[folded scope] same_records_trans])
          show "same_records scope h1 h2"
            using same_records_open[of scope h1 engine "expect_path SCOPE"] r2 by (simp add: open_scope_def)
          show "same_records scope h2 h3" using same_records_lock[of scope h2 L sc "op_request op"] granted(1) by simp
        qed
        have "config_execute L cancel op engine (open_subtree engine rel) stack h = (res, release (sc @ lock_path) h4)"
          using r1 r1' r2 Inr \<open>stack\<close> granted(1) b by (simp add: config_execute_def acquire_stack_lock_def)
        then show ?thesis
          using config_answer_locked[OF body[of rel h3, folded scope, unfolded b] _ _ _ s3] granted frame[of "op_request op" h2] k2 scope by simp
      next
        case (refused e h3)
        then show ?thesis
          using r1 r1' r2 Inr \<open>stack\<close> k2 frame[of "op_request op" h2]
          by (simp add: config_execute_def acquire_stack_lock_def config_answer_def config_outcome_def)
      qed
    qed
  qed
qed

lemma config_body_not_busy:
  fixes op :: "('r, 'res) config_op"
  shows "fst (config_body L cancel op scope h) \<noteq> Returns (Err StackBusy)"
proof -
  have "fst (config_replay L op scope j w) \<noteq> Returns (Err StackBusy)" for j w
    using config_replay_effect(4)[of L op scope j w "Returns (Err StackBusy)" _ StackBusy]
    by (cases "config_replay L op scope j w") auto
  moreover have "fst (config_record L op scope a b w) \<noteq> Returns (Err StackBusy)" for a b w
    by (auto simp: config_record_def Let_def split: sum.splits prod.splits)
  moreover have "try_io (precommit_check cancel Cfe_Cancelled w) id (\<lambda>_ h.
      try_io (op_activate op h) Cfe_Activate (\<lambda>activation h. (Ok activation, h))) \<noteq> (Err (StackBusy :: ('r, 'res) ActivateConfigError), w')" for w w'
    by (cases "PreCommit_check (PreCommit cancel) (tick w)"; cases "op_activate op w"; cases "fst (op_activate op w)")
      (auto simp: precommit_check_def)
  ultimately show ?thesis
    by (auto simp: config_body_def split: sum.split prod.split Outcome.split)
qed

lemma config_execute_guarded:
  assumes answer: "config_answer L sha op scope root live content guard h
      (config_execute L cancel op engine (open_subtree engine rel) stack h)"
  shows "stack_guarded stack engine (root @ live) h (config_execute L cancel op engine (open_subtree engine rel) stack h)"
    (is "stack_guarded _ _ _ _ ?res")
proof -
  have path: "expect_path SCOPE = [''stacks'', ''wcp'']"
    using parse_two[of "''stacks''" "''wcp''"] by (simp add: expect_path_def SCOPE_def safe_component_def)
  have "fst ?res \<noteq> Returns (Err StackBusy)" if "\<not> stack"
    using that by (simp add: config_execute_def config_body_not_busy split: sum.split prod.split)
  moreover have "fst ?res = Returns (Err StackBusy) \<or> (\<exists>e. fst ?res = Returns (Err (Cfe_Io e)))"
    if "stack" and busy: "flocked h (engine @ [''stacks'', ''wcp''] @ lock_path)"
  proof -
    obtain r1 h1 where r1: "open_subtree engine rel h = (r1, h1)" by fastforce
    obtain r2 h2 where r2: "open_scope engine h1 = (r2, h2)" by fastforce
    have "flocked h2 = flocked h"
      using kept_open_subtree[of engine h rel] kept_open_subtree[of engine h1 "expect_path SCOPE"] r1 r2
      by (simp add: kept_def open_scope_def)
    moreover have "sc = engine @ [''stacks'', ''wcp'']" if "r2 = Ok sc" for sc
      using r2 that open_subtree_Ok path by (auto simp: open_scope_def)
    moreover obtain e h3 where "lock_acquire L (engine @ [''stacks'', ''wcp'']) lock_path (op_request op) h2 = (Err e, h3)"
      if "flocked h2 (engine @ [''stacks'', ''wcp''] @ lock_path)"
      using that by (cases rule: lock_acquire_cases[of L "engine @ [''stacks'', ''wcp'']" lock_path "op_request op" h2]) simp_all
    ultimately show ?thesis
      using r1 r2 that by (cases r1; cases r2) (simp_all add: config_execute_def acquire_stack_lock_def)
  qed
  moreover have "node_at (snd ?res) (root @ live) = node_at h (root @ live)"
    if "fst ?res = Returns (Err StackBusy) \<or> (\<exists>e. fst ?res = Returns (Err (Cfe_Io e)))"
    using that answer unfolding config_answer_def config_outcome_def by (elim disjE exE) simp_all
  ultimately show ?thesis unfolding stack_guarded_def by blast
qed

section \<open>The three operations are all or nothing\<close>

lemma backup_file: "Domain_parse v = Ok domain \<Longrightarrow> backup_route_path domain = [domain @ ''.maintenance-backup'']"
proof -
  assume "Domain_parse v = Ok domain"
  then have "list_all name_char (domain @ ''.maintenance-backup'')"
    using Domain_parse_chars[of v domain] by (simp add: name_char_def)
  then have "safe_component (domain @ ''.maintenance-backup'')" by (intro safe_componentI) simp_all
  then show ?thesis using one_path by (simp add: backup_route_path_def)
qed

lemma write_atomic_Err:
  assumes "p \<noteq> []" and "write_atomic root p c h = (Err e, h')"
  shows "node_at h' (root @ p) = node_at h (root @ p)"
proof -
  have "butlast p @ [last p @ ''.tmp''] \<noteq> p"
    using assms(1) by (metis append_butlast_last_id append_self_conv last_snoc list.discI)
  then have "root @ butlast p @ [last p @ ''.tmp''] \<noteq> root @ p" by simp
  then show ?thesis
    using assms by (auto simp: write_atomic_def temp_sibling_path_def create_trunc_def write_all_def sync_all_def
        rename_node_def io_call_def split: if_splits option.splits node.splits)
qed

definition backup_area :: "ManagedRoot \<Rightarrow> string \<Rightarrow> path \<Rightarrow> bool" where
  "backup_area root domain q \<longleftrightarrow> q \<in> {root @ [domain @ ''.maintenance-backup''], root @ [domain @ ''.maintenance-backup.tmp'']}"

lemma activate_backup_effect:
  assumes "Domain_parse v = Ok domain"
  shows "activation_effect sha (backup_area root domain) root (backup_route_path domain) content guard h
    (activate_backup sha root domain content guard h)"
  unfolding activate_backup_def backup_file[OF assms]
proof (rule opened_effect)
  fix h
  let ?p = "[domain @ ''.maintenance-backup'']"
  let ?k = "\<lambda>current h. if \<not> is_satisfied_by sha guard current then (Err HashGuardMismatch, h)
       else if current = Some content then (Ok \<lparr> activated = False \<rparr>, h)
       else try_io (write_atomic root ?p content h) AE_Io (\<lambda>_ h. (Ok \<lparr> activated = True \<rparr>, h))"
  obtain r w where w: "write_atomic root ?p content (next_tick h) = (r, w)" by fastforce
  have frame: "node_at w q = node_at h q" if "\<not> backup_area root domain q" for q
    using that write_atomic_frame[of ?p q root content "next_tick h"] w by (simp add: backup_area_def)
  have "env w = env h" using env_composed(4)[of root ?p content "next_tick h"] w by simp
  then have kw: "kept (backup_area root domain) h w" using kept_node[of "(r, w)" h "backup_area root domain"] frame by simp
  have step: "activation_effect sha (backup_area root domain) root ?p content guard h (?k current (next_tick h) :: ComposeError activation)"
    if "case current of None \<Rightarrow> node_at h (root @ ?p) = None | Some b \<Rightarrow> node_at h (root @ ?p) = Some (File b)" for current
  proof (cases "is_satisfied_by sha guard current \<and> current \<noteq> Some content")
    case False
    then show ?thesis using that
      by (cases current) (auto simp: activation_effect_def live_after_def file_at_def kept_tick)
  next
    case True
    then show ?thesis
      using that w kw write_atomic_result(2)[of ?p root content "next_tick h"] write_atomic_Err[of ?p root content "next_tick h" _ w]
      by (cases r; cases current) (auto simp: activation_effect_def live_after_def file_at_def)
  qed
  show "activation_effect sha (backup_area root domain) root ?p content guard h (try_io (read_optional root ?p h) id ?k :: ComposeError activation)"
  proof (cases rule: ingress.read_cases[of root ?p h])
    case (failed e)
    then show ?thesis by (simp add: activation_effect_early kept_tick)
  next
    case absent
    then show ?thesis using step[of None] by simp
  next
    case (present b)
    then show ?thesis using step[of "Some b"] by simp
  qed
qed

lemma result_json_present:
  "ActivateConfigResult_json r1 \<noteq> JNull" "RuntimeActivateConfigResult_json r2 \<noteq> JNull" "ComposeActivateConfigResult_json r3 \<noteq> JNull"
  by (simp_all add: ActivateConfigResult_json_def RuntimeActivateConfigResult_json_def ComposeActivateConfigResult_json_def value_map_def)

definition ingress_target :: "ActivateConfigRequest \<Rightarrow> path" where
  "ingress_target rq = (case ar_target rq of Live \<Rightarrow> ingress_route_path (ar_domain rq) | Backup \<Rightarrow> backup_route_path (ar_domain rq))"

text \<open>
  (C4) However \<open>ingress.activateConfig\<close> ends, it leaves every lock as it found it. On success either the
  guard was satisfied by the file that was there, the file of the domain now has exactly the submitted
  content, and the committed record of this request with this result is on disk; or nothing was changed,
  and the request carried a key that, on the host as the operation found it, belonged to a committed
  request of the same operation whose recorded result is the answer. A failure to record after the commit
  point also leaves the content in place and says that the guard was satisfied. Every other error leaves
  the file as it was, except when putting the previous file back failed, which is reported as such. While
  another operation holds the lock of the managed stack it fails and changes nothing.
\<close>

theorem ingress_activation_all_or_nothing:
  assumes "crates_ok L" and "confined A P" and "uuid_wf (ar_request_id rq)" and "Domain_parse v = Ok (ar_domain rq)"
    and "apart (ax_root ctx) (ax_engine_state ctx)"
    and "ar_target rq = Live \<Longrightarrow> programs_apart A (ax_root ctx) (RoutePaths_new (ingress_target rq) (ar_request_id rq))"
  shows "config_answer L sha (ingress_op sha P a ctx rq) (ax_engine_state ctx @ [''ingress'']) (ax_root ctx) (ingress_target rq)
      (ar_content rq) (ar_guard rq) h (ingress_execute L sha P a cancel ctx rq h)
    \<and> stack_guarded True (ax_engine_state ctx) (ax_root ctx @ ingress_target rq) h (ingress_execute L sha P a cancel ctx rq h)"
proof -
  have scope: "expect_path ''ingress'' = [''ingress'']" by (rule one_path) (simp add: safe_component_def)
  have "\<exists>B. \<forall>h. activation_effect sha B (ax_root ctx) (ingress_target rq) (ar_content rq) (ar_guard rq) h
      (op_activate (ingress_op sha P a ctx rq) h)"
  proof (cases "ar_target rq")
    case Live
    then have "programs_apart A (ax_root ctx) (RoutePaths_new (ingress_route_path (ar_domain rq)) (ar_request_id rq))"
      using assms(6) by (simp add: ingress_target_def)
    from ingress_live_effect[OF assms(2,4,3) this] Live show ?thesis
      by (intro exI[of _ "operation_area A (ax_root ctx) (ingress_target rq) (ar_request_id rq)"])
         (simp add: ingress_op_def ingress_activate_def ingress_target_def)
  next
    case Backup
    with activate_backup_effect[OF assms(4)] show ?thesis
      by (intro exI[of _ "backup_area (ax_root ctx) (ar_domain rq)"])
         (simp add: ingress_op_def ingress_activate_def ingress_target_def)
  qed
  then obtain B where B: "\<And>h. activation_effect sha B (ax_root ctx) (ingress_target rq) (ar_content rq) (ar_guard rq) h
      (op_activate (ingress_op sha P a ctx rq) h)" by blast
  have "config_answer L sha (ingress_op sha P a ctx rq) (ax_engine_state ctx @ [''ingress'']) (ax_root ctx) (ingress_target rq)
      (ar_content rq) (ar_guard rq) h (ingress_execute L sha P a cancel ctx rq h)"
    unfolding ingress_execute_def open_ingress_state_def scope
    by (rule config_execute_effect[OF assms(1) _ _ assms(5) B])
       (simp_all add: ingress_op_def assms(3) result_json_present)
  then show ?thesis
    unfolding ingress_execute_def open_ingress_state_def using config_execute_guarded by blast
qed

text \<open>
  (C5) The same of \<open>compose.activateConfig\<close>, for the file of the named stack. The lock of the managed stack
  concerns that stack only: for another one it is never reported busy, and for this one the operation
  fails and changes nothing while the lock is held elsewhere.
\<close>

theorem compose_activation_all_or_nothing:
  assumes "crates_ok L" and "confined A P" and "uuid_wf (cr_request rq)" and "StackName_parse v = Ok (cr_stack_name rq)"
    and "apart (cx_compose_root ctx) (cx_engine_state ctx)"
    and "programs_apart A (cx_compose_root ctx) (RoutePaths_new (compose_route_path (cr_stack_name rq)) (cr_request rq))"
  shows "config_answer L sha (compose_op sha P ctx rq) (cx_engine_state ctx @ [''compose'', cr_stack_name rq]) (cx_compose_root ctx)
      (compose_route_path (cr_stack_name rq)) (cr_content rq) (cr_guard rq) h (compose_execute L sha P cancel ctx rq h)
    \<and> stack_guarded (cr_stack_name rq = STACK_NAME) (cx_engine_state ctx) (cx_compose_root ctx @ compose_route_path (cr_stack_name rq)) h
        (compose_execute L sha P cancel ctx rq h)"
proof -
  have scope: "expect_path (''compose/'' @ cr_stack_name rq) = [''compose'', cr_stack_name rq]"
    using parse_two[of "''compose''", OF _ StackName_component[OF assms(4)]] by (simp add: expect_path_def safe_component_def)
  have act: "activation_effect sha (operation_area A (cx_compose_root ctx) (compose_route_path (cr_stack_name rq)) (cr_request rq))
      (cx_compose_root ctx) (compose_route_path (cr_stack_name rq)) (cr_content rq) (cr_guard rq) h
      (op_activate (compose_op sha P ctx rq) h)" for h
    using stack_effect[OF assms(2,4,3,6)] by (simp add: compose_op_def)
  have "config_answer L sha (compose_op sha P ctx rq) (cx_engine_state ctx @ [''compose'', cr_stack_name rq]) (cx_compose_root ctx)
      (compose_route_path (cr_stack_name rq)) (cr_content rq) (cr_guard rq) h (compose_execute L sha P cancel ctx rq h)"
    unfolding compose_execute_def open_compose_state_def scope
    by (rule config_execute_effect[OF assms(1) _ _ assms(5) act])
       (simp_all add: compose_op_def assms(3) result_json_present)
  then show ?thesis
    unfolding compose_execute_def open_compose_state_def using config_execute_guarded by blast
qed

text \<open>And of \<open>runtime.activateConfig\<close>, for the fragment of a domain in a runtime pool.\<close>

theorem runtime_activation_all_or_nothing:
  assumes "crates_ok L" and "confined A P" and "uuid_wf (rr_request rq)" and "RuntimeId_parse u = Ok (rr_runtime_id rq)"
    and "Domain_parse v = Ok (rr_domain rq)" and "apart (ax_root ctx) (ax_engine_state ctx)"
    and "programs_apart A (ax_root ctx) (RoutePaths_new (runtime_route_path (rr_runtime_id rq) (rr_domain rq)) (rr_request rq))"
  shows "config_answer L sha (runtime_op sha P a ctx rq) (ax_engine_state ctx @ [''runtime-config'', rr_runtime_id rq]) (ax_root ctx)
    (runtime_route_path (rr_runtime_id rq) (rr_domain rq)) (rr_content rq) (rr_guard rq) h
    (runtime_execute L sha P a cancel ctx rq h)"
proof -
  have scope: "expect_path (''runtime-config/'' @ rr_runtime_id rq) = [''runtime-config'', rr_runtime_id rq]"
    using parse_two[of "''runtime-config''", OF _ RuntimeId_component[OF assms(4)]] by (simp add: expect_path_def safe_component_def)
  have act: "activation_effect sha (operation_area A (ax_root ctx) (runtime_route_path (rr_runtime_id rq) (rr_domain rq)) (rr_request rq))
      (ax_root ctx) (runtime_route_path (rr_runtime_id rq) (rr_domain rq)) (rr_content rq) (rr_guard rq) h
      (op_activate (runtime_op sha P a ctx rq) h)" for h
    using runtime_effect[OF assms(2,4,5,3,7)] by (simp add: runtime_op_def)
  show ?thesis
    unfolding runtime_execute_def open_runtime_config_state_def scope
    by (rule config_execute_effect[OF assms(1) _ _ assms(6) act])
       (simp_all add: runtime_op_def assms(3) result_json_present)
qed

definition example_route_request :: ActivateConfigRequest where
  "example_route_request = \<lparr> ar_domain = ''a.example'', ar_content = ''route'', ar_guard = Absent, ar_target = Live,
     ar_request_id = example_id2, ar_idempotency_key = None \<rparr>"

definition example_route_context :: ActivateContext where
  "example_route_context = \<lparr> ax_root = [''srv''], ax_engine_state = [''st''], ax_compose = \<lparr> ax_stack_dir = Some ''/s'', ax_docker_path = None \<rparr> \<rparr>"

definition example_account :: account where
  "example_account = \<lparr> ac_home = None, ac_passwd = None \<rparr>"

lemma example_roots_apart: "apart [''srv''] [''st'']"
  by (auto simp: apart_def below_def path_starts_with_iff)

lemma no_programs_apart: "programs_apart (\<lambda>_. False) root paths"
  by (simp add: programs_apart_def)

theorem ingress_activation_all_or_nothing_witness:
  "config_answer example_deploy_crates example_sha
     (ingress_op example_sha example_tools example_account example_route_context example_route_request)
     ([''st''] @ [''ingress'']) [''srv''] (ingress_target example_route_request) ''route'' Absent example_deploy_host
     (ingress_execute example_deploy_crates example_sha example_tools example_account (\<lambda>_. False) example_route_context
        example_route_request example_deploy_host)"
proof -
  have "Domain_parse ''a.example'' = Ok (ar_domain example_route_request)" by code_simp
  from ingress_activation_all_or_nothing[of example_deploy_crates, OF _ example_tools_confined[of "\<lambda>_. False"] _ this, of example_route_context]
  show ?thesis
    using example_roots_apart
    by (simp add: example_route_context_def example_route_request_def example_deploy_crates_def no_programs_apart)
qed

definition example_stack_request :: ComposeActivateConfigRequest where
  "example_stack_request = \<lparr> cr_stack_name = ''wp-stack'', cr_content = ''services:'', cr_guard = Absent,
     cr_request = example_id2, cr_key = None \<rparr>"

definition example_stack_context :: ComposeActivateContext where
  "example_stack_context = \<lparr> cx_compose_root = [''srv''], cx_engine_state = [''st''], cx_docker_path = None \<rparr>"

theorem compose_activation_all_or_nothing_witness:
  "config_answer example_deploy_crates example_sha (compose_op example_sha example_tools example_stack_context example_stack_request)
     ([''st''] @ [''compose'', ''wp-stack'']) [''srv''] (compose_route_path ''wp-stack'') ''services:'' Absent example_deploy_host
     (compose_execute example_deploy_crates example_sha example_tools (\<lambda>_. False) example_stack_context
        example_stack_request example_deploy_host)"
proof -
  have "StackName_parse ''wp-stack'' = Ok (cr_stack_name example_stack_request)" by code_simp
  from compose_activation_all_or_nothing[of example_deploy_crates, OF _ example_tools_confined[of "\<lambda>_. False"] _ this, of example_stack_context]
  show ?thesis
    using example_roots_apart
    by (simp add: example_stack_context_def example_stack_request_def example_deploy_crates_def no_programs_apart)
qed

end
