(* ===== verification/Spec2Isabelle.thy ===== *)
theory Spec2Isabelle
  imports PreflightRace ResourceLock Rollback JournalCommands TarBounds ConfigExecute
begin

text \<open>
  A verification library for the operations engine, a command-line program that a control panel runs
  over SSH on a managed host. Every mutation of the engine goes through one transaction core: the
  request is admitted (retention sweep, idempotency key, site lock, durable record, audit event), does
  its work, and ends in a recorded outcome. The library models this core, the process runner, the
  configuration, and the operations built on them that decide which release a site serves.

  \<^bold>\<open>The host.\<close> \<open>HostFs\<close> models the machine the engine runs on as a record: the tree of named nodes
  (directories, files, symbolic links), the kernel's table of advisory locks, modification times, the
  clock, and two oracles, \<open>fails\<close> and \<open>torn\<close>, that say at each call (counted by \<open>tick\<close>) whether it fails
  and how much of an interrupted write reached the disk. Every theorem is for every such oracle, so it
  covers every failing call and every crash of a write. The methods of \<open>ManagedRoot\<close>
  (\<open>src/src/filesystem.rs\<close>) are functions on it; an operation returns its result and the new host, and
  \<open>try_io\<close> of \<open>Prelude\<close> is the question mark operator.

  \<^bold>\<open>Code outside the repository\<close> is a parameter: \<open>crates\<close> holds the JSON text functions of
  \<open>serde_json\<close> and the reader of UUIDs, with \<open>crates_ok\<close> saying that printing and reading agree and
  that a UUID is read from its canonical text; \<open>sha256\<close> is the hash of the resource locks and of the guards; \<open>programs\<close> is
  what a started child does (\<open>Process\<close>), and \<open>confined A P\<close> says that programs started with the site's
  own identity write nothing outside \<open>A\<close>. Structs are read from JSON objects; the positional array form
  that serde also accepts is not modelled.

  \<^bold>\<open>Theories\<close>
  \<^item> \<open>Prelude\<close>, \<open>Json\<close>, \<open>RustText\<close>: results, options, the standard library's text functions, JSON values.
  \<^item> \<open>SiteTypes\<close> (\<open>site.rs\<close>, \<open>transaction/mod.rs\<close>): the validated identifiers and paths, and that the
    parsers accept exactly the intended texts.
  \<^item> \<open>Protocol\<close> (\<open>error.rs\<close>, \<open>protocol/mod.rs\<close>, \<open>secret_result.rs\<close>): responses, codes, one-time secrets.
  \<^item> \<open>TxState\<close> (\<open>transaction/state.rs\<close>, \<open>commit.rs\<close>): the record of a request; it finishes once, and saving it is atomic.
  \<^item> \<open>AuditLog\<close> (\<open>transaction/audit.rs\<close>): events, appended and never rewritten.
  \<^item> \<open>SiteLock\<close>, \<open>ResourceLock\<close> (\<open>transaction/lock.rs\<close>, \<open>resource_lock.rs\<close>): exclusive locks; several are taken
    in one order, all or none.
  \<^item> \<open>Idempotency\<close>, \<open>Prune\<close> (\<open>transaction/idempotency.rs\<close>, \<open>prune.rs\<close>): at most one claim wins; the sweep
    removes what is due and keeps what is in progress.
  \<^item> \<open>Preflight\<close>, \<open>PreflightRace\<close> (\<open>mutation/preflight.rs\<close>): what admission establishes, that retries do not
    proceed, and mutual exclusion over every interleaving of concurrent requests as a step relation.
  \<^item> \<open>Process\<close> (\<open>process.rs\<close>): bounded capture, supervision that ends, the ways to run a child.
  \<^item> \<open>EngineConfig\<close> (\<open>config.rs\<close>): configuration and manifests, disjoint roots, owner-checked files.
  \<^item> \<open>Release\<close> (\<open>deploy/activate.rs\<close>, \<open>deploy/cleanup.rs\<close>): the atomic switch and the retention of releases.
  \<^item> \<open>Recovery\<close> (\<open>deployment_recovery.rs\<close>): checkpoints and what becomes of an interrupted request.
  \<^item> \<open>Staging\<close> (\<open>deploy/resolve.rs\<close>, \<open>staging.rs\<close>, \<open>validate.rs\<close>): authorization, checkout, validation.
  \<^item> \<open>Switching\<close>: the contract of an operation that switches the release of a site, as a locale.
  \<^item> \<open>Deploy\<close> (\<open>deploy/mod.rs\<close>, \<open>deploy/execute.rs\<close>): the pipeline; it is all or nothing, and a retry
    is answered with the recorded result.
  \<^item> \<open>Rollback\<close> (\<open>rollback/mod.rs\<close>, \<open>eligibility.rs\<close>, \<open>execute.rs\<close>): the second instance of the contract.
  \<^item> \<open>JournalEntry\<close>, \<open>Journal\<close>, \<open>JournalAppend\<close>, \<open>JournalPage\<close> (\<open>journal.rs\<close>): the fields of the change journal
    and what their validation excludes; appending, which survives torn lines and recognises retries;
    listing, which equals reading everything. The wait for its lock is bounded by the slept time, and
    \<open>json_lines_ok\<close> says that the compact text of an object is one line no beginning of which is a text.
  \<^item> \<open>JournalCommands\<close> (\<open>commands/journal.rs\<close>, \<open>journal/auto.rs\<close>): the commands and the engine's own entries.
  \<^item> \<open>TarExtract\<close>, \<open>TarBounds\<close> (\<open>tar_extract.rs\<close>, \<open>symlink_stays_inside\<close> of \<open>wordpress_migrate_export.rs\<close>): the
    reader of archives; it only adds, only below its destination and within its limits.
  \<^item> \<open>ConfigActivate\<close>, \<open>ConfigExecute\<close> (\<open>ingress/\<close>, \<open>runtime_config/\<close>, \<open>compose_config/\<close>: \<open>activate.rs\<close>, \<open>execute.rs\<close>;
    \<open>compose.rs\<close>): replacing a live configuration file. The sequence and the pipeline the three sources repeat
    are defined once; the locale \<open>reloader\<close> is their contract with the check and the reload in a
    container, and each operation is all or nothing.

  This theory ends the library with an abstract machine of one site, whose state is the release that is
  served: any sequence of deploys, rollbacks and recoveries, whatever fails in them, refines it.

  \<^bold>\<open>Loops and fuel.\<close> Every loop of the source is a total function: directory scans recurse over the
  listed names, the supervision loop has the remaining time as its measure, the spawn loop the
  remaining attempts, the reader of archives the bytes left. Only \<open>follow_path\<close>, which says where a link
  leads and is no code of the engine, takes a bound.

  \<^bold>\<open>Not modelled\<close>: the command line and the operations whose state lives in another program, such as
  databases, containers, content management systems, package managers and services, which the engine
  drives by building commands for them; the ingress operations other than activation. Failpoints are left out: they do nothing outside fault-injection builds.
\<close>

section \<open>The release a site serves\<close>

text \<open>
  The operations that concern the release of one site, as steps of the host: deploys and rollbacks
  with any request, any manifest and any programs confined to the release they work on, and
  recoveries. A step is labelled with the release it was asked for, if any.
\<close>

inductive site_step :: "crates \<Rightarrow> path \<Rightarrow> path \<Rightarrow> SiteId \<Rightarrow> host \<Rightarrow> ReleaseId option \<Rightarrow> host \<Rightarrow> bool"
  for L content engine site where
  deployed: "deploy_execute L P cancel ctx m rq h = (out, h') \<Longrightarrow> dc_content_root ctx = content \<Longrightarrow>
    dc_engine_state ctx = engine \<Longrightarrow> dr_site_id rq = site \<Longrightarrow> uuid_wf (dr_request_id rq) \<Longrightarrow>
    dr_request_id rq \<noteq> nil_uuid \<Longrightarrow> confined (staging_area content site (dr_request_id rq)) P \<Longrightarrow>
    site_step L content engine site h (Some (dr_request_id rq)) h'"
| rolled_back: "rollback_execute L P cancel rtx m qr h = (answer, h') \<Longrightarrow> rc_content_root rtx = content \<Longrightarrow>
    rc_engine_state rtx = engine \<Longrightarrow> rr_site_id qr = site \<Longrightarrow> uuid_wf (rr_request_id qr) \<Longrightarrow>
    uuid_wf (rr_release_id qr) \<Longrightarrow> rr_release_id qr \<noteq> nil_uuid \<Longrightarrow>
    confined (staging_area content site (rr_release_id qr)) P \<Longrightarrow>
    site_step L content engine site h (Some (rr_release_id qr)) h'"
| recovered: "recovery_execute L content engine site i h = (status, h') \<Longrightarrow> uuid_wf i \<Longrightarrow>
    site_step L content engine site h None h'"

text \<open>A run of such operations, with the releases they were asked for.\<close>

inductive site_run :: "crates \<Rightarrow> path \<Rightarrow> path \<Rightarrow> SiteId \<Rightarrow> host \<Rightarrow> ReleaseId option list \<Rightarrow> host \<Rightarrow> bool"
  for L content engine site where
  nothing: "site_run L content engine site h [] h"
| then_step: "site_step L content engine site h t h' \<Longrightarrow> site_run L content engine site h' ts h'' \<Longrightarrow>
    site_run L content engine site h (t # ts) h''"

text \<open>
  The abstract machine: its state is the release that is served (\<open>None\<close>: the link names no release of
  the site); a step asked for \<open>t\<close> either does nothing or serves \<open>t\<close>, and one asked for nothing does
  nothing.
\<close>

fun serve_step :: "ReleaseId option option \<Rightarrow> ReleaseId option \<Rightarrow> ReleaseId option option set" where
  "serve_step s None = {s}"
| "serve_step s (Some t) = {s, Some (Some t)}"

fun serve_run :: "ReleaseId option option \<Rightarrow> ReleaseId option list \<Rightarrow> ReleaseId option option set" where
  "serve_run s [] = {s}"
| "serve_run s (t # ts) = (\<Union>s' \<in> serve_step s t. serve_run s' ts)"

lemma named_release_cong: "node_at h' cur = node_at h cur \<Longrightarrow> named_release L h' cur = named_release L h cur"
  by (simp add: named_release_def)

lemma deploy_answer_serves:
  assumes "deploy_answer L cur scope rq h h' out"
  shows "named_release L h' cur \<in> serve_step (named_release L h cur) (Some (dr_request_id rq))"
  using assms by (induction L cur scope rq h h' out rule: deploy_answer.induct)
    (auto simp: switched_def intro: named_release_cong)

lemma rollback_answer_serves:
  assumes "rollback_answer L cur scope rq h h' out"
  shows "named_release L h' cur \<in> serve_step (named_release L h cur) (Some (rr_release_id rq))"
  using assms by (induction L cur scope rq h h' out rule: rollback_answer.induct)
    (auto simp: switched_def intro: named_release_cong)

lemma site_step_simulates:
  assumes "crates_ok L" and "uuid_wf site" and "apart content engine" and "site_step L content engine site h t h'"
  shows "flocked h' = flocked h
    \<and> named_release L h' (content @ current_path site) \<in> serve_step (named_release L h (content @ current_path site)) t"
  using assms(4)
proof cases
  case (deployed P cancel ctx m rq out)
  with deploy_effect[OF assms(1) _ _ _ _ _ deployed(2) refl refl] assms deploy_answer_serves show ?thesis by blast
next
  case (rolled_back P cancel rtx m qr answer)
  with rollback_effect[OF assms(1) _ _ _ _ _ _ rolled_back(2) refl refl] assms rollback_answer_serves show ?thesis by blast
next
  case (recovered i status)
  have "\<not> below (engine @ site_path site) (content @ current_path site)"
    by (rule cur_outside(1)[OF assms(3,2)])
  with same_outside_recovery[OF recovered(3) assms(2), of engine h L content] recovery_flocked[of L content engine site i h] recovered
  show ?thesis by (auto simp: same_outside_def intro!: named_release_cong)
qed

lemma example_id2_proper: "example_id2 \<noteq> nil_uuid"
  by (simp add: example_id2_def nil_uuid_def)

lemma serve_run_result: "s' \<in> serve_run s ts \<Longrightarrow> s' = s \<or> (\<exists>t. Some t \<in> set ts \<and> s' = Some (Some t))"
proof (induction ts arbitrary: s)
  case (Cons t ts)
  then show ?case by (cases t) fastforce+
qed simp

text \<open>
  (C3) The engine refines the abstract machine. Whatever deploys, rollbacks and recoveries run one after
  the other on a site, however each of them ends, the release it serves at the end is one the abstract
  machine can serve after the same requests: the one it served at first or the one some request asked
  for. No run leaves a lock behind.
\<close>

theorem site_history_refines:
  assumes "crates_ok L" and "uuid_wf site" and "apart content engine"
    and "site_run L content engine site h ts h'" and "cur = content @ current_path site"
  shows "flocked h' = flocked h \<and> named_release L h' cur \<in> serve_run (named_release L h cur) ts
    \<and> (named_release L h' cur = named_release L h cur \<or> (\<exists>t. Some t \<in> set ts \<and> named_release L h' cur = Some (Some t)))"
proof -
  from assms(4) have "flocked h' = flocked h \<and> named_release L h' cur \<in> serve_run (named_release L h cur) ts"
  proof induction
    case (then_step h t h' ts h'')
    with site_step_simulates[OF assms(1-3), of h t h'] assms(5) show ?case by auto
  qed simp
  with serve_run_result show ?thesis by blast
qed

theorem site_history_refines_witness:
  "named_release example_deploy_crates (snd example_deploy) ([''srv''] @ current_path example_id)
     \<in> serve_run (named_release example_deploy_crates example_deploy_host ([''srv''] @ current_path example_id)) [Some example_id2]"
proof -
  have "site_step example_deploy_crates [''srv''] [''st''] example_id example_deploy_host
      (Some (dr_request_id example_deploy_request)) (snd example_deploy)"
  proof (rule site_step.deployed)
    show "deploy_execute example_deploy_crates example_tools (\<lambda>_. False) example_deploy_context example_manifest
        example_deploy_request example_deploy_host = (fst example_deploy, snd example_deploy)"
      by (simp add: example_deploy_def)
  qed (simp_all add: example_deploy_context_def example_deploy_request_def example_tools_confined example_id2_proper)
  then have "site_run example_deploy_crates [''srv''] [''st''] example_id example_deploy_host [Some example_id2] (snd example_deploy)"
    by (auto simp: example_deploy_request_def intro: site_run.intros)
  from site_history_refines[OF _ _ _ this refl] show ?thesis
    by (auto simp: example_deploy_crates_def apart_def below_def path_starts_with_iff)
qed

end
